(* ===== verification/Pfs_Prelude.thy ===== *)
theory Pfs_Prelude
  imports Main "HOL-Library.Word" "HOL-Library.Monad_Syntax"
begin

unbundle bit_operations_syntax

text \<open>
  What the component theories share: the machine types of the C++ sources, the error
  numbers the sources return, the effect of \<open>PFS_ASSERT\<close>, and generic lemmas on lists
  and words.

  Conventions.
  \<^item> A C function that returns an error code returns an \<open>int\<close> here, negative for an
    error, as the code does. Where a value comes back through a pointer the result is a
    sum \<open>int + 'a\<close> with the code on the left.
  \<^item> \<open>PFS_ASSERT\<close> and \<open>PFS_VERIFY\<close> (\<open>pfs_core/pfs_impl.h\<close>) are compiled into every
    build and abort the process. A function whose code asserts returns an \<open>option\<close>:
    \<open>None\<close> is the aborted process.
  \<^item> Tracing and statistics calls have no counterpart: they change no state the
    program reads back.
\<close>

type_synonym u8 = "8 word"
type_synonym u32 = "32 word"
type_synonym u64 = "64 word"

named_theorems pfs_wf \<comment> \<open>preservation of the components' well-formedness invariants\<close>

section \<open>Error numbers\<close>

text \<open>Linux errno values, as the sources use them with a minus sign in front.\<close>

abbreviation EIO :: int where "EIO \<equiv> 5"
abbreviation E2BIG :: int where "E2BIG \<equiv> 7"
abbreviation EAGAIN :: int where "EAGAIN \<equiv> 11"
abbreviation ENOMEM :: int where "ENOMEM \<equiv> 12"
abbreviation EBUSY :: int where "EBUSY \<equiv> 16"
abbreviation EINVAL :: int where "EINVAL \<equiv> 22"
abbreviation ENOSPC :: int where "ENOSPC \<equiv> 28"
abbreviation EROFS :: int where "EROFS \<equiv> 30"
abbreviation ENODATA :: int where "ENODATA \<equiv> 61"
abbreviation ETIMEDOUT :: int where "ETIMEDOUT \<equiv> 110"

section \<open>Assertions and error accumulation\<close>

definition pfs_assert :: "bool \<Rightarrow> unit option" where
  "pfs_assert c = (if c then Some () else None)"

lemma pfs_assert_simps [simp]:
  "pfs_assert True = Some ()" "pfs_assert False = None"
  by (simp_all add: pfs_assert_def)

lemma pfs_assert_bind [simp]:
  "(pfs_assert c \<bind> f) = (if c then f () else None)"
  by (simp add: pfs_assert_def)

definition err_update :: "int \<Rightarrow> int \<Rightarrow> int" where
  "err_update a b = (if a \<ge> 0 \<and> b < 0 then b else a)"

lemma err_update_neg_iff: "err_update a b < 0 \<longleftrightarrow> a < 0 \<or> b < 0"
  by (auto simp: err_update_def)

section \<open>Lists\<close>

text \<open>The indices \<open>m, m+1, ..., n-1, 0, ..., m-1\<close>: the order in which a circular
  \<open>do { ... } while (i != m)\<close> loop over \<open>n\<close> slots visits them.\<close>

definition circular :: "nat \<Rightarrow> nat \<Rightarrow> nat list" where
  "circular m n = [m..<n] @ [0..<m]"

lemma set_circular [simp]: "m \<le> n \<Longrightarrow> set (circular m n) = {..<n}"
  by (auto simp: circular_def)

lemma distinct_circular [simp]: "distinct (circular m n)"
  by (auto simp: circular_def)

lemma sum_list_update_diff:
  fixes f :: "'a \<Rightarrow> int"
  assumes "i < length xs"
  shows "sum_list (map f (xs[i := y])) = sum_list (map f xs) - f (xs ! i) + f y"
  using assms
  by (induction xs arbitrary: i) (auto split: nat.split)

lemma length_filter_update:
  assumes "i < length xs" "\<not> P (xs ! i)" "P y"
  shows "length (filter P (xs[i := y])) = Suc (length (filter P xs))"
  using assms by (induction xs arbitrary: i) (auto split: nat.split)

section \<open>Words\<close>

lemma word_and_push_bit_one_iff:
  fixes w :: "'a::len word"
  shows "w AND push_bit n 1 \<noteq> 0 \<longleftrightarrow> bit w n"
  by (simp add: and_exp_eq_0_iff_not_bit)

text \<open>Object numbers are built as \<open>(id << shift) | sub\<close> and taken apart by
  \<open>val >> shift\<close> and \<open>val & ((1 << shift) - 1)\<close>.\<close>

lemma not_bit_of_unat_less:
  fixes v :: "'a::len word"
  assumes "unat v < 2 ^ s" "s \<le> m"
  shows "\<not> bit v m"
proof -
  have "take_bit s v = v"
    using assms(1) by (simp add: word_unat_eq_iff unsigned_take_bit_eq take_bit_nat_eq_self)
  then show ?thesis
    using assms(2) by (metis bit_take_bit_iff not_less)
qed

lemma drop_bit_join:
  fixes v w :: u64
  assumes "unat v < 2 ^ s" "unat w < 2 ^ t" "s + t \<le> 64"
  shows "drop_bit s (push_bit s w OR v) = w"
proof (rule bit_word_eqI)
  fix n assume n: "n < LENGTH(64)"
  show "bit (drop_bit s (push_bit s w OR v)) n = bit w n"
  proof (cases "n < t")
    case True
    with assms(3) have "s + n < 64" by simp
    with n show ?thesis
      using not_bit_of_unat_less [OF assms(1), of "s + n"] by (simp add: bit_simps add.commute)
  next
    case False
    then show ?thesis
      using n not_bit_of_unat_less [OF assms(1), of "s + n"]
        not_bit_of_unat_less [OF assms(2), of n]
      by (simp add: bit_simps add.commute)
  qed
qed

lemma and_mask_join:
  fixes v w :: u64
  assumes "unat v < 2 ^ s" "s \<le> 64"
  shows "(push_bit s w OR v) AND (push_bit s 1 - 1) = v"
proof -
  have "push_bit s 1 - 1 = (mask s :: u64)"
    by (simp add: mask_eq_exp_minus_1)
  moreover have "(push_bit s w OR v) AND mask s = v"
    using not_bit_of_unat_less [OF assms(1)]
    by (intro bit_word_eqI) (use not_le in \<open>auto simp: bit_simps\<close>)
  ultimately show ?thesis by simp
qed

lemma join_inject:
  fixes v v' w w' :: u64
  assumes "unat v < 2 ^ s" "unat v' < 2 ^ s" "unat w < 2 ^ t" "unat w' < 2 ^ t" "s + t \<le> 64"
  shows "push_bit s w OR v = push_bit s w' OR v' \<longleftrightarrow> w = w' \<and> v = v'"
  using assms by (metis add_leD1 and_mask_join drop_bit_join)

end
