(* ===== verification/Paxos_Record.thy ===== *)
theory Paxos_Record
  imports Pfs_Prelude
begin

text \<open>
  The records on the paxos file (\<open>pfs_core/pfs_paxos.h\<close>): sector 0 holds the leader record,
  sector \<open>i\<close> the lease record of host \<open>i\<close>. Here are the two structures, their byte images
  (what the checksums cover), the checks the readers make, the ageing of a lease record and
  the ballots. The checksum function \<open>crc32c\<close> is third-party code and a parameter \<open>crc\<close>:
  an initial value and the bytes give the sum.
\<close>

section \<open>Time\<close>

record timespec =
  tv_sec :: int
  tv_nsec :: int

definition timespec_ns :: "timespec \<Rightarrow> int" where
  "timespec_ns t = tv_sec t * 1000000000 + tv_nsec t"

definition timespec_ok :: "timespec \<Rightarrow> bool" where
  "timespec_ok t \<longleftrightarrow> 0 \<le> tv_nsec t \<and> tv_nsec t < 1000000000"

definition timespec_diff_ns :: "timespec \<Rightarrow> timespec \<Rightarrow> int" where
  "timespec_diff_ns later earlier =
     (tv_sec later - tv_sec earlier) * 1000000000 + (tv_nsec later - tv_nsec earlier)"

text \<open>The options \<open>paxos_lease_duration\<close> and \<open>paxos_clock_skew_max\<close>, in seconds, with
  their defaults.\<close>

record paxos_opts =
  paxos_lease_duration :: int
  paxos_clock_skew_max :: int
  paxos_watchdog_enable :: int

definition default_opts :: paxos_opts where
  "default_opts = \<lparr>paxos_lease_duration = 30, paxos_clock_skew_max = 2, paxos_watchdog_enable = 0\<rparr>"

definition host_record_age :: "u64 \<Rightarrow> timespec \<Rightarrow> int" where
  "host_record_age ts now = tv_sec now - sint ts"

definition lease_expiry_age :: "paxos_opts \<Rightarrow> int" where
  "lease_expiry_age po = paxos_lease_duration po + paxos_clock_skew_max po + 1"

definition host_record_live :: "paxos_opts \<Rightarrow> u64 \<Rightarrow> timespec \<Rightarrow> bool" where
  "host_record_live po ts now \<longleftrightarrow> host_record_age ts now < lease_expiry_age po"

definition lease_elapsed_sec :: "timespec \<Rightarrow> timespec \<Rightarrow> int" where
  "lease_elapsed_sec since now =
     tv_sec now - tv_sec since - (if tv_nsec now < tv_nsec since then 1 else 0)"

text \<open>\<open>lease_timestamp\<close>: the whole seconds of \<open>CLOCK_REALTIME\<close>.\<close>

definition lease_timestamp :: "timespec \<Rightarrow> u64" where
  "lease_timestamp now = word_of_int (tv_sec now)"

section \<open>Byte images\<close>

text \<open>Structures are written to the device as they lie in memory, little endian.\<close>

definition le32 :: "u32 \<Rightarrow> u8 list" where
  "le32 w = map (\<lambda>i. ucast (drop_bit (8 * i) w)) [0..<4]"

definition le64 :: "u64 \<Rightarrow> u8 list" where
  "le64 w = map (\<lambda>i. ucast (drop_bit (8 * i) w)) [0..<8]"

lemma length_le [simp]: "length (le32 v) = 4" "length (le64 w) = 8"
  by (simp_all add: le32_def le64_def)

section \<open>Host records\<close>

abbreviation PFS_OK :: int where "PFS_OK \<equiv> 1"
abbreviation PFS_AIO_TIMEOUT :: int where "PFS_AIO_TIMEOUT \<equiv> - 202"
abbreviation PFS_HOST_MAGIC :: u32 where "PFS_HOST_MAGIC \<equiv> 0xcafebabe"
abbreviation PFS_HOST_FL_RW :: u32 where "PFS_HOST_FL_RW \<equiv> 1"
abbreviation PFS_HOST_FL_PREPARE :: u32 where "PFS_HOST_FL_PREPARE \<equiv> 2"
abbreviation PFS_HOST_EMAGIC :: int where "PFS_HOST_EMAGIC \<equiv> - 241"
abbreviation PFS_HOST_ECHECKSUM :: int where "PFS_HOST_ECHECKSUM \<equiv> - 242"

record host_record =
  hr_magic :: u32
  hr_flags :: u32
  hr_host_id :: u32
  hr_generation :: u32
  hr_timestamp :: u64
  hr_mbal :: u64
  hr_bal :: u64
  hr_unused :: "u8 list"
  hr_checksum :: u32

text \<open>The record after \<open>memset(&hr, 0, sizeof(hr))\<close>.\<close>

definition zero_host_record :: host_record where
  "zero_host_record = \<lparr>hr_magic = 0, hr_flags = 0, hr_host_id = 0, hr_generation = 0,
     hr_timestamp = 0, hr_mbal = 0, hr_bal = 0, hr_unused = replicate 468 0, hr_checksum = 0\<rparr>"

text \<open>The \<open>HOST_CHECKSUM_LEN\<close> bytes before \<open>hr_checksum\<close>.\<close>

definition host_record_bytes :: "host_record \<Rightarrow> u8 list" where
  "host_record_bytes hr =
     le32 (hr_magic hr) @ le32 (hr_flags hr) @ le32 (hr_host_id hr) @ le32 (hr_generation hr) @
     le64 (hr_timestamp hr) @ le64 (hr_mbal hr) @ le64 (hr_bal hr) @ hr_unused hr"

definition host_record_checksum :: "(u32 \<Rightarrow> u8 list \<Rightarrow> u32) \<Rightarrow> host_record \<Rightarrow> u32" where
  "host_record_checksum crc hr = crc (NOT 1) (host_record_bytes hr)"

text \<open>The part of \<open>pfs_host_record_read\<close> after the sector was read.\<close>

definition host_record_parse :: "(u32 \<Rightarrow> u8 list \<Rightarrow> u32) \<Rightarrow> host_record \<Rightarrow> int" where
  "host_record_parse crc hr =
     (if hr_magic hr = 0 \<and> hr = zero_host_record then 0
      else if hr_magic hr \<noteq> PFS_HOST_MAGIC then PFS_HOST_EMAGIC
      else if hr_checksum hr \<noteq> host_record_checksum crc hr then PFS_HOST_ECHECKSUM
      else PFS_OK)"

definition host_record_corrupt :: "int \<Rightarrow> bool" where
  "host_record_corrupt rv \<longleftrightarrow> rv = PFS_HOST_EMAGIC \<or> rv = PFS_HOST_ECHECKSUM"

definition hr_rw :: "host_record \<Rightarrow> bool" where
  "hr_rw hr \<longleftrightarrow> hr_flags hr AND PFS_HOST_FL_RW \<noteq> 0"

definition hr_rw_or_prepare :: "host_record \<Rightarrow> bool" where
  "hr_rw_or_prepare hr \<longleftrightarrow> hr_flags hr AND (PFS_HOST_FL_RW OR PFS_HOST_FL_PREPARE) \<noteq> 0"

text \<open>A record as \<open>prepare\<close>, \<open>acquire\<close>, \<open>renew\<close> and the test helpers fill it in.\<close>

definition make_host_record ::
    "(u32 \<Rightarrow> u8 list \<Rightarrow> u32) \<Rightarrow> u32 \<Rightarrow> u32 \<Rightarrow> u32 \<Rightarrow> u64 \<Rightarrow> u64 \<Rightarrow> u64 \<Rightarrow> host_record" where
  "make_host_record crc flags host_id gen ts mbal bal =
     (let hr = zero_host_record\<lparr>hr_magic := PFS_HOST_MAGIC, hr_flags := flags, hr_host_id := host_id,
            hr_generation := gen, hr_timestamp := ts, hr_mbal := mbal, hr_bal := bal\<rparr>
      in hr\<lparr>hr_checksum := host_record_checksum crc hr\<rparr>)"

lemma length_host_record_bytes: "length (hr_unused hr) = 468 \<Longrightarrow> length (host_record_bytes hr) = 508"
  by (simp add: host_record_bytes_def)

lemma host_record_bytes_checksum [simp]:
  "host_record_bytes (hr\<lparr>hr_checksum := c\<rparr>) = host_record_bytes hr"
  by (simp add: host_record_bytes_def)

lemma make_host_record_fields [simp]:
  "hr_magic (make_host_record crc fl i g ts mb b) = PFS_HOST_MAGIC"
  "hr_flags (make_host_record crc fl i g ts mb b) = fl"
  "hr_host_id (make_host_record crc fl i g ts mb b) = i"
  "hr_generation (make_host_record crc fl i g ts mb b) = g"
  "hr_timestamp (make_host_record crc fl i g ts mb b) = ts"
  "hr_mbal (make_host_record crc fl i g ts mb b) = mb"
  "hr_bal (make_host_record crc fl i g ts mb b) = b"
  by (simp_all add: make_host_record_def Let_def)

text \<open>What a host writes, every reader accepts as a valid record.\<close>

lemma host_record_parse_make [simp]:
  "host_record_parse crc (make_host_record crc fl i g ts mb b) = PFS_OK"
  by (simp add: host_record_parse_def make_host_record_def host_record_checksum_def Let_def)

lemma host_record_parse_zero [simp]: "host_record_parse crc zero_host_record = 0"
  by (simp add: host_record_parse_def zero_host_record_def)

lemma host_record_parse_cases: "host_record_parse crc hr \<in> {0, PFS_OK, PFS_HOST_EMAGIC, PFS_HOST_ECHECKSUM}"
  by (simp add: host_record_parse_def)

section \<open>The leader record\<close>

abbreviation PFS_LEADER_MAGIC :: u32 where "PFS_LEADER_MAGIC \<equiv> 0xbabababa"
abbreviation PFS_LEADER_CLEAR :: u32 where "PFS_LEADER_CLEAR \<equiv> 0x11282016"
abbreviation PFS_LEADER_VERSION_PRIMARY :: u32 where "PFS_LEADER_VERSION_PRIMARY \<equiv> 0x00010000"
abbreviation PFS_LEADER_VERSION_SECONDARY :: u32 where "PFS_LEADER_VERSION_SECONDARY \<equiv> 0x00000002"
abbreviation PFS_LEADER_EMAGIC :: int where "PFS_LEADER_EMAGIC \<equiv> - 223"
abbreviation PFS_LEADER_EVERSION :: int where "PFS_LEADER_EVERSION \<equiv> - 224"
abbreviation PFS_LEADER_ESECTORSIZE :: int where "PFS_LEADER_ESECTORSIZE \<equiv> - 225"
abbreviation PFS_LEADER_ENUMHOSTS :: int where "PFS_LEADER_ENUMHOSTS \<equiv> - 228"
abbreviation PFS_LEADER_ECHECKSUM :: int where "PFS_LEADER_ECHECKSUM \<equiv> - 229"
abbreviation DEFAULT_MAX_HOSTS :: int where "DEFAULT_MAX_HOSTS \<equiv> 254"

record leader_record =
  lr_magic :: u32
  lr_version :: u32
  lr_flags :: u32
  lr_sector_size :: u32
  lr_num_hosts :: u64
  lr_max_hosts :: u64
  lr_unused :: "u8 list"
  tail_txid :: u64
  head_txid :: u64
  tail_offset :: u64
  head_offset :: u64
  log_size :: u64
  head_lsn :: u64
  lr_checksum :: u32

definition zero_leader_record :: leader_record where
  "zero_leader_record = \<lparr>lr_magic = 0, lr_version = 0, lr_flags = 0, lr_sector_size = 0, lr_num_hosts = 0,
     lr_max_hosts = 0, lr_unused = replicate 0xb0 0, tail_txid = 0, head_txid = 0, tail_offset = 0,
     head_offset = 0, log_size = 0, head_lsn = 0, lr_checksum = 0\<rparr>"

definition leader_record_bytes :: "leader_record \<Rightarrow> u8 list" where
  "leader_record_bytes lr =
     le32 (lr_magic lr) @ le32 (lr_version lr) @ le32 (lr_flags lr) @ le32 (lr_sector_size lr) @
     le64 (lr_num_hosts lr) @ le64 (lr_max_hosts lr) @ lr_unused lr @ le64 (tail_txid lr) @
     le64 (head_txid lr) @ le64 (tail_offset lr) @ le64 (head_offset lr) @ le64 (log_size lr) @
     le64 (head_lsn lr)"

definition leader_checksum :: "(u32 \<Rightarrow> u8 list \<Rightarrow> u32) \<Rightarrow> leader_record \<Rightarrow> u32" where
  "leader_checksum crc lr = crc (NOT 1) (leader_record_bytes lr)"

lemma leader_checksum_update [simp]:
  "leader_checksum crc (lr\<lparr>lr_checksum := c\<rparr>) = leader_checksum crc lr"
  by (simp add: leader_checksum_def leader_record_bytes_def)

text \<open>\<open>checksum\<close> is what the reader computed over the sector it read.\<close>

definition verify_leader :: "u32 \<Rightarrow> u32 \<Rightarrow> leader_record \<Rightarrow> u32 \<Rightarrow> int" where
  "verify_leader sectsize host_id lr checksum =
     (if lr_magic lr = PFS_LEADER_CLEAR then PFS_LEADER_EMAGIC
      else if lr_magic lr \<noteq> PFS_LEADER_MAGIC then PFS_LEADER_EMAGIC
      else if lr_version lr AND 0xFFFF0000 \<noteq> PFS_LEADER_VERSION_PRIMARY then PFS_LEADER_EVERSION
      else if lr_sector_size lr \<noteq> sectsize then PFS_LEADER_ESECTORSIZE
      else if lr_num_hosts lr < ucast host_id then PFS_LEADER_ENUMHOSTS
      else if lr_checksum lr \<noteq> checksum then PFS_LEADER_ECHECKSUM
      else PFS_OK)"

definition direct_align :: "int \<Rightarrow> int" where
  "direct_align sector_size =
     (if sector_size = 512 then 1024 * 1024
      else if sector_size = 4096 then 4 * 1024 * 1024 else - EINVAL)"

text \<open>
  \<open>pfs_leader_init\<close> up to the write of the buffer: the argument checks and the leader
  record that goes to sector 0 of a zeroed area of the returned length.
\<close>

definition leader_init_record ::
    "(u32 \<Rightarrow> u8 list \<Rightarrow> u32) \<Rightarrow> int \<Rightarrow> int \<Rightarrow> int \<Rightarrow> bool \<Rightarrow> u64 \<Rightarrow> int + leader_record \<times> int" where
  "leader_init_record crc sector_size num_hosts0 max_hosts0 write_clear logsize =
     (let num_hosts = (if num_hosts0 = 0 then DEFAULT_MAX_HOSTS else num_hosts0);
          max_hosts = (if max_hosts0 = 0 then DEFAULT_MAX_HOSTS else max_hosts0);
          align_size = direct_align sector_size
      in if max_hosts > DEFAULT_MAX_HOSTS then Inl (- E2BIG)
         else if num_hosts > DEFAULT_MAX_HOSTS then Inl (- EINVAL)
         else if num_hosts > max_hosts then Inl (- EINVAL)
         else if align_size < 0 then Inl align_size
         else if sector_size * (2 + max_hosts) > align_size then Inl (- E2BIG)
         else
           let leader = zero_leader_record\<lparr>
                 lr_magic := (if write_clear then PFS_LEADER_CLEAR else PFS_LEADER_MAGIC),
                 lr_version := PFS_LEADER_VERSION_PRIMARY OR PFS_LEADER_VERSION_SECONDARY,
                 lr_sector_size := word_of_int sector_size, lr_num_hosts := word_of_int num_hosts,
                 lr_max_hosts := word_of_int max_hosts, log_size := logsize\<rparr>
           in Inr (leader\<lparr>lr_checksum := leader_checksum crc leader\<rparr>, align_size))"

section \<open>Ballots\<close>

text \<open>\<open>pfs_ballot_generate\<close>: 64-bit arithmetic.\<close>

definition pfs_ballot_generate :: "u64 \<Rightarrow> u32 \<Rightarrow> u32 \<Rightarrow> u64" where
  "pfs_ballot_generate gen num_hosts host_id = gen * ucast num_hosts + ucast host_id"

end
