(* ===== verification/Lease_Io.thy ===== *)
theory Lease_Io
  imports Paxos_Record
begin

text \<open>
  Programs that talk to the paxos file, the clocks and the kernel while other hosts do the
  same. A program is a tree: each inner node is one system interaction, its branches are the
  possible answers. The lease code of \<open>pfs_core/pfs_paxos.cc\<close> is written as such programs
  (\<open>Lease\<close>); how their interactions interleave with those of other hosts is described by
  events in \<open>Lease_Exclusion\<close>.

  \<open>Abort\<close> is a failed assertion or \<open>abort()\<close>, \<open>Out\<close> a polling loop that used up the
  number of rounds it was given. Failures of \<open>pfs_mem_memalign\<close> are folded into the answer
  of the read or write that follows: the caller sees the same negative code.
\<close>

datatype clockid = CLOCK_REALTIME | LEASE_CLOCK

text \<open>Calls answered by an integer.\<close>

datatype sysreq =
    OpenPaxos
  | ClosePaxos
  | OpenLockFile string
  | SetLock int int
  | CloseLockFile
  | Sleep1
  | Sigaction
  | TimerCreate
  | TimerSet timespec
  | TimerDelete
  | OpenWatchdog
  | WriteWatchdog
  | CloseWatchdog
  | FormatPaxos leader_record int

datatype 'a prog =
    Ret 'a
  | Abort
  | Out
  | Sys sysreq "int \<Rightarrow> 'a prog"
  | Clock clockid "timespec \<Rightarrow> 'a prog"
  | RdLeader "int \<times> leader_record \<Rightarrow> 'a prog"
  | WrLeader leader_record "int \<Rightarrow> 'a prog"
  | RdHost u32 "int \<times> host_record \<Rightarrow> 'a prog"
  | WrHost u32 host_record "int \<Rightarrow> 'a prog"

primrec bindP :: "'a prog \<Rightarrow> ('a \<Rightarrow> 'b prog) \<Rightarrow> 'b prog" where
  "bindP (Ret x) f = f x"
| "bindP Abort f = Abort"
| "bindP Out f = Out"
| "bindP (Sys r k) f = Sys r (\<lambda>x. bindP (k x) f)"
| "bindP (Clock c k) f = Clock c (\<lambda>x. bindP (k x) f)"
| "bindP (RdLeader k) f = RdLeader (\<lambda>x. bindP (k x) f)"
| "bindP (WrLeader lr k) f = WrLeader lr (\<lambda>x. bindP (k x) f)"
| "bindP (RdHost i k) f = RdHost i (\<lambda>x. bindP (k x) f)"
| "bindP (WrHost i hr k) f = WrHost i hr (\<lambda>x. bindP (k x) f)"

definition assertP :: "bool \<Rightarrow> 'a prog \<Rightarrow> 'a prog" where
  "assertP c p = (if c then p else Abort)"

section \<open>Replaying a program against the answers it got\<close>

datatype event =
    ESys sysreq int
  | EClock clockid timespec
  | ERdLeader int leader_record
  | EWrLeader leader_record int
  | ERdHost u32 int host_record
  | EWrHost u32 host_record int

text \<open>The result of running a program whose first interactions are the given events, and the
  events it leaves over.\<close>

primrec replay :: "'a prog \<Rightarrow> event list \<Rightarrow> ('a \<times> event list) option" where
  "replay (Ret x) es = Some (x, es)"
| "replay Abort es = None"
| "replay Out es = None"
| "replay (Sys r k) es =
     (case es of ESys r' x # es' \<Rightarrow> if r = r' then replay (k x) es' else None | _ \<Rightarrow> None)"
| "replay (Clock c k) es =
     (case es of EClock c' t # es' \<Rightarrow> if c = c' then replay (k t) es' else None | _ \<Rightarrow> None)"
| "replay (RdLeader k) es =
     (case es of ERdLeader rv lr # es' \<Rightarrow> replay (k (rv, lr)) es' | _ \<Rightarrow> None)"
| "replay (WrLeader lr k) es =
     (case es of EWrLeader lr' rv # es' \<Rightarrow> if lr = lr' then replay (k rv) es' else None | _ \<Rightarrow> None)"
| "replay (RdHost i k) es =
     (case es of ERdHost i' rv hr # es' \<Rightarrow> if i = i' then replay (k (rv, hr)) es' else None | _ \<Rightarrow> None)"
| "replay (WrHost i hr k) es =
     (case es of EWrHost i' hr' rv # es' \<Rightarrow>
        if i = i' \<and> hr = hr' then replay (k rv) es' else None | _ \<Rightarrow> None)"

lemma replay_bindP:
  "replay (bindP p f) es = (case replay p es of None \<Rightarrow> None | Some (x, es') \<Rightarrow> replay (f x) es')"
  by (induction p arbitrary: es) (simp_all split: list.split event.split)

lemma replay_bindP_SomeE:
  assumes "replay (bindP p f) es = Some (y, rest)"
  obtains x mid where "replay p es = Some (x, mid)" "replay (f x) mid = Some (y, rest)"
  using assms by (auto simp: replay_bindP split: option.splits)

text \<open>Host sectors a program may write.\<close>

primrec writes_only :: "(u32 \<Rightarrow> bool) \<Rightarrow> 'a prog \<Rightarrow> bool" where
  "writes_only P (Ret x) = True"
| "writes_only P Abort = True"
| "writes_only P Out = True"
| "writes_only P (Sys r k) = (\<forall>x. writes_only P (k x))"
| "writes_only P (Clock c k) = (\<forall>x. writes_only P (k x))"
| "writes_only P (RdLeader k) = (\<forall>x. writes_only P (k x))"
| "writes_only P (WrLeader lr k) = (\<forall>x. writes_only P (k x))"
| "writes_only P (RdHost i k) = (\<forall>x. writes_only P (k x))"
| "writes_only P (WrHost i hr k) = (P i \<and> (\<forall>x. writes_only P (k x)))"

lemma writes_only_bindP:
  "writes_only P p \<Longrightarrow> (\<And>x. writes_only P (f x)) \<Longrightarrow> writes_only P (bindP p f)"
  by (induction p) auto

fun writes_to :: "u32 \<Rightarrow> event \<Rightarrow> bool" where
  "writes_to i (EWrHost j hr rv) = (i = j)"
| "writes_to i _ = False"

text \<open>A replayed program consumes a prefix of the events and writes only the sectors it may.\<close>

definition quiet :: "(u32 \<Rightarrow> bool) \<Rightarrow> event list \<Rightarrow> bool" where
  "quiet P es \<longleftrightarrow> (\<forall>e\<in>set es. \<forall>i. writes_to i e \<longrightarrow> P i)"

lemma quiet_simps [simp]:
  "quiet P []" "quiet P (e # es) \<longleftrightarrow> (\<forall>i. writes_to i e \<longrightarrow> P i) \<and> quiet P es"
  "quiet P (es @ es') \<longleftrightarrow> quiet P es \<and> quiet P es'"
  by (auto simp: quiet_def)

lemma quiet_consI:
  "es = e # es' \<Longrightarrow> (\<And>i. writes_to i e \<Longrightarrow> P i) \<Longrightarrow> \<exists>pre. es' = pre @ rest \<and> quiet P pre \<Longrightarrow>
   \<exists>pre. es = pre @ rest \<and> quiet P pre"
  by (metis append_Cons quiet_simps(2))

lemma replay_consumed:
  "replay p es = Some (x, rest) \<Longrightarrow> writes_only P p \<Longrightarrow> \<exists>pre. es = pre @ rest \<and> quiet P pre"
proof (induction p arbitrary: es)
  case (Sys r k)
  from Sys.prems obtain y es' where e: "es = ESys r y # es'" "replay (k y) es' = Some (x, rest)"
    by (auto split: list.splits event.splits if_splits)
  show ?case
    by (rule quiet_consI [OF e(1)]) (use e(2) Sys.IH [of "k y" es'] Sys.prems(2) in auto)
next
  case (Clock c k)
  from Clock.prems obtain y es' where e: "es = EClock c y # es'" "replay (k y) es' = Some (x, rest)"
    by (auto split: list.splits event.splits if_splits)
  show ?case
    by (rule quiet_consI [OF e(1)]) (use e(2) Clock.IH [of "k y" es'] Clock.prems(2) in auto)
next
  case (RdLeader k)
  from RdLeader.prems obtain rv lr es' where e: "es = ERdLeader rv lr # es'" "replay (k (rv, lr)) es' = Some (x, rest)"
    by (auto split: list.splits event.splits if_splits)
  show ?case
    by (rule quiet_consI [OF e(1)]) (use e(2) RdLeader.IH [of "k (rv, lr)" es'] RdLeader.prems(2) in auto)
next
  case (WrLeader lr k)
  from WrLeader.prems obtain rv es' where e: "es = EWrLeader lr rv # es'" "replay (k rv) es' = Some (x, rest)"
    by (auto split: list.splits event.splits if_splits)
  show ?case
    by (rule quiet_consI [OF e(1)]) (use e(2) WrLeader.IH [of "k rv" es'] WrLeader.prems(2) in auto)
next
  case (RdHost i k)
  from RdHost.prems obtain rv hr es' where e: "es = ERdHost i rv hr # es'" "replay (k (rv, hr)) es' = Some (x, rest)"
    by (auto split: list.splits event.splits if_splits)
  show ?case
    by (rule quiet_consI [OF e(1)]) (use e(2) RdHost.IH [of "k (rv, hr)" es'] RdHost.prems(2) in auto)
next
  case (WrHost i hr k)
  from WrHost.prems obtain rv es' where e: "es = EWrHost i hr rv # es'" "replay (k rv) es' = Some (x, rest)"
    by (auto split: list.splits event.splits if_splits)
  show ?case
    by (rule quiet_consI [OF e(1)]) (use e(2) WrHost.IH [of "k rv" es'] WrHost.prems(2) in auto)
qed auto

lemma writes_only_all [simp]: "writes_only (\<lambda>_. True) p"
  by (induction p) auto

lemma replay_prefix: "replay p es = Some (x, rest) \<Longrightarrow> \<exists>pre. es = pre @ rest"
  using replay_consumed [of p es x rest "\<lambda>_. True"] by auto

end
