(* ===== verification/Lease.thy ===== *)
theory Lease
  imports Lease_Io
begin

text \<open>
  The read-write lease of \<open>pfs_core/pfs_paxos.cc\<close> as programs of \<open>Lease_Io\<close>, in the order
  of the source: reading and writing the leader record and the host sectors, the wait for
  unusable sectors, the four phases of an acquisition (check, prepare and verify, acquire,
  conflict check), renewal, release and the watchdog, and the log thread's renewal step
  (\<open>pfs_log.cc\<close>).

  The mount is the record \<open>lease_mnt\<close>, the fields of \<open>pfs_mount_t\<close> the lease code uses. A
  program that changes the mount returns it. The \<open>while\<close> loops that poll once per second
  take the number of rounds as fuel.
\<close>

section \<open>The mount\<close>

abbreviation MNTFLG_WR :: u32 where "MNTFLG_WR \<equiv> 0x2"
abbreviation MNTFLG_PFSD :: u32 where "MNTFLG_PFSD \<equiv> 0x100"
abbreviation MNTFLG_TOOL :: u32 where "MNTFLG_TOOL \<equiv> 0x1000"
abbreviation EACCES :: int where "EACCES \<equiv> 13"
abbreviation ENAMETOOLONG :: int where "ENAMETOOLONG \<equiv> 36"

text \<open>\<open>mnt_kill_timer\<close> is the absolute deadline the kernel timer is set to.\<close>

record lease_mnt =
  mnt_flags :: u32
  mnt_sectsize :: u32
  mnt_lockspace_name :: string
  mnt_hostid_fd :: int
  mnt_paxos_file :: bool
  mnt_num_hosts :: u32
  mnt_host_id :: u32
  mnt_host_generation :: u64
  mnt_current_ballot :: u64
  mnt_rw_lease_held :: bool
  mnt_kill_timer :: timespec
  mnt_lease_write_time :: timespec
  mnt_kill_timer_armed :: bool
  mnt_wdog_fd :: int
  mnt_log_leader :: leader_record

definition pfs_writable :: "lease_mnt \<Rightarrow> bool" where
  "pfs_writable mnt \<longleftrightarrow> mnt_flags mnt AND MNTFLG_WR \<noteq> 0"

definition pfs_ispfsd :: "lease_mnt \<Rightarrow> bool" where
  "pfs_ispfsd mnt \<longleftrightarrow> mnt_flags mnt AND MNTFLG_PFSD = MNTFLG_PFSD"

text \<open>What the code is configured with: the checksum function and the options.\<close>

record lease_env =
  env_crc :: "u32 \<Rightarrow> u8 list \<Rightarrow> u32"
  env_opts :: paxos_opts

section \<open>Sector input and output\<close>

text \<open>\<open>pfs_write_paxos_sector\<close>: the answer of \<open>pfs_file_pwrite\<close> as a code.\<close>

definition write_code :: "lease_mnt \<Rightarrow> int \<Rightarrow> int" where
  "write_code mnt rv =
     (if rv < 0 then (if rv = - ETIMEDOUT then PFS_AIO_TIMEOUT else rv)
      else if rv \<noteq> uint (mnt_sectsize mnt) then - EIO else 0)"

text \<open>\<open>pfs_read_paxos_sectors\<close> of one sector: the answer of \<open>pfs_file_pread\<close> as a code.\<close>

definition read_code :: "lease_mnt \<Rightarrow> int \<Rightarrow> int" where
  "read_code mnt rv = (if rv < 0 then rv else if rv \<noteq> uint (mnt_sectsize mnt) then - EIO else rv)"

definition write_leader :: "lease_env \<Rightarrow> lease_mnt \<Rightarrow> leader_record \<Rightarrow> (int \<times> leader_record) prog" where
  "write_leader env mnt lr =
     (let lr' = lr\<lparr>lr_checksum := leader_checksum (env_crc env) lr\<rparr>
      in WrLeader lr' (\<lambda>rv. Ret (write_code mnt rv, lr')))"

text \<open>The checksum is computed over the buffer whatever the read returned.\<close>

definition read_leader :: "lease_env \<Rightarrow> lease_mnt \<Rightarrow> (int \<times> leader_record \<times> u32) prog" where
  "read_leader env mnt =
     RdLeader (\<lambda>(rv, lr). Ret (read_code mnt rv, lr, leader_checksum (env_crc env) lr))"

definition pfs_leader_read :: "lease_env \<Rightarrow> lease_mnt \<Rightarrow> (int \<times> leader_record) prog" where
  "pfs_leader_read env mnt =
     bindP (read_leader env mnt) (\<lambda>(rv, lr, checksum).
       if rv < 0 then Ret (rv, zero_leader_record)
       else Ret (verify_leader (mnt_sectsize mnt) (mnt_host_id mnt) lr checksum, lr))"

definition pfs_leader_write :: "lease_env \<Rightarrow> lease_mnt \<Rightarrow> leader_record \<Rightarrow> (int \<times> leader_record) prog" where
  "pfs_leader_write env mnt nl =
     bindP (write_leader env mnt nl) (\<lambda>(rv, nl'). Ret (if rv < 0 then rv else PFS_OK, nl'))"

definition pfs_leader_init ::
    "lease_env \<Rightarrow> lease_mnt \<Rightarrow> int \<Rightarrow> int \<Rightarrow> bool \<Rightarrow> u64 \<Rightarrow> int prog" where
  "pfs_leader_init env mnt num_hosts max_hosts write_clear logsize =
     (case leader_init_record (env_crc env) (uint (mnt_sectsize mnt)) num_hosts max_hosts write_clear logsize of
        Inl e \<Rightarrow> Ret e
      | Inr (leader, iobuf_len) \<Rightarrow>
          assertP (\<not> mnt_paxos_file mnt)
            (Sys OpenPaxos (\<lambda>fd.
               if fd < 0 then Ret fd
               else Sys (FormatPaxos leader iobuf_len) (\<lambda>rv.
                 Sys ClosePaxos (\<lambda>_. Ret (if rv < 0 then rv else 0))))))"

definition pfs_host_record_write :: "lease_mnt \<Rightarrow> host_record \<Rightarrow> int prog" where
  "pfs_host_record_write mnt hr =
     assertP (uint (mnt_sectsize mnt) \<ge> 512)
       (WrHost (hr_host_id hr) hr (\<lambda>rv. Ret (write_code mnt rv)))"

text \<open>\<open>hr0\<close> is what the caller's buffer held: a failed read leaves it alone.\<close>

definition pfs_host_record_read ::
    "lease_env \<Rightarrow> lease_mnt \<Rightarrow> u32 \<Rightarrow> host_record \<Rightarrow> (int \<times> host_record) prog" where
  "pfs_host_record_read env mnt host_id hr0 =
     RdHost host_id (\<lambda>(rv, hr).
       if read_code mnt rv < 0 then Ret (read_code mnt rv, hr0)
       else Ret (host_record_parse (env_crc env) hr, hr))"

text \<open>The test helpers' raw write; \<open>src\<close> is the record its bytes amount to.\<close>

definition pfs_write_raw_host_sector :: "lease_mnt \<Rightarrow> u32 \<Rightarrow> host_record \<Rightarrow> nat \<Rightarrow> int prog" where
  "pfs_write_raw_host_sector mnt host_id src srclen =
     assertP (srclen \<le> 512) (WrHost host_id src (\<lambda>rv. Ret (write_code mnt rv)))"

definition pfs_check_host_sector :: "lease_env \<Rightarrow> lease_mnt \<Rightarrow> u32 \<Rightarrow> int prog" where
  "pfs_check_host_sector env mnt host_id =
     bindP (pfs_host_record_read env mnt host_id zero_host_record) (\<lambda>(rv, _). Ret rv)"

definition pfs_host_record_clear :: "lease_mnt \<Rightarrow> u32 \<Rightarrow> int prog" where
  "pfs_host_record_clear mnt host_id =
     WrHost host_id zero_host_record (\<lambda>rv. Ret (write_code mnt rv))"

section \<open>Unusable sectors\<close>

type_synonym dead_set = "(u32 \<times> host_record) list"

fun lease_sector_dead :: "dead_set \<Rightarrow> u32 \<Rightarrow> host_record \<Rightarrow> bool" where
  "lease_sector_dead [] host_id raw = False"
| "lease_sector_dead ((i, r) # dead) host_id raw =
     (if i = host_id then r = raw else lease_sector_dead dead host_id raw)"

text \<open>The slots \<open>1 .. mnt_num_hosts\<close> a scan visits, our own left out.\<close>

definition host_slots :: "lease_mnt \<Rightarrow> u32 list" where
  "host_slots mnt = filter (\<lambda>i. i \<noteq> mnt_host_id mnt) (map of_nat [1..<Suc (unat (mnt_num_hosts mnt))])"

record bad_sector =
  bad_host_id :: u32
  bad_unreadable :: bool
  bad_switches :: nat
  bad_raw :: host_record
  bad_since :: timespec

text \<open>The first scan of \<open>pfs_rw_lease_wait_bad_sectors\<close>.\<close>

fun bad_scan :: "lease_env \<Rightarrow> lease_mnt \<Rightarrow> u32 list \<Rightarrow> host_record \<Rightarrow> (bad_sector list \<times> host_record) prog" where
  "bad_scan env mnt [] hr0 = Ret ([], hr0)"
| "bad_scan env mnt (i # is) hr0 =
     bindP (pfs_host_record_read env mnt i hr0) (\<lambda>(rv, hr).
       if rv = 0 \<or> rv = PFS_OK then bad_scan env mnt is hr
       else Clock LEASE_CLOCK (\<lambda>seen.
         bindP (bad_scan env mnt is hr) (\<lambda>(bad, hr').
           Ret (\<lparr>bad_host_id = i, bad_unreadable = \<not> host_record_corrupt rv, bad_switches = 0,
                  bad_raw = hr, bad_since = seen\<rparr> # bad, hr'))))"

text \<open>
  One sector of one round, after it was read with code \<open>rv\<close> (neither empty nor valid):
  \<open>Inl\<close> refuses the lease, \<open>Inr (None, d)\<close> drops the sector, adding \<open>d\<close> to the dead set,
  \<open>Inr (Some b, [])\<close> keeps watching it.
\<close>

definition bad_step ::
    "paxos_opts \<Rightarrow> timespec \<Rightarrow> timespec \<Rightarrow> int \<Rightarrow> host_record \<Rightarrow> bad_sector \<Rightarrow>
     int + bad_sector option \<times> dead_set" where
  "bad_step po now seen rv hr b =
     (let unreadable = \<not> host_record_corrupt rv;
          switched = bad_unreadable b \<noteq> unreadable;
          switches = (if switched then Suc (bad_switches b) else bad_switches b)
      in if switched \<and> switches > 2 then Inl (- EBUSY)
         else if \<not> unreadable \<and> \<not> bad_unreadable b \<and> bad_raw b \<noteq> hr then Inl (- EBUSY)
         else
           let b1 = b\<lparr>bad_switches := switches\<rparr>;
               b2 = (if \<not> unreadable then
                       (if bad_unreadable b
                        then b1\<lparr>bad_unreadable := False, bad_raw := hr, bad_since := seen\<rparr> else b1)
                     else if \<not> bad_unreadable b
                     then b1\<lparr>bad_unreadable := True, bad_since := seen\<rparr> else b1)
           in if lease_elapsed_sec (bad_since b2) now \<ge> lease_expiry_age po then
                (if bad_unreadable b2 then Inl (- EBUSY)
                 else Inr (None, [(bad_host_id b2, bad_raw b2)]))
              else Inr (Some b2, []))"

fun bad_round ::
    "lease_env \<Rightarrow> lease_mnt \<Rightarrow> timespec \<Rightarrow> bad_sector list \<Rightarrow> host_record \<Rightarrow> dead_set \<Rightarrow>
     (int + bad_sector list \<times> host_record \<times> dead_set) prog" where
  "bad_round env mnt now [] hr0 dead = Ret (Inr ([], hr0, dead))"
| "bad_round env mnt now (b # bs) hr0 dead =
     bindP (pfs_host_record_read env mnt (bad_host_id b) hr0) (\<lambda>(rv, hr).
       Clock LEASE_CLOCK (\<lambda>seen.
         if rv = 0 \<or> rv = PFS_OK then bad_round env mnt now bs hr dead
         else
           (case bad_step (env_opts env) now seen rv hr b of
              Inl e \<Rightarrow> Ret (Inl e)
            | Inr (keep, d) \<Rightarrow>
                bindP (bad_round env mnt now bs hr (dead @ d)) (\<lambda>r.
                  Ret (case r of
                         Inl e \<Rightarrow> Inl e
                       | Inr (bs', hr', dead') \<Rightarrow>
                           Inr ((case keep of None \<Rightarrow> bs' | Some b' \<Rightarrow> b' # bs'), hr', dead'))))))"

fun bad_loop ::
    "nat \<Rightarrow> lease_env \<Rightarrow> lease_mnt \<Rightarrow> bad_sector list \<Rightarrow> host_record \<Rightarrow> dead_set \<Rightarrow> (int \<times> dead_set) prog" where
  "bad_loop n env mnt [] hr0 dead = Ret (0, dead)"
| "bad_loop 0 env mnt (b # bs) hr0 dead = Out"
| "bad_loop (Suc n) env mnt (b # bs) hr0 dead =
     Sys Sleep1 (\<lambda>_. Clock LEASE_CLOCK (\<lambda>now.
       bindP (bad_round env mnt now (b # bs) hr0 dead) (\<lambda>r.
         case r of Inl e \<Rightarrow> Ret (e, dead) | Inr (bs', hr', dead') \<Rightarrow> bad_loop n env mnt bs' hr' dead')))"

definition pfs_rw_lease_wait_bad_sectors :: "nat \<Rightarrow> lease_env \<Rightarrow> lease_mnt \<Rightarrow> (int \<times> dead_set) prog" where
  "pfs_rw_lease_wait_bad_sectors n env mnt =
     bindP (bad_scan env mnt (host_slots mnt) zero_host_record) (\<lambda>(bad, hr).
       bad_loop n env mnt bad hr [])"

section \<open>The check before an acquisition\<close>

text \<open>The answer is the code and the blocker, 0 for none.\<close>

fun check_scan ::
    "lease_env \<Rightarrow> lease_mnt \<Rightarrow> dead_set \<Rightarrow> timespec \<Rightarrow> u32 list \<Rightarrow> u32 \<Rightarrow> u64 \<Rightarrow> host_record \<Rightarrow>
     (int \<times> u32) prog" where
  "check_scan env mnt dead now [] freshest_id freshest_ts hr0 =
     Ret (if freshest_id \<noteq> 0 then (- EBUSY, freshest_id) else (0, 0))"
| "check_scan env mnt dead now (i # is) freshest_id freshest_ts hr0 =
     bindP (pfs_host_record_read env mnt i hr0) (\<lambda>(rv, hr).
       if rv < 0 then
         (if host_record_corrupt rv \<and> lease_sector_dead dead i hr
          then check_scan env mnt dead now is freshest_id freshest_ts hr
          else Ret (- EBUSY, 0))
       else if rv = 0 then check_scan env mnt dead now is freshest_id freshest_ts hr
       else if \<not> hr_rw hr then check_scan env mnt dead now is freshest_id freshest_ts hr
       else if host_record_live (env_opts env) (hr_timestamp hr) now \<and>
               (hr_timestamp hr > freshest_ts \<or> freshest_id = 0)
         then check_scan env mnt dead now is (hr_host_id hr) (hr_timestamp hr) hr
       else check_scan env mnt dead now is freshest_id freshest_ts hr)"

definition pfs_rw_lease_check :: "lease_env \<Rightarrow> lease_mnt \<Rightarrow> dead_set \<Rightarrow> (int \<times> u32) prog" where
  "pfs_rw_lease_check env mnt dead =
     Clock CLOCK_REALTIME (\<lambda>now.
       check_scan env mnt dead now (host_slots mnt) 0 0 zero_host_record)"

text \<open>The polling loop of \<open>pfs_rw_lease_wait_and_check\<close>.\<close>

fun wait_loop :: "nat \<Rightarrow> lease_env \<Rightarrow> lease_mnt \<Rightarrow> dead_set \<Rightarrow> u32 \<Rightarrow> u64 \<Rightarrow> host_record \<Rightarrow> int prog" where
  "wait_loop 0 env mnt dead blocker_id initial_ts hr0 = Out"
| "wait_loop (Suc n) env mnt dead blocker_id initial_ts hr0 =
     Sys Sleep1 (\<lambda>_. Clock CLOCK_REALTIME (\<lambda>now.
       bindP (pfs_host_record_read env mnt blocker_id hr0) (\<lambda>(rv, hr).
         if rv = 0 \<or> rv < 0 then bindP (pfs_rw_lease_check env mnt dead) (\<lambda>r. Ret (fst r))
         else if hr_timestamp hr \<noteq> initial_ts then Ret (- EBUSY)
         else if \<not> host_record_live (env_opts env) initial_ts now
           then bindP (pfs_rw_lease_check env mnt dead) (\<lambda>r. Ret (fst r))
         else wait_loop n env mnt dead blocker_id initial_ts hr)))"

definition pfs_rw_lease_wait_and_check ::
    "nat \<Rightarrow> lease_env \<Rightarrow> lease_mnt \<Rightarrow> u32 \<Rightarrow> dead_set \<Rightarrow> int prog" where
  "pfs_rw_lease_wait_and_check n env mnt blocker_id dead =
     bindP (pfs_host_record_read env mnt blocker_id zero_host_record) (\<lambda>(rv, hr).
       if rv \<noteq> PFS_OK \<or> \<not> hr_rw hr
       then bindP (pfs_rw_lease_check env mnt dead) (\<lambda>r. Ret (fst r))
       else wait_loop n env mnt dead blocker_id (hr_timestamp hr) hr)"

section \<open>The two phases\<close>

text \<open>
  \<open>pfs_rw_lease_prepare\<close>, \<open>pfs_rw_lease_acquire\<close> and \<open>pfs_rw_lease_renew\<close> share their
  tail: read the lease clock, read the real-time clock, write the record, and on success
  remember when the write was issued.
\<close>

definition lease_write ::
    "lease_env \<Rightarrow> lease_mnt \<Rightarrow> u32 \<Rightarrow> u64 \<Rightarrow> u64 \<Rightarrow> (int \<times> lease_mnt) prog" where
  "lease_write env mnt flags mbal bal =
     Clock LEASE_CLOCK (\<lambda>issue. Clock CLOCK_REALTIME (\<lambda>now.
       bindP (pfs_host_record_write mnt
           (make_host_record (env_crc env) flags (mnt_host_id mnt) (ucast (mnt_host_generation mnt))
              (lease_timestamp now) mbal bal)) (\<lambda>rv.
         Ret (rv, if rv = 0 then mnt\<lparr>mnt_lease_write_time := issue\<rparr> else mnt))))"

definition pfs_rw_lease_prepare :: "lease_env \<Rightarrow> lease_mnt \<Rightarrow> (int \<times> lease_mnt) prog" where
  "pfs_rw_lease_prepare env mnt =
     (let ballot = pfs_ballot_generate (mnt_host_generation mnt) (mnt_num_hosts mnt) (mnt_host_id mnt)
      in lease_write env (mnt\<lparr>mnt_current_ballot := ballot\<rparr>) PFS_HOST_FL_PREPARE ballot 0)"

fun verify_scan ::
    "lease_env \<Rightarrow> lease_mnt \<Rightarrow> dead_set \<Rightarrow> timespec \<Rightarrow> u32 list \<Rightarrow> host_record \<Rightarrow> int prog" where
  "verify_scan env mnt dead now [] hr0 = Ret 0"
| "verify_scan env mnt dead now (i # is) hr0 =
     bindP (pfs_host_record_read env mnt i hr0) (\<lambda>(rv, hr).
       if rv = 0 then verify_scan env mnt dead now is hr
       else if rv \<noteq> PFS_OK then
         (if host_record_corrupt rv \<and> lease_sector_dead dead i hr
          then verify_scan env mnt dead now is hr else Ret (- EBUSY))
       else if \<not> host_record_live (env_opts env) (hr_timestamp hr) now
         then verify_scan env mnt dead now is hr
       else if hr_rw hr then Ret (- EBUSY)
       else if hr_mbal hr > mnt_current_ballot mnt then Ret (- EBUSY)
       else if hr_mbal hr = mnt_current_ballot mnt then Ret (- EBUSY)
       else verify_scan env mnt dead now is hr)"

definition pfs_rw_lease_verify_prepare :: "lease_env \<Rightarrow> lease_mnt \<Rightarrow> dead_set \<Rightarrow> int prog" where
  "pfs_rw_lease_verify_prepare env mnt dead =
     Clock CLOCK_REALTIME (\<lambda>now. verify_scan env mnt dead now (host_slots mnt) zero_host_record)"

definition pfs_rw_lease_acquire :: "lease_env \<Rightarrow> lease_mnt \<Rightarrow> (int \<times> lease_mnt) prog" where
  "pfs_rw_lease_acquire env mnt =
     lease_write env mnt PFS_HOST_FL_RW (mnt_current_ballot mnt) (mnt_current_ballot mnt)"

fun conflict_scan ::
    "lease_env \<Rightarrow> lease_mnt \<Rightarrow> dead_set \<Rightarrow> timespec \<Rightarrow> u32 list \<Rightarrow> host_record \<Rightarrow> int prog" where
  "conflict_scan env mnt dead now [] hr0 = Ret 0"
| "conflict_scan env mnt dead now (i # is) hr0 =
     bindP (pfs_host_record_read env mnt i hr0) (\<lambda>(rv, hr).
       if rv = 0 then conflict_scan env mnt dead now is hr
       else if rv \<noteq> PFS_OK then
         (if host_record_corrupt rv \<and> lease_sector_dead dead i hr
          then conflict_scan env mnt dead now is hr else Ret (- EBUSY))
       else if \<not> hr_rw_or_prepare hr then conflict_scan env mnt dead now is hr
       else if \<not> host_record_live (env_opts env) (hr_timestamp hr) now
         then conflict_scan env mnt dead now is hr
       else if (if hr_rw hr then hr_bal hr else hr_mbal hr) > mnt_current_ballot mnt then Ret (- EBUSY)
       else conflict_scan env mnt dead now is hr)"

definition pfs_rw_lease_check_conflict :: "lease_env \<Rightarrow> lease_mnt \<Rightarrow> dead_set \<Rightarrow> int prog" where
  "pfs_rw_lease_check_conflict env mnt dead =
     Clock CLOCK_REALTIME (\<lambda>now. conflict_scan env mnt dead now (host_slots mnt) zero_host_record)"

text \<open>\<open>lease_write_expired\<close> on the lease clock.\<close>

definition lease_write_expired :: "lease_env \<Rightarrow> timespec \<Rightarrow> bool prog" where
  "lease_write_expired env issue =
     Clock LEASE_CLOCK (\<lambda>now.
       Ret (timespec_diff_ns now issue \<ge> paxos_lease_duration (env_opts env) * 1000000000))"

section \<open>Renewal, release, watchdog\<close>

text \<open>Records planted for another host by the test helpers.\<close>

definition pfs_rw_lease_write_foreign :: "lease_env \<Rightarrow> lease_mnt \<Rightarrow> u32 \<Rightarrow> int prog" where
  "pfs_rw_lease_write_foreign env mnt foreign_hostid =
     Clock CLOCK_REALTIME (\<lambda>now.
       let ballot = pfs_ballot_generate 1 (mnt_num_hosts mnt) foreign_hostid
       in pfs_host_record_write mnt
            (make_host_record (env_crc env) PFS_HOST_FL_RW foreign_hostid 1 (word_of_int (tv_sec now)) ballot ballot))"

definition pfs_rw_lease_write_foreign_prepare :: "lease_env \<Rightarrow> lease_mnt \<Rightarrow> u32 \<Rightarrow> u32 \<Rightarrow> int prog" where
  "pfs_rw_lease_write_foreign_prepare env mnt foreign_hostid generation =
     Clock CLOCK_REALTIME (\<lambda>now.
       pfs_host_record_write mnt
         (make_host_record (env_crc env) PFS_HOST_FL_PREPARE foreign_hostid generation (word_of_int (tv_sec now))
            (pfs_ballot_generate (ucast generation) (mnt_num_hosts mnt) foreign_hostid) 0))"

definition pfs_rw_lease_renew :: "lease_env \<Rightarrow> lease_mnt \<Rightarrow> (int \<times> lease_mnt) prog" where
  "pfs_rw_lease_renew env mnt =
     lease_write env mnt PFS_HOST_FL_RW (mnt_current_ballot mnt) (mnt_current_ballot mnt)"

definition pfs_rw_lease_release :: "lease_mnt \<Rightarrow> unit prog" where
  "pfs_rw_lease_release mnt = bindP (pfs_host_record_clear mnt (mnt_host_id mnt)) (\<lambda>_. Ret ())"

text \<open>The answer to \<open>TimerSet\<close> is 0 or the negated error number; a failure keeps the old
  deadline.\<close>

definition paxos_kill_timer_arm :: "lease_env \<Rightarrow> lease_mnt \<Rightarrow> (int \<times> lease_mnt) prog" where
  "paxos_kill_timer_arm env mnt =
     (let t = mnt_lease_write_time mnt;
          it = t\<lparr>tv_sec := tv_sec t + paxos_lease_duration (env_opts env)\<rparr>
      in Sys (TimerSet it) (\<lambda>err.
           Ret (if err < 0 then (err, mnt) else (0, mnt\<lparr>mnt_kill_timer := it\<rparr>))))"

definition paxos_watchdog_open :: "lease_env \<Rightarrow> lease_mnt \<Rightarrow> (int \<times> lease_mnt) prog" where
  "paxos_watchdog_open env mnt =
     Sys Sigaction (\<lambda>err.
       if err < 0 then Ret (err, mnt)
       else Sys TimerCreate (\<lambda>err.
         if err < 0 then Ret (err, mnt)
         else bindP (paxos_kill_timer_arm env mnt) (\<lambda>(err, mnt1).
           if err < 0 then Sys TimerDelete (\<lambda>_. Ret (err, mnt1))
           else
             let mnt2 = mnt1\<lparr>mnt_kill_timer_armed := True\<rparr>
             in if paxos_watchdog_enable (env_opts env) = 0 then Ret (0, mnt2)
                else Sys OpenWatchdog (\<lambda>fd. Ret (0, mnt2\<lparr>mnt_wdog_fd := fd\<rparr>)))))"

definition paxos_watchdog_pet :: "lease_env \<Rightarrow> lease_mnt \<Rightarrow> lease_mnt prog" where
  "paxos_watchdog_pet env mnt =
     bindP (if mnt_kill_timer_armed mnt then paxos_kill_timer_arm env mnt else Ret (0, mnt)) (\<lambda>(_, mnt1).
       if mnt_wdog_fd mnt1 \<ge> 0 then Sys WriteWatchdog (\<lambda>_. Ret mnt1) else Ret mnt1)"

definition paxos_watchdog_close :: "lease_mnt \<Rightarrow> lease_mnt prog" where
  "paxos_watchdog_close mnt =
     bindP (if mnt_kill_timer_armed mnt
            then Sys TimerDelete (\<lambda>_. Ret (mnt\<lparr>mnt_kill_timer_armed := False\<rparr>)) else Ret mnt) (\<lambda>mnt1.
       if mnt_wdog_fd mnt1 \<ge> 0
       then Sys WriteWatchdog (\<lambda>_. Sys CloseWatchdog (\<lambda>_. Ret (mnt1\<lparr>mnt_wdog_fd := - 1\<rparr>)))
       else Ret mnt1)"

section \<open>Loading and unloading the leader\<close>

abbreviation PFS_MAX_PATHLEN :: nat where "PFS_MAX_PATHLEN \<equiv> 4096"
abbreviation FLK_LEN :: int where "FLK_LEN \<equiv> 1024"

definition paxos_hostid_local_lock :: "string \<Rightarrow> int \<Rightarrow> int prog" where
  "paxos_hostid_local_lock pbdname hostid =
     (let path = ''/var/run/pfs/'' @ pbdname @ ''-paxos-hostid''
      in if length path \<ge> PFS_MAX_PATHLEN then Ret (- ENAMETOOLONG)
         else Sys (OpenLockFile path) (\<lambda>fd.
           if fd < 0 then Ret (- EACCES)
           else Sys (SetLock (hostid * FLK_LEN) (if hostid > 0 then FLK_LEN else 0)) (\<lambda>err.
             if err < 0 then Sys CloseLockFile (\<lambda>_. Ret (- EACCES)) else Ret fd)))"

text \<open>Give up after a phase: clear our sector and return the code.\<close>

definition lease_give_up :: "lease_mnt \<Rightarrow> int \<Rightarrow> (int \<times> lease_mnt) prog" where
  "lease_give_up mnt rv = bindP (pfs_host_record_clear mnt (mnt_host_id mnt)) (\<lambda>_. Ret (rv, mnt))"

text \<open>From the conflict check on.\<close>

definition lease_confirm :: "lease_env \<Rightarrow> lease_mnt \<Rightarrow> dead_set \<Rightarrow> (int \<times> lease_mnt) prog" where
  "lease_confirm env mnt dead =
     bindP (pfs_rw_lease_check_conflict env mnt dead) (\<lambda>rv.
       if rv = - EBUSY then lease_give_up mnt (- EBUSY)
       else bindP (lease_write_expired env (mnt_lease_write_time mnt)) (\<lambda>expired.
         if expired then lease_give_up mnt (- EBUSY)
         else bindP (paxos_watchdog_open env mnt) (\<lambda>(rv, mnt1).
           if rv < 0 then lease_give_up mnt1 (if rv = - EAGAIN then - ENOMEM else rv)
           else Ret (0, mnt1\<lparr>mnt_rw_lease_held := True\<rparr>))))"

text \<open>From the prepare phase on.\<close>

definition lease_two_phase :: "lease_env \<Rightarrow> lease_mnt \<Rightarrow> dead_set \<Rightarrow> (int \<times> lease_mnt) prog" where
  "lease_two_phase env mnt dead =
     bindP (pfs_rw_lease_prepare env mnt) (\<lambda>(rv, mnt1).
       if rv < 0 then lease_give_up mnt1 rv
       else bindP (pfs_rw_lease_verify_prepare env mnt1 dead) (\<lambda>rv.
         if rv < 0 then lease_give_up mnt1 rv
         else bindP (pfs_rw_lease_acquire env mnt1) (\<lambda>(rv, mnt2).
           if rv < 0 then Ret (rv, mnt2)
           else bindP (lease_write_expired env (mnt_lease_write_time mnt1)) (\<lambda>expired.
             if expired then lease_give_up mnt2 (- EBUSY)
             else lease_confirm env mnt2 dead))))"

text \<open>The writable branch of \<open>pfs_leader_load\<close>.\<close>

definition lease_obtain :: "nat \<Rightarrow> lease_env \<Rightarrow> lease_mnt \<Rightarrow> (int \<times> lease_mnt) prog" where
  "lease_obtain n env mnt =
     bindP (pfs_rw_lease_wait_bad_sectors n env mnt) (\<lambda>(rv, dead).
       bindP (if rv = 0 then pfs_rw_lease_check env mnt dead else Ret (rv, 0)) (\<lambda>(rv, blocker_id).
         bindP (if rv = - EBUSY \<and> blocker_id \<noteq> 0 then pfs_rw_lease_wait_and_check n env mnt blocker_id dead
                else Ret rv) (\<lambda>rv.
           if rv < 0 then Ret (rv, mnt)
           else bindP (pfs_host_record_read env mnt (mnt_host_id mnt) zero_host_record) (\<lambda>(rv, old_hr).
             lease_two_phase env
               (mnt\<lparr>mnt_host_generation := (if rv = PFS_OK then ucast (hr_generation old_hr) + 1 else 1)\<rparr>)
               dead))))"

text \<open>A tool or \<open>pfsd\<close> without a host id takes the last one.\<close>

definition load_host_id :: "lease_mnt \<Rightarrow> lease_mnt" where
  "load_host_id mnt =
     (if mnt_flags mnt AND (MNTFLG_TOOL OR MNTFLG_PFSD) \<noteq> 0 \<and> mnt_host_id mnt = 0
      then mnt\<lparr>mnt_host_id := mnt_num_hosts mnt\<rparr> else mnt)"

text \<open>\<open>pfs_leader_load\<close> from the local lock on, with the leader record it read.\<close>

definition leader_load_lease ::
    "nat \<Rightarrow> lease_env \<Rightarrow> leader_record \<Rightarrow> lease_mnt \<Rightarrow> (int \<times> lease_mnt) prog" where
  "leader_load_lease n env lr mnt =
     bindP (if \<not> pfs_ispfsd mnt \<and> pfs_writable mnt
            then paxos_hostid_local_lock (mnt_lockspace_name mnt) (sint (mnt_host_id mnt))
            else Ret (mnt_hostid_fd mnt)) (\<lambda>fd.
       if \<not> pfs_ispfsd mnt \<and> pfs_writable mnt \<and> fd < 0 then Ret (fd, mnt)
       else
         let mnt1 = mnt\<lparr>mnt_hostid_fd := fd\<rparr>
         in if pfs_writable mnt1
            then bindP (lease_obtain n env mnt1) (\<lambda>(rv, mnt2).
                   if rv < 0 then Ret (rv, mnt2)
                   else Ret (PFS_OK, mnt2\<lparr>mnt_log_leader := lr\<rparr>))
            else Ret (PFS_OK, mnt1\<lparr>mnt_host_generation := 0, mnt_log_leader := lr\<rparr>))"

definition pfs_leader_load :: "nat \<Rightarrow> lease_env \<Rightarrow> lease_mnt \<Rightarrow> (int \<times> lease_mnt) prog" where
  "pfs_leader_load n env mnt =
     Sys OpenPaxos (\<lambda>fd.
       if fd < 0 then Ret (fd, mnt)
       else
         let mnt0 = mnt\<lparr>mnt_paxos_file := True\<rparr>
         in bindP (read_leader env mnt0) (\<lambda>(rv, lr, checksum).
              if rv < 0 then Ret (rv, mnt0)
              else
                let v = verify_leader (mnt_sectsize mnt0) (mnt_host_id mnt0) lr checksum;
                    mnt1 = mnt0\<lparr>mnt_num_hosts := ucast (lr_num_hosts lr)\<rparr>
                in if v < 0 then Ret (v, mnt0)
                   else if mnt_host_id mnt1 > mnt_num_hosts mnt1 then Ret (- EINVAL, mnt1)
                   else assertP (mnt_host_id (load_host_id mnt1) > 0)
                          (leader_load_lease n env lr (load_host_id mnt1))))"

definition pfs_leader_unload :: "lease_mnt \<Rightarrow> lease_mnt prog" where
  "pfs_leader_unload mnt =
     bindP (if mnt_rw_lease_held mnt
            then bindP (paxos_watchdog_close mnt) (\<lambda>mnt1.
                   bindP (pfs_rw_lease_release mnt1) (\<lambda>_. Ret (mnt1\<lparr>mnt_rw_lease_held := False\<rparr>)))
            else Ret mnt) (\<lambda>mnt1.
       bindP (if mnt_hostid_fd mnt1 \<ge> 0
              then assertP (\<not> pfs_ispfsd mnt1) (Sys CloseLockFile (\<lambda>_. Ret (mnt1\<lparr>mnt_hostid_fd := - 1\<rparr>)))
              else Ret mnt1) (\<lambda>mnt2.
         if mnt_paxos_file mnt2 then Sys ClosePaxos (\<lambda>_. Ret (mnt2\<lparr>mnt_paxos_file := False\<rparr>)) else Ret mnt2))"

section \<open>The log thread's renewal step\<close>

text \<open>
  The start of each iteration of \<open>pfs_log_thread_entry\<close>: \<open>suspended\<close> is
  \<open>log_state == LOGST_SUSPENDED\<close>, \<open>last_renew\<close> the real-time clock of the last success,
  \<open>log_paxos_lease\<close> the interval. \<open>abort()\<close> once a failing renewal is as old as the lease.
\<close>

definition log_thread_renew ::
    "lease_env \<Rightarrow> int \<Rightarrow> bool \<Rightarrow> lease_mnt \<Rightarrow> timespec \<Rightarrow> (lease_mnt \<times> timespec) prog" where
  "log_thread_renew env log_paxos_lease suspended mnt last_renew =
     Clock CLOCK_REALTIME (\<lambda>ts.
       if \<not> suspended \<and> mnt_rw_lease_held mnt \<and> tv_sec ts - tv_sec last_renew \<ge> log_paxos_lease then
         bindP (pfs_rw_lease_renew env mnt) (\<lambda>(renew_rv, mnt1).
           if renew_rv = 0 then bindP (paxos_watchdog_pet env mnt1) (\<lambda>mnt2. Ret (mnt2, ts))
           else if tv_sec ts - tv_sec last_renew \<ge> paxos_lease_duration (env_opts env) then Abort
           else Ret (mnt1, last_renew))
       else Ret (mnt, last_renew))"

end
