(* ===== verification/Lease_Replay.thy ===== *)
theory Lease_Replay
  imports Lease
begin

text \<open>
  What a completed run of the lease programs tells about the interactions it had: lemmas that
  turn \<open>replay p es = Some (x, rest)\<close> into the shape of \<open>es\<close>, phase by phase, up to a
  successful \<open>pfs_leader_load\<close>. The predicate \<open>acquisition\<close> is that shape.
\<close>

section \<open>What a successful replay tells\<close>

lemma read_code_ok: "0 \<le> read_code mnt rv \<longleftrightarrow> rv = uint (mnt_sectsize mnt)"
  by (simp add: read_code_def)

lemma write_code_ok: "write_code mnt rv = 0 \<longleftrightarrow> rv = uint (mnt_sectsize mnt)"
  by (auto simp: write_code_def split: if_splits)

lemma write_code_0: "\<not> write_code mnt rv < 0 \<Longrightarrow> write_code mnt rv = 0 \<and> rv = uint (mnt_sectsize mnt)"
  by (auto simp: write_code_def split: if_splits)

lemma replay_host_record_read:
  assumes "replay (pfs_host_record_read env mnt i hr0) es = Some ((rv, hr), rest)"
  obtains x raw where "es = ERdHost i x raw # rest"
    "if x = uint (mnt_sectsize mnt) then rv = host_record_parse (env_crc env) raw \<and> hr = raw
     else rv < 0 \<and> (x < 0 \<longrightarrow> rv = x) \<and> (0 \<le> x \<longrightarrow> rv = - EIO)"
proof -
  from assms obtain x raw where "es = ERdHost i x raw # rest"
    "replay (if read_code mnt x < 0 then Ret (read_code mnt x, hr0)
       else Ret (host_record_parse (env_crc env) raw, raw)) rest = Some ((rv, hr), rest)"
    by (auto simp: pfs_host_record_read_def split: list.splits event.splits if_splits)
  then show thesis
    by (intro that) (auto simp: read_code_def split: if_splits)
qed

text \<open>The record \<open>lease_write\<close> writes.\<close>

abbreviation lease_rec :: "lease_env \<Rightarrow> lease_mnt \<Rightarrow> u32 \<Rightarrow> u64 \<Rightarrow> u64 \<Rightarrow> timespec \<Rightarrow> host_record" where
  "lease_rec env mnt fl mbal bal now \<equiv>
     make_host_record (env_crc env) fl (mnt_host_id mnt) (ucast (mnt_host_generation mnt))
       (lease_timestamp now) mbal bal"

lemma replay_lease_write:
  assumes "replay (lease_write env mnt fl mbal bal) es = Some ((rv, m'), rest)"
  obtains issue now x where
    "es = EClock LEASE_CLOCK issue # EClock CLOCK_REALTIME now #
       EWrHost (mnt_host_id mnt) (lease_rec env mnt fl mbal bal now) x # rest"
    "rv = write_code mnt x" "m' = (if rv = 0 then mnt\<lparr>mnt_lease_write_time := issue\<rparr> else mnt)"
  using assms
  by (auto simp: lease_write_def pfs_host_record_write_def assertP_def
      split: list.splits event.splits if_splits clockid.splits)

text \<open>Read errors are error numbers, never the codes of a corrupt record.\<close>

definition errnos :: "event list \<Rightarrow> bool" where
  "errnos es \<longleftrightarrow> (\<forall>e\<in>set es. case e of ERdHost i rv hr \<Rightarrow> - 200 < rv | _ \<Rightarrow> True)"

lemma errnos_simps [simp]:
  "errnos []" "errnos (es @ es') \<longleftrightarrow> errnos es \<and> errnos es'"
  "errnos (e # es) \<longleftrightarrow> (case e of ERdHost i rv hr \<Rightarrow> - 200 < rv | _ \<Rightarrow> True) \<and> errnos es"
  by (auto simp: errnos_def)

text \<open>What a scan that succeeded saw of each slot.\<close>

definition verify_ok :: "lease_env \<Rightarrow> u64 \<Rightarrow> timespec \<Rightarrow> host_record \<Rightarrow> bool" where
  "verify_ok env b now hr \<longleftrightarrow>
     (host_record_parse (env_crc env) hr = PFS_OK \<longrightarrow>
      host_record_live (env_opts env) (hr_timestamp hr) now \<longrightarrow> \<not> hr_rw hr \<and> hr_mbal hr < b)"

definition conflict_ok :: "lease_env \<Rightarrow> u64 \<Rightarrow> timespec \<Rightarrow> host_record \<Rightarrow> bool" where
  "conflict_ok env b now hr \<longleftrightarrow>
     (host_record_parse (env_crc env) hr = PFS_OK \<longrightarrow> hr_rw_or_prepare hr \<longrightarrow>
      host_record_live (env_opts env) (hr_timestamp hr) now \<longrightarrow>
      (if hr_rw hr then hr_bal hr else hr_mbal hr) \<le> b)"

definition saw :: "lease_mnt \<Rightarrow> (host_record \<Rightarrow> bool) \<Rightarrow> u32 list \<Rightarrow> event list \<Rightarrow> bool" where
  "saw mnt Q is es \<longleftrightarrow> (\<forall>i\<in>set is. \<exists>hr. ERdHost i (uint (mnt_sectsize mnt)) hr \<in> set es \<and> Q hr)"

lemma saw_consI:
  assumes "\<exists>pre. mid = pre @ rest \<and> quiet (\<lambda>_. False) pre \<and> saw mnt Q is pre" "Q hr"
  shows "\<exists>pre. ERdHost i (uint (mnt_sectsize mnt)) hr # mid = pre @ rest \<and> quiet (\<lambda>_. False) pre \<and>
    saw mnt Q (i # is) pre"
proof -
  from assms(1) obtain pre where "mid = pre @ rest" "quiet (\<lambda>_. False) pre" "saw mnt Q is pre" by blast
  with assms(2) show ?thesis
    by (intro exI [of _ "ERdHost i (uint (mnt_sectsize mnt)) hr # pre"]) (auto simp: saw_def)
qed

lemma verify_scan_ok:
  assumes "replay (verify_scan env mnt dead now is hr0) es = Some (rv, rest)" "0 \<le> rv" "errnos es"
  shows "\<exists>pre. es = pre @ rest \<and> quiet (\<lambda>_. False) pre \<and>
    saw mnt (verify_ok env (mnt_current_ballot mnt) now) is pre"
  using assms
proof (induction "is" arbitrary: es hr0)
  case Nil
  then show ?case by (auto simp: saw_def)
next
  case (Cons i "is")
  from Cons.prems(1) obtain c hr mid where
    r: "replay (pfs_host_record_read env mnt i hr0) es = Some ((c, hr), mid)" and
    k: "replay (if c = 0 then verify_scan env mnt dead now is hr
       else if c \<noteq> PFS_OK then
         (if host_record_corrupt c \<and> lease_sector_dead dead i hr
          then verify_scan env mnt dead now is hr else Ret (- EBUSY))
       else if \<not> host_record_live (env_opts env) (hr_timestamp hr) now
         then verify_scan env mnt dead now is hr
       else if hr_rw hr then Ret (- EBUSY)
       else if hr_mbal hr > mnt_current_ballot mnt then Ret (- EBUSY)
       else if hr_mbal hr = mnt_current_ballot mnt then Ret (- EBUSY)
       else verify_scan env mnt dead now is hr) mid = Some (rv, rest)"
    by (auto elim!: replay_bindP_SomeE)
  from replay_host_record_read [OF r] obtain x raw where es: "es = ERdHost i x raw # mid" and
    x: "if x = uint (mnt_sectsize mnt) then c = host_record_parse (env_crc env) raw \<and> hr = raw
     else c < 0 \<and> (x < 0 \<longrightarrow> c = x) \<and> (0 \<le> x \<longrightarrow> c = - EIO)" by blast
  have "x = uint (mnt_sectsize mnt)"
    using x k Cons.prems(2,3) es by (auto simp: host_record_corrupt_def split: if_splits)
  moreover have "replay (verify_scan env mnt dead now is hr) mid = Some (rv, rest)"
    using k Cons.prems(2) by (auto split: if_splits)
  moreover have "verify_ok env (mnt_current_ballot mnt) now raw"
    using k Cons.prems(2) x calculation(1) by (auto simp: verify_ok_def split: if_splits)
  ultimately show ?case
    using Cons.IH [of hr mid] Cons.prems(2,3) unfolding es by (auto intro!: saw_consI)
qed

lemma conflict_scan_ok:
  assumes "replay (conflict_scan env mnt dead now is hr0) es = Some (rv, rest)" "rv \<noteq> - EBUSY" "errnos es"
  shows "\<exists>pre. es = pre @ rest \<and> quiet (\<lambda>_. False) pre \<and>
    saw mnt (conflict_ok env (mnt_current_ballot mnt) now) is pre"
  using assms
proof (induction "is" arbitrary: es hr0)
  case Nil
  then show ?case by (auto simp: saw_def)
next
  case (Cons i "is")
  from Cons.prems(1) obtain c hr mid where
    r: "replay (pfs_host_record_read env mnt i hr0) es = Some ((c, hr), mid)" and
    k: "replay (if c = 0 then conflict_scan env mnt dead now is hr
       else if c \<noteq> PFS_OK then
         (if host_record_corrupt c \<and> lease_sector_dead dead i hr
          then conflict_scan env mnt dead now is hr else Ret (- EBUSY))
       else if \<not> hr_rw_or_prepare hr then conflict_scan env mnt dead now is hr
       else if \<not> host_record_live (env_opts env) (hr_timestamp hr) now
         then conflict_scan env mnt dead now is hr
       else if (if hr_rw hr then hr_bal hr else hr_mbal hr) > mnt_current_ballot mnt then Ret (- EBUSY)
       else conflict_scan env mnt dead now is hr) mid = Some (rv, rest)"
    by (auto elim!: replay_bindP_SomeE)
  from replay_host_record_read [OF r] obtain x raw where es: "es = ERdHost i x raw # mid" and
    x: "if x = uint (mnt_sectsize mnt) then c = host_record_parse (env_crc env) raw \<and> hr = raw
     else c < 0 \<and> (x < 0 \<longrightarrow> c = x) \<and> (0 \<le> x \<longrightarrow> c = - EIO)" by blast
  have "x = uint (mnt_sectsize mnt)"
    using x k Cons.prems(2,3) es by (auto simp: host_record_corrupt_def split: if_splits)
  moreover have "replay (conflict_scan env mnt dead now is hr) mid = Some (rv, rest)"
    using k Cons.prems(2) by (auto split: if_splits)
  moreover have "conflict_ok env (mnt_current_ballot mnt) now raw"
    using k Cons.prems(2) x calculation(1) by (auto simp: conflict_ok_def not_less split: if_splits)
  ultimately show ?case
    using Cons.IH [of hr mid] Cons.prems(2,3) unfolding es by (auto intro!: saw_consI)
qed

definition same_host :: "lease_mnt \<Rightarrow> lease_mnt \<Rightarrow> bool" where
  "same_host m m' \<longleftrightarrow> mnt_host_id m' = mnt_host_id m \<and> mnt_num_hosts m' = mnt_num_hosts m \<and>
     mnt_sectsize m' = mnt_sectsize m \<and> mnt_current_ballot m' = mnt_current_ballot m \<and>
     mnt_host_generation m' = mnt_host_generation m"

text \<open>The deadline the kill timer is given for a lease write.\<close>

definition kill_deadline :: "lease_env \<Rightarrow> lease_mnt \<Rightarrow> timespec" where
  "kill_deadline env mnt = (mnt_lease_write_time mnt)\<lparr>
     tv_sec := tv_sec (mnt_lease_write_time mnt) + paxos_lease_duration (env_opts env)\<rparr>"

lemma kill_deadline_ns:
  "timespec_ns (kill_deadline env mnt) =
     timespec_ns (mnt_lease_write_time mnt) + paxos_lease_duration (env_opts env) * 1000000000"
  by (simp add: kill_deadline_def timespec_ns_def algebra_simps)

lemma timespec_diff_ns_eq: "timespec_diff_ns a b = timespec_ns a - timespec_ns b"
  by (simp add: timespec_diff_ns_def timespec_ns_def algebra_simps)

lemma replay_give_up: "replay (lease_give_up mnt e) es = Some ((rv, m'), rest) \<Longrightarrow> rv = e"
  by (auto simp: lease_give_up_def pfs_host_record_clear_def split: list.splits event.splits if_splits)

lemma replay_write_expired:
  assumes "replay (lease_write_expired env issue) es = Some (x, rest)"
  obtains now where "es = EClock LEASE_CLOCK now # rest"
    "x \<longleftrightarrow> timespec_ns now - timespec_ns issue \<ge> paxos_lease_duration (env_opts env) * 1000000000"
  using assms
  by (auto simp: lease_write_expired_def timespec_diff_ns_eq split: list.splits event.splits if_splits clockid.splits)

lemma replay_timer_arm:
  assumes "replay (paxos_kill_timer_arm env mnt) es = Some ((rv, m'), rest)"
  obtains x where "es = ESys (TimerSet (kill_deadline env mnt)) x # rest" "rv = (if x < 0 then x else 0)"
    "m' = (if x < 0 then mnt else mnt\<lparr>mnt_kill_timer := kill_deadline env mnt\<rparr>)"
  using assms
  by (auto simp: paxos_kill_timer_arm_def kill_deadline_def Let_def split: list.splits event.splits if_splits)

lemma replay_watchdog_open:
  assumes "replay (paxos_watchdog_open env mnt) es = Some ((rv, m'), rest)" "0 \<le> rv"
  obtains tail where "es = tail @ rest" "quiet (\<lambda>_. False) tail" "same_host mnt m'"
    "mnt_lease_write_time m' = mnt_lease_write_time mnt" "mnt_kill_timer m' = kill_deadline env mnt"
    "mnt_kill_timer_armed m'"
proof -
  from assms obtain a b mid m1 err where es: "es = ESys Sigaction a # ESys TimerCreate b # mid" and
    arm: "replay (bindP (paxos_kill_timer_arm env mnt) (\<lambda>(err, mnt1).
           if err < 0 then Sys TimerDelete (\<lambda>_. Ret (err, mnt1))
           else
             let mnt2 = mnt1\<lparr>mnt_kill_timer_armed := True\<rparr>
             in if paxos_watchdog_enable (env_opts env) = 0 then Ret (0, mnt2)
                else Sys OpenWatchdog (\<lambda>fd. Ret (0, mnt2\<lparr>mnt_wdog_fd := fd\<rparr>)))) mid = Some ((rv, m'), rest)"
    by (auto simp: paxos_watchdog_open_def split: list.splits event.splits if_splits)
  from replay_bindP_SomeE [OF arm] obtain e1 m1 mid1 where
    r: "replay (paxos_kill_timer_arm env mnt) mid = Some ((e1, m1), mid1)" and
    k: "replay (if e1 < 0 then Sys TimerDelete (\<lambda>_. Ret (e1, m1))
           else
             let mnt2 = m1\<lparr>mnt_kill_timer_armed := True\<rparr>
             in if paxos_watchdog_enable (env_opts env) = 0 then Ret (0, mnt2)
                else Sys OpenWatchdog (\<lambda>fd. Ret (0, mnt2\<lparr>mnt_wdog_fd := fd\<rparr>))) mid1 = Some ((rv, m'), rest)"
    by (metis (no_types, lifting) case_prod_conv surj_pair)
  from replay_timer_arm [OF r] obtain x where mid: "mid = ESys (TimerSet (kill_deadline env mnt)) x # mid1"
    and x: "e1 = (if x < 0 then x else 0)" "m1 = (if x < 0 then mnt else mnt\<lparr>mnt_kill_timer := kill_deadline env mnt\<rparr>)"
    by blast
  have "\<not> e1 < 0"
    using k assms(2) by (auto split: list.splits event.splits if_splits)
  with k x obtain tl where "mid1 = tl @ rest" "quiet (\<lambda>_. False) tl" "same_host mnt m'"
    "mnt_lease_write_time m' = mnt_lease_write_time mnt" "mnt_kill_timer m' = kill_deadline env mnt" "mnt_kill_timer_armed m'"
    by (auto simp: Let_def same_host_def split: if_splits list.splits event.splits)
  then show thesis
    using that [of "ESys Sigaction a # ESys TimerCreate b # ESys (TimerSet (kill_deadline env mnt)) x # tl"] es mid
    by simp
qed

lemma replay_confirm:
  assumes "replay (lease_confirm env mnt dead) es = Some ((rv, m'), rest)" "0 \<le> rv" "errnos es"
  obtains nC scan x2 tail where "es = EClock CLOCK_REALTIME nC # scan @ EClock LEASE_CLOCK x2 # tail @ rest"
    "quiet (\<lambda>_. False) scan" "quiet (\<lambda>_. False) tail"
    "saw mnt (conflict_ok env (mnt_current_ballot mnt) nC) (host_slots mnt) scan"
    "same_host mnt m'" "mnt_lease_write_time m' = mnt_lease_write_time mnt"
    "mnt_kill_timer m' = kill_deadline env mnt" "mnt_kill_timer_armed m'"
proof -
  from assms(1) obtain r1 mid1 where
    1: "replay (pfs_rw_lease_check_conflict env mnt dead) es = Some (r1, mid1)" and
    k1: "replay (if r1 = - EBUSY then lease_give_up mnt (- EBUSY)
       else bindP (lease_write_expired env (mnt_lease_write_time mnt)) (\<lambda>expired.
         if expired then lease_give_up mnt (- EBUSY)
         else bindP (paxos_watchdog_open env mnt) (\<lambda>(rv, mnt1).
           if rv < 0 then lease_give_up mnt1 (if rv = - EAGAIN then - ENOMEM else rv)
           else Ret (0, mnt1\<lparr>mnt_rw_lease_held := True\<rparr>)))) mid1 = Some ((rv, m'), rest)"
    unfolding lease_confirm_def by (rule replay_bindP_SomeE)
  from k1 assms(2) have r1: "r1 \<noteq> - EBUSY"
    using replay_give_up [of mnt "- EBUSY" mid1 rv m' rest] by auto
  from 1 obtain nC es1 where es: "es = EClock CLOCK_REALTIME nC # es1" and
    sc: "replay (conflict_scan env mnt dead nC (host_slots mnt) zero_host_record) es1 = Some (r1, mid1)"
    by (auto simp: pfs_rw_lease_check_conflict_def split: list.splits event.splits if_splits)
  from conflict_scan_ok [OF sc r1] es assms(3) obtain scan where
    scan: "es1 = scan @ mid1" "quiet (\<lambda>_. False) scan"
      "saw mnt (conflict_ok env (mnt_current_ballot mnt) nC) (host_slots mnt) scan"
    by auto
  from k1 r1 obtain ex mid2 where
    2: "replay (lease_write_expired env (mnt_lease_write_time mnt)) mid1 = Some (ex, mid2)" and
    k2: "replay (if ex then lease_give_up mnt (- EBUSY)
         else bindP (paxos_watchdog_open env mnt) (\<lambda>(rv, mnt1).
           if rv < 0 then lease_give_up mnt1 (if rv = - EAGAIN then - ENOMEM else rv)
           else Ret (0, mnt1\<lparr>mnt_rw_lease_held := True\<rparr>))) mid2 = Some ((rv, m'), rest)"
    by (auto elim: replay_bindP_SomeE)
  from replay_write_expired [OF 2] obtain x2 where x2: "mid1 = EClock LEASE_CLOCK x2 # mid2" by blast
  have "\<not> ex"
    using k2 assms(2) by (auto dest!: replay_give_up)
  with k2 obtain r3 m3 mid3 where
    3: "replay (paxos_watchdog_open env mnt) mid2 = Some ((r3, m3), mid3)" and
    k3: "replay (if r3 < 0 then lease_give_up m3 (if r3 = - EAGAIN then - ENOMEM else r3)
           else Ret (0, m3\<lparr>mnt_rw_lease_held := True\<rparr>)) mid3 = Some ((rv, m'), rest)"
    by (auto elim!: replay_bindP_SomeE)
  have r3: "0 \<le> r3"
    using k3 assms(2) by (cases "r3 < 0") (auto dest!: replay_give_up split: if_splits)
  from replay_watchdog_open [OF 3 r3] obtain tail where
    tail: "mid2 = tail @ mid3" "quiet (\<lambda>_. False) tail" "same_host mnt m3"
      "mnt_lease_write_time m3 = mnt_lease_write_time mnt" "mnt_kill_timer m3 = kill_deadline env mnt" "mnt_kill_timer_armed m3"
    by blast
  have "rest = mid3" "m' = m3\<lparr>mnt_rw_lease_held := True\<rparr>"
    using k3 r3 by auto
  with tail es scan x2 show thesis
    by (intro that [of nC scan x2 tail]) (auto simp: same_host_def)
qed

text \<open>
  The shape of a successful acquisition from the prepare phase on: the prepare record, the
  verify scan, the RW record, the expiry check of the prepare record, the conflict scan, the
  expiry check of the RW record and the watchdog, with nothing else written. The first list
  ends with the RW record.
\<close>

definition acquisition :: "lease_env \<Rightarrow> lease_mnt \<Rightarrow> event list \<Rightarrow> event list \<Rightarrow> bool" where
  "acquisition env m es1 es2 \<longleftrightarrow>
     (\<exists>iP cP nV scanV iW cW x1 nC scanC tail.
        es1 = [EClock LEASE_CLOCK iP, EClock CLOCK_REALTIME cP,
              EWrHost (mnt_host_id m) (lease_rec env m PFS_HOST_FL_PREPARE (mnt_current_ballot m) 0 cP)
                (uint (mnt_sectsize m)), EClock CLOCK_REALTIME nV] @ scanV @
             [EClock LEASE_CLOCK iW, EClock CLOCK_REALTIME cW,
              EWrHost (mnt_host_id m)
                (lease_rec env m PFS_HOST_FL_RW (mnt_current_ballot m) (mnt_current_ballot m) cW)
                (uint (mnt_sectsize m))] \<and>
        es2 = [EClock LEASE_CLOCK x1, EClock CLOCK_REALTIME nC] @ scanC @ tail \<and>
        quiet (\<lambda>_. False) scanV \<and> quiet (\<lambda>_. False) scanC \<and> quiet (\<lambda>_. False) tail \<and>
        saw m (verify_ok env (mnt_current_ballot m) nV) (host_slots m) scanV \<and>
        saw m (conflict_ok env (mnt_current_ballot m) nC) (host_slots m) scanC \<and>
        timespec_ns x1 - timespec_ns iP < paxos_lease_duration (env_opts env) * 1000000000 \<and>
        mnt_lease_write_time m = iW \<and> mnt_kill_timer m = kill_deadline env m \<and> mnt_kill_timer_armed m)"

lemma saw_same_host: "same_host m m' \<Longrightarrow> saw m Q is es = saw m' Q is es"
  by (simp add: saw_def same_host_def)

lemma host_slots_same_host: "same_host m m' \<Longrightarrow> host_slots m' = host_slots m"
  by (simp add: host_slots_def same_host_def)

text \<open>The phases, one by one, when they do not fail.\<close>

lemma replay_prepare_ok:
  assumes "replay (pfs_rw_lease_prepare env mnt) es = Some ((rv, m1), rest)" "\<not> rv < 0"
  obtains iP cP where
    "m1 = mnt\<lparr>mnt_current_ballot := pfs_ballot_generate (mnt_host_generation mnt) (mnt_num_hosts mnt) (mnt_host_id mnt),
            mnt_lease_write_time := iP\<rparr>"
    "es = EClock LEASE_CLOCK iP # EClock CLOCK_REALTIME cP #
       EWrHost (mnt_host_id m1) (lease_rec env m1 PFS_HOST_FL_PREPARE (mnt_current_ballot m1) 0 cP)
         (uint (mnt_sectsize m1)) # rest"
proof -
  let ?m0 = "mnt\<lparr>mnt_current_ballot := pfs_ballot_generate (mnt_host_generation mnt) (mnt_num_hosts mnt) (mnt_host_id mnt)\<rparr>"
  have "replay (lease_write env ?m0 PFS_HOST_FL_PREPARE (mnt_current_ballot ?m0) 0) es = Some ((rv, m1), rest)"
    using assms(1) by (simp add: pfs_rw_lease_prepare_def Let_def)
  then show thesis
  proof (rule replay_lease_write)
    fix issue now x
    assume w: "es = EClock LEASE_CLOCK issue # EClock CLOCK_REALTIME now #
       EWrHost (mnt_host_id ?m0) (lease_rec env ?m0 PFS_HOST_FL_PREPARE (mnt_current_ballot ?m0) 0 now) x # rest"
      "rv = write_code ?m0 x" "m1 = (if rv = 0 then ?m0\<lparr>mnt_lease_write_time := issue\<rparr> else ?m0)"
    have "rv = 0" "x = uint (mnt_sectsize ?m0)"
      using write_code_0 [of ?m0 x] assms(2) w(2) by auto
    with w show thesis by (intro that [of issue now]) simp_all
  qed
qed

lemma replay_acquire_ok:
  assumes "replay (pfs_rw_lease_acquire env mnt) es = Some ((rv, m1), rest)" "\<not> rv < 0"
  obtains iW cW where "m1 = mnt\<lparr>mnt_lease_write_time := iW\<rparr>"
    "es = EClock LEASE_CLOCK iW # EClock CLOCK_REALTIME cW #
       EWrHost (mnt_host_id m1) (lease_rec env m1 PFS_HOST_FL_RW (mnt_current_ballot m1) (mnt_current_ballot m1) cW)
         (uint (mnt_sectsize m1)) # rest"
  using assms(1) unfolding pfs_rw_lease_acquire_def
proof (rule replay_lease_write)
  fix issue now x
  assume w: "es = EClock LEASE_CLOCK issue # EClock CLOCK_REALTIME now #
     EWrHost (mnt_host_id mnt) (lease_rec env mnt PFS_HOST_FL_RW (mnt_current_ballot mnt) (mnt_current_ballot mnt) now) x # rest"
    "rv = write_code mnt x" "m1 = (if rv = 0 then mnt\<lparr>mnt_lease_write_time := issue\<rparr> else mnt)"
  have "rv = 0" "x = uint (mnt_sectsize mnt)"
    using write_code_0 [of mnt x] assms(2) w(2) by auto
  with w show thesis by (intro that [of issue now]) simp_all
qed

lemma replay_verify_ok:
  assumes "replay (pfs_rw_lease_verify_prepare env mnt dead) es = Some (rv, rest)" "\<not> rv < 0" "errnos es"
  obtains nV scan where "es = EClock CLOCK_REALTIME nV # scan @ rest" "quiet (\<lambda>_. False) scan"
    "saw mnt (verify_ok env (mnt_current_ballot mnt) nV) (host_slots mnt) scan"
proof -
  from assms(1) obtain nV es2 where es: "es = EClock CLOCK_REALTIME nV # es2" and
    sc: "replay (verify_scan env mnt dead nV (host_slots mnt) zero_host_record) es2 = Some (rv, rest)"
    by (auto simp: pfs_rw_lease_verify_prepare_def split: list.splits event.splits if_splits)
  with verify_scan_ok [OF sc] assms(2,3) that show thesis by auto
qed

lemma replay_two_phase:
  assumes "replay (lease_two_phase env mnt dead) es = Some ((rv, m'), rest)" "0 \<le> rv" "errnos es"
  obtains pre1 pre2 where "es = pre1 @ pre2 @ rest" "acquisition env m' pre1 pre2"
    "mnt_host_id m' = mnt_host_id mnt" "mnt_num_hosts m' = mnt_num_hosts mnt"
proof -
  from assms(1) obtain r1 m1 mid1 where
    1: "replay (pfs_rw_lease_prepare env mnt) es = Some ((r1, m1), mid1)" and
    k1: "replay (if r1 < 0 then lease_give_up m1 r1
       else bindP (pfs_rw_lease_verify_prepare env m1 dead) (\<lambda>rv.
         if rv < 0 then lease_give_up m1 rv
         else bindP (pfs_rw_lease_acquire env m1) (\<lambda>(rv, mnt2).
           if rv < 0 then Ret (rv, mnt2)
           else bindP (lease_write_expired env (mnt_lease_write_time m1)) (\<lambda>expired.
             if expired then lease_give_up mnt2 (- EBUSY)
             else lease_confirm env mnt2 dead)))) mid1 = Some ((rv, m'), rest)"
    unfolding lease_two_phase_def by (auto elim!: replay_bindP_SomeE)
  have nr1: "\<not> r1 < 0" using k1 assms(2) by (auto dest!: replay_give_up)
  with k1 obtain r2 mid2 where
    2: "replay (pfs_rw_lease_verify_prepare env m1 dead) mid1 = Some (r2, mid2)" and
    k2: "replay (if r2 < 0 then lease_give_up m1 r2
         else bindP (pfs_rw_lease_acquire env m1) (\<lambda>(rv, mnt2).
           if rv < 0 then Ret (rv, mnt2)
           else bindP (lease_write_expired env (mnt_lease_write_time m1)) (\<lambda>expired.
             if expired then lease_give_up mnt2 (- EBUSY)
             else lease_confirm env mnt2 dead))) mid2 = Some ((rv, m'), rest)"
    by (auto elim!: replay_bindP_SomeE)
  have nr2: "\<not> r2 < 0" using k2 assms(2) by (auto dest!: replay_give_up)
  with k2 obtain r3 m3 mid3 where
    3: "replay (pfs_rw_lease_acquire env m1) mid2 = Some ((r3, m3), mid3)" and
    k3: "replay (if r3 < 0 then Ret (r3, m3)
           else bindP (lease_write_expired env (mnt_lease_write_time m1)) (\<lambda>expired.
             if expired then lease_give_up m3 (- EBUSY)
             else lease_confirm env m3 dead)) mid3 = Some ((rv, m'), rest)"
    by (auto elim!: replay_bindP_SomeE)
  have nr3: "\<not> r3 < 0" using k3 assms(2) by auto
  with k3 obtain ex mid4 where
    4: "replay (lease_write_expired env (mnt_lease_write_time m1)) mid3 = Some (ex, mid4)" and
    k4: "replay (if ex then lease_give_up m3 (- EBUSY) else lease_confirm env m3 dead) mid4 = Some ((rv, m'), rest)"
    by (auto elim!: replay_bindP_SomeE)
  have nex: "\<not> ex" using k4 assms(2) by (auto dest!: replay_give_up)
  from replay_prepare_ok [OF 1 nr1] obtain iP cP where P: "mnt_lease_write_time m1 = iP"
    "es = EClock LEASE_CLOCK iP # EClock CLOCK_REALTIME cP #
       EWrHost (mnt_host_id m1) (lease_rec env m1 PFS_HOST_FL_PREPARE (mnt_current_ballot m1) 0 cP)
         (uint (mnt_sectsize m1)) # mid1"
    "mnt_host_id m1 = mnt_host_id mnt" "mnt_num_hosts m1 = mnt_num_hosts mnt" by fastforce
  with assms(3) have "errnos mid1" by simp
  from replay_verify_ok [OF 2 nr2 this] obtain nV scanV where
    V: "mid1 = EClock CLOCK_REALTIME nV # scanV @ mid2" "quiet (\<lambda>_. False) scanV"
      "saw m1 (verify_ok env (mnt_current_ballot m1) nV) (host_slots m1) scanV" by blast
  from replay_acquire_ok [OF 3 nr3] obtain iW cW where A: "m3 = m1\<lparr>mnt_lease_write_time := iW\<rparr>"
    "mid2 = EClock LEASE_CLOCK iW # EClock CLOCK_REALTIME cW #
       EWrHost (mnt_host_id m3) (lease_rec env m3 PFS_HOST_FL_RW (mnt_current_ballot m3) (mnt_current_ballot m3) cW)
         (uint (mnt_sectsize m3)) # mid3" by blast
  obtain x1 where X: "mid3 = EClock LEASE_CLOCK x1 # mid4"
    "timespec_ns x1 - timespec_ns iP < paxos_lease_duration (env_opts env) * 1000000000"
    by (rule replay_write_expired [OF 4]) (use nex P(1) in auto)
  have e4: "errnos mid4" using assms(3) P(2) V(1) A(2) X(1) by simp
  have c: "replay (lease_confirm env m3 dead) mid4 = Some ((rv, m'), rest)" using k4 nex by simp
  obtain nC scanC x2 tail where
    C: "mid4 = EClock CLOCK_REALTIME nC # scanC @ EClock LEASE_CLOCK x2 # tail @ rest"
    "quiet (\<lambda>_. False) scanC" "quiet (\<lambda>_. False) tail"
    "saw m3 (conflict_ok env (mnt_current_ballot m3) nC) (host_slots m3) scanC"
    "same_host m3 m'" "mnt_lease_write_time m' = mnt_lease_write_time m3"
    "mnt_kill_timer m' = kill_deadline env m3" "mnt_kill_timer_armed m'"
    by (rule replay_confirm [OF c assms(2) e4])
  have sh: "same_host m1 m'" "same_host m3 m'" "kill_deadline env m3 = kill_deadline env m'"
    using C(5,6) A(1) by (auto simp: same_host_def kill_deadline_def)
  have f: "mnt_host_id m1 = mnt_host_id m'" "mnt_host_id m3 = mnt_host_id m'"
    "mnt_sectsize m1 = mnt_sectsize m'" "mnt_sectsize m3 = mnt_sectsize m'"
    "mnt_current_ballot m1 = mnt_current_ballot m'" "mnt_current_ballot m3 = mnt_current_ballot m'"
    "mnt_host_generation m1 = mnt_host_generation m'" "mnt_host_generation m3 = mnt_host_generation m'"
    using sh by (simp_all add: same_host_def)
  have s: "saw m' (verify_ok env (mnt_current_ballot m') nV) (host_slots m') scanV"
    "saw m' (conflict_ok env (mnt_current_ballot m') nC) (host_slots m') scanC"
    using V(3) C(4) unfolding f saw_same_host [OF sh(1)] saw_same_host [OF sh(2)]
      host_slots_same_host [OF sh(1), symmetric] host_slots_same_host [OF sh(2), symmetric] by simp_all
  have w: "mnt_lease_write_time m' = iW" "mnt_kill_timer m' = kill_deadline env m'"
    using C(6,7) A(1) sh(3) by simp_all
  let ?pre1 = "EClock LEASE_CLOCK iP # EClock CLOCK_REALTIME cP #
       EWrHost (mnt_host_id m1) (lease_rec env m1 PFS_HOST_FL_PREPARE (mnt_current_ballot m1) 0 cP)
         (uint (mnt_sectsize m1)) # EClock CLOCK_REALTIME nV #
       scanV @ EClock LEASE_CLOCK iW # EClock CLOCK_REALTIME cW #
       EWrHost (mnt_host_id m3) (lease_rec env m3 PFS_HOST_FL_RW (mnt_current_ballot m3) (mnt_current_ballot m3) cW)
         (uint (mnt_sectsize m3)) # []"
  let ?pre2 = "EClock LEASE_CLOCK x1 # EClock CLOCK_REALTIME nC # scanC @ EClock LEASE_CLOCK x2 # tail"
  have "acquisition env m' ?pre1 ?pre2"
    unfolding acquisition_def f
    by (rule exI [of _ iP], rule exI [of _ cP], rule exI [of _ nV], rule exI [of _ scanV], rule exI [of _ iW],
        rule exI [of _ cW], rule exI [of _ x1], rule exI [of _ nC], rule exI [of _ scanC],
        rule exI [of _ "EClock LEASE_CLOCK x2 # tail"])
      (simp_all add: V(2) C(2,3,8) s w X(2))
  then show thesis
    using P V(1) A(2) X(1) C(1) sh(1) by (intro that [of ?pre1 ?pre2]) (auto simp: same_host_def)
qed

text \<open>Nothing before the prepare phase writes a host sector.\<close>

lemma writes_only_host_record_read [simp]: "writes_only P (pfs_host_record_read env mnt i hr0)"
  by (simp add: pfs_host_record_read_def)

lemma replay_lease_obtain:
  assumes "replay (lease_obtain n env mnt) es = Some ((rv, m'), rest)" "0 \<le> rv" "errnos es"
  obtains e0 acq1 acq2 where "es = e0 @ acq1 @ acq2 @ rest" "acquisition env m' acq1 acq2"
    "mnt_host_id m' = mnt_host_id mnt" "mnt_num_hosts m' = mnt_num_hosts mnt"
proof -
  from assms(1) obtain r1 dead mid1 r2 bl mid2 r3 mid3 where
    1: "replay (pfs_rw_lease_wait_bad_sectors n env mnt) es = Some ((r1, dead), mid1)"
    "replay (if r1 = 0 then pfs_rw_lease_check env mnt dead else Ret (r1, 0)) mid1 = Some ((r2, bl), mid2)"
    "replay (if r2 = - EBUSY \<and> bl \<noteq> 0 then pfs_rw_lease_wait_and_check n env mnt bl dead else Ret r2) mid2 = Some (r3, mid3)"
    and k: "replay (if r3 < 0 then Ret (r3, mnt)
           else bindP (pfs_host_record_read env mnt (mnt_host_id mnt) zero_host_record) (\<lambda>(rv, old_hr).
             lease_two_phase env
               (mnt\<lparr>mnt_host_generation := (if rv = PFS_OK then ucast (hr_generation old_hr) + 1 else 1)\<rparr>)
               dead)) mid3 = Some ((rv, m'), rest)"
    unfolding lease_obtain_def by (auto elim!: replay_bindP_SomeE)
  from k assms(2) obtain r4 old mid4 where
    4: "replay (pfs_host_record_read env mnt (mnt_host_id mnt) zero_host_record) mid3 = Some ((r4, old), mid4)"
    "replay (lease_two_phase env
       (mnt\<lparr>mnt_host_generation := (if r4 = PFS_OK then ucast (hr_generation old) + 1 else 1)\<rparr>) dead) mid4 = Some ((rv, m'), rest)"
    by (auto elim!: replay_bindP_SomeE split: if_splits)
  obtain p1 p2 p3 p4 where "es = p1 @ mid1" "mid1 = p2 @ mid2" "mid2 = p3 @ mid3" "mid3 = p4 @ mid4"
    using replay_prefix [OF 1(1)] replay_prefix [OF 1(2)] replay_prefix [OF 1(3)] replay_prefix [OF 4(1)] by blast
  moreover from this assms(3) have "errnos mid4" by simp
  then obtain acq1 acq2 where "mid4 = acq1 @ acq2 @ rest" "acquisition env m' acq1 acq2"
    "mnt_host_id m' = mnt_host_id (mnt\<lparr>mnt_host_generation := (if r4 = PFS_OK then ucast (hr_generation old) + 1 else 1)\<rparr>)"
    "mnt_num_hosts m' = mnt_num_hosts (mnt\<lparr>mnt_host_generation := (if r4 = PFS_OK then ucast (hr_generation old) + 1 else 1)\<rparr>)"
    by (rule replay_two_phase [OF 4(2) assms(2)])
  ultimately show thesis by (intro that [of "p1 @ p2 @ p3 @ p4" acq1 acq2]) auto
qed

lemma acquisition_leader [simp]: "acquisition env (m\<lparr>mnt_log_leader := lr\<rparr>) es es' = acquisition env m es es'"
  by (simp add: acquisition_def saw_def host_slots_def kill_deadline_def)

text \<open>The writable branch of a successful load is a successful \<open>lease_obtain\<close>.\<close>

lemma replay_load_lease:
  assumes "replay (leader_load_lease n env lr mnt) es = Some ((PFS_OK, m), [])" "pfs_writable m"
  obtains e0 mnt1 mid m2 r where "es = e0 @ mid"
    "replay (lease_obtain n env mnt1) mid = Some ((r, m2), [])" "0 \<le> r" "m = m2\<lparr>mnt_log_leader := lr\<rparr>"
    "mnt_host_id mnt1 = mnt_host_id mnt" "mnt_num_hosts mnt1 = mnt_num_hosts mnt"
proof -
  from assms(1) obtain fd mid where mid: "replay (if \<not> pfs_ispfsd mnt \<and> pfs_writable mnt
            then paxos_hostid_local_lock (mnt_lockspace_name mnt) (sint (mnt_host_id mnt))
            else Ret (mnt_hostid_fd mnt)) es = Some (fd, mid)" and
    k1: "replay (if \<not> pfs_ispfsd mnt \<and> pfs_writable mnt \<and> fd < 0 then Ret (fd, mnt)
       else
         let mnt1 = mnt\<lparr>mnt_hostid_fd := fd\<rparr>
         in if pfs_writable mnt1
            then bindP (lease_obtain n env mnt1) (\<lambda>(rv, mnt2).
                   if rv < 0 then Ret (rv, mnt2)
                   else Ret (PFS_OK, mnt2\<lparr>mnt_log_leader := lr\<rparr>))
            else Ret (PFS_OK, mnt1\<lparr>mnt_host_generation := 0, mnt_log_leader := lr\<rparr>)) mid = Some ((PFS_OK, m), [])"
    unfolding leader_load_lease_def by (rule replay_bindP_SomeE)
  let ?mnt1 = "mnt\<lparr>mnt_hostid_fd := fd\<rparr>"
  have w: "pfs_writable ?mnt1"
    using k1 assms(2) by (auto simp: Let_def pfs_writable_def split: if_splits)
  with k1 obtain r m2 mid2 where
    o: "replay (lease_obtain n env ?mnt1) mid = Some ((r, m2), mid2)" and
    k2: "replay (if r < 0 then Ret (r, m2) else Ret (PFS_OK, m2\<lparr>mnt_log_leader := lr\<rparr>)) mid2 = Some ((PFS_OK, m), [])"
    by (auto simp: Let_def elim!: replay_bindP_SomeE split: if_splits)
  from k2 have "0 \<le> r" "m = m2\<lparr>mnt_log_leader := lr\<rparr>" "mid2 = []"
    by (auto split: if_splits)
  moreover obtain p where "es = p @ mid"
    using replay_prefix [OF mid] by blast
  ultimately show thesis
    using o by (intro that [of p mid ?mnt1 r m2]) auto
qed

lemma replay_load_obtain:
  assumes "replay (pfs_leader_load n env mnt) es = Some ((PFS_OK, m), [])"
  obtains fd x lr es1 mnt1 where "es = ESys OpenPaxos fd # ERdLeader x lr # es1"
    "replay (leader_load_lease n env lr mnt1) es1 = Some ((PFS_OK, m), [])"
    "0 < mnt_host_id mnt1" "mnt_host_id mnt1 \<le> mnt_num_hosts mnt1"
proof -
  define mnt1 where "mnt1 lr = mnt\<lparr>mnt_paxos_file := True, mnt_num_hosts := ucast (lr_num_hosts lr)\<rparr>"
    for lr :: leader_record
  from assms obtain fd x lr es1 where es: "es = ESys OpenPaxos fd # ERdLeader x lr # es1" and
    k: "\<not> mnt_num_hosts (mnt1 lr) < mnt_host_id (mnt1 lr)"
      "replay (assertP (mnt_host_id (load_host_id (mnt1 lr)) > 0)
         (leader_load_lease n env lr (load_host_id (mnt1 lr)))) es1 = Some ((PFS_OK, m), [])"
    unfolding pfs_leader_load_def read_leader_def Let_def
    by (auto simp: mnt1_def split: list.splits event.splits if_splits)
  then have "0 < mnt_host_id (load_host_id (mnt1 lr))"
    "mnt_host_id (load_host_id (mnt1 lr)) \<le> mnt_num_hosts (load_host_id (mnt1 lr))"
    "replay (leader_load_lease n env lr (load_host_id (mnt1 lr))) es1 = Some ((PFS_OK, m), [])"
    by (auto simp: assertP_def load_host_id_def not_less split: if_splits)
  with es show thesis by (intro that [of fd x lr es1 "load_host_id (mnt1 lr)"]) auto
qed

lemma replay_leader_load:
  assumes "replay (pfs_leader_load n env mnt) es = Some ((PFS_OK, m), [])" "errnos es" "pfs_writable m"
  obtains e0 acq1 acq2 where "es = e0 @ acq1 @ acq2" "acquisition env m acq1 acq2"
    "0 < mnt_host_id m" "mnt_host_id m \<le> mnt_num_hosts m"
proof -
  obtain fd x lr es1 mnt1 where 1: "es = ESys OpenPaxos fd # ERdLeader x lr # es1"
    "replay (leader_load_lease n env lr mnt1) es1 = Some ((PFS_OK, m), [])"
    "0 < mnt_host_id mnt1" "mnt_host_id mnt1 \<le> mnt_num_hosts mnt1"
    by (rule replay_load_obtain [OF assms(1)])
  obtain e0 mnt3 mid m4 r where o: "es1 = e0 @ mid"
    "replay (lease_obtain n env mnt3) mid = Some ((r, m4), [])" "0 \<le> r" "m = m4\<lparr>mnt_log_leader := lr\<rparr>"
    "mnt_host_id mnt3 = mnt_host_id mnt1" "mnt_num_hosts mnt3 = mnt_num_hosts mnt1"
    by (rule replay_load_lease [OF 1(2) assms(3)])
  with assms(2) 1(1) have "errnos mid" by simp
  with o obtain e1 acq1 acq2 where "mid = e1 @ acq1 @ acq2 @ []" "acquisition env m4 acq1 acq2"
    "mnt_host_id m4 = mnt_host_id mnt3" "mnt_num_hosts m4 = mnt_num_hosts mnt3"
    by (blast elim: replay_lease_obtain)
  with o(1,4-6) 1(1,3,4) show thesis
    by (intro that [of "ESys OpenPaxos fd # ERdLeader x lr # e0 @ e1" acq1 acq2]) auto
qed

end
