(* ===== verification/Lease_Exclusion.thy ===== *)
theory Lease_Exclusion
  imports Lease_Replay
begin

text \<open>
  The lease keeps two hosts from holding the device read-write at the same time. Hosts run
  the programs of \<open>Lease\<close> against one device; a global history interleaves their
  interactions in any order. The assumptions on the device and the clocks are those the
  comments of \<open>pfs_paxos.cc\<close> state: whole-sector reads and writes, real-time clocks that
  differ by at most \<open>paxos_clock_skew_max\<close>, a lease clock that runs at the rate of real
  time, and a kill timer that stops the process at its deadline.
\<close>

section \<open>Several hosts on one device\<close>

text \<open>
  A global history lists the interactions of all hosts in the order they took effect, each
  with its real time in nanoseconds and the host that made it.
\<close>

type_synonym gevent = "int \<times> u32 \<times> event"

abbreviation tm :: "gevent \<Rightarrow> int" where "tm g \<equiv> fst g"
abbreviation hst :: "gevent \<Rightarrow> u32" where "hst g \<equiv> fst (snd g)"
abbreviation ev :: "gevent \<Rightarrow> event" where "ev g \<equiv> snd (snd g)"

definition own :: "u32 \<Rightarrow> gevent list \<Rightarrow> gevent list" where
  "own h G = filter (\<lambda>g. hst g = h) G"

text \<open>
  What sector \<open>i\<close> may hold after some events: the record of the last write that returned
  the sector size \<open>ssz\<close>, or of a later write that failed, which may or may not have
  reached the device.
\<close>

fun sector_vals :: "int \<Rightarrow> u32 \<Rightarrow> host_record set \<Rightarrow> event list \<Rightarrow> host_record set" where
  "sector_vals ssz i S [] = S"
| "sector_vals ssz i S (EWrHost j hr rv # es) =
     sector_vals ssz i (if i = j then (if rv = ssz then {hr} else insert hr S) else S) es"
| "sector_vals ssz i S (_ # es) = sector_vals ssz i S es"

text \<open>
  What the system guarantees of one event. The lease clock of a host runs at the rate of real
  time from an offset of its own. Two readings of \<open>CLOCK_REALTIME\<close> on any hosts disagree on
  the time between them by at most \<open>paxos_clock_skew_max\<close>. A read that succeeds returns what
  the sector may hold; a read that fails returns an error number. A host writes only its own
  sector.
\<close>

definition event_ok ::
    "lease_env \<Rightarrow> int \<Rightarrow> (u32 \<Rightarrow> int) \<Rightarrow> (u32 \<Rightarrow> host_record) \<Rightarrow> gevent list \<Rightarrow> nat \<Rightarrow> bool" where
  "event_ok env ssz loff init G k =
     (case G ! k of (t, h, e) \<Rightarrow>
        (case e of
           EClock LEASE_CLOCK c \<Rightarrow> timespec_ns c = t + loff h
         | EClock CLOCK_REALTIME c \<Rightarrow>
             timespec_ok c \<and> \<bar>tv_sec c\<bar> < 2 ^ 62 \<and>
             (\<forall>g\<in>set G. case ev g of
                EClock CLOCK_REALTIME c' \<Rightarrow>
                  timespec_ns c - timespec_ns c' \<le>
                    t - tm g + paxos_clock_skew_max (env_opts env) * 1000000000
              | _ \<Rightarrow> True)
         | ERdHost i rv hr \<Rightarrow>
             - 200 < rv \<and> (rv = ssz \<longrightarrow> hr \<in> sector_vals ssz i {init i} (map ev (take k G)))
         | EWrHost i hr rv \<Rightarrow> i = h
         | _ \<Rightarrow> True))"

definition lease_world ::
    "lease_env \<Rightarrow> int \<Rightarrow> (u32 \<Rightarrow> int) \<Rightarrow> (u32 \<Rightarrow> host_record) \<Rightarrow> gevent list \<Rightarrow> bool" where
  "lease_world env ssz loff init G \<longleftrightarrow>
     sorted (map tm G) \<and> (\<forall>k\<in>{..<length G}. event_ok env ssz loff init G k)"

text \<open>
  The kernel's kill timer: every event of a host happens before the deadline the timer is set
  to at that moment, in readings of the lease clock.
\<close>

fun alive_run :: "int \<Rightarrow> int \<Rightarrow> gevent list \<Rightarrow> bool" where
  "alive_run off deadline [] = True"
| "alive_run off deadline (g # gs) =
     (tm g + off < deadline \<and>
      alive_run off
        (case ev g of ESys (TimerSet it) rv \<Rightarrow> if rv < 0 then deadline else timespec_ns it | _ \<Rightarrow> deadline) gs)"

fun other_event :: "event \<Rightarrow> bool" where
  "other_event (EWrHost i hr rv) = False"
| "other_event (ESys (TimerSet it) rv) = False"
| "other_event _ = True"

text \<open>
  A host holds the lease after events \<open>es\<close>: it loaded the leader successfully as a writer,
  and since then its log thread ran renewal steps, between which the host did anything but
  write its lease sector or reset its timer, all while alive.
\<close>

inductive lease_holds :: "lease_env \<Rightarrow> (u32 \<Rightarrow> int) \<Rightarrow> gevent list \<Rightarrow> lease_mnt \<Rightarrow> timespec \<Rightarrow> bool"
  for env loff where
  acquired: "replay (pfs_leader_load n env mnt) (map ev es) = Some ((PFS_OK, m), []) \<Longrightarrow> pfs_writable m \<Longrightarrow>
    lease_holds env loff es m last_renew"
| renewed: "lease_holds env loff es m last_renew \<Longrightarrow>
    replay (log_thread_renew env log_paxos_lease suspended m last_renew) (map ev es') = Some ((m', last_renew'), []) \<Longrightarrow>
    alive_run (loff (mnt_host_id m)) (timespec_ns (mnt_kill_timer m)) es' \<Longrightarrow>
    lease_holds env loff (es @ es') m' last_renew'"
| other: "lease_holds env loff es m last_renew \<Longrightarrow> list_all (other_event \<circ> ev) es' \<Longrightarrow>
    alive_run (loff (mnt_host_id m)) (timespec_ns (mnt_kill_timer m)) es' \<Longrightarrow>
    lease_holds env loff (es @ es') m last_renew"

text \<open>Host \<open>h\<close> holds the lease at time \<open>tau\<close>, after history \<open>G\<close>, and is still alive.\<close>

definition lease_holder ::
    "lease_env \<Rightarrow> int \<Rightarrow> (u32 \<Rightarrow> int) \<Rightarrow> gevent list \<Rightarrow> int \<Rightarrow> u32 \<Rightarrow> lease_mnt \<Rightarrow> bool" where
  "lease_holder env ssz loff G tau h m \<longleftrightarrow>
     (\<exists>pre es last_renew. own h G = pre @ es \<and> lease_holds env loff es m last_renew \<and> mnt_host_id m = h \<and>
        uint (mnt_sectsize m) = ssz \<and> tau + loff h < timespec_ns (mnt_kill_timer m))"

section \<open>Sectors\<close>

lemma sector_vals_append:
  "sector_vals ssz i S (es @ es') = sector_vals ssz i (sector_vals ssz i S es) es'"
  by (induction ssz i S es rule: sector_vals.induct) simp_all

lemma sector_vals_quiet: "quiet (\<lambda>_. False) es \<Longrightarrow> sector_vals ssz i S es = S"
  by (induction ssz i S es rule: sector_vals.induct) auto

lemma sector_vals_nonempty: "S \<noteq> {} \<Longrightarrow> sector_vals ssz i S es \<noteq> {}"
  by (induction ssz i S es rule: sector_vals.induct) auto

lemma sector_vals_own:
  assumes "\<forall>g\<in>set G. \<forall>i. writes_to i (ev g) \<longrightarrow> i = hst g"
  shows "sector_vals ssz h S (map ev G) = sector_vals ssz h S (map ev (own h G))"
  using assms
proof (induction G arbitrary: S)
  case (Cons g G)
  have "sector_vals ssz h S' (map ev G) = sector_vals ssz h S' (map ev (own h G))" for S'
    using Cons by simp
  moreover have "writes_to i (ev g) \<longrightarrow> i = hst g" for i
    using Cons.prems by simp
  ultimately show ?case
    by (cases "ev g") (auto simp: own_def)
qed (simp add: own_def)

lemma quiet_other: "list_all (other_event \<circ> ev) es \<Longrightarrow> quiet P (map ev es)"
  by (induction es) (auto elim!: other_event.elims)

section \<open>Order of a host's events\<close>

abbreviation cnt :: "u32 \<Rightarrow> gevent list \<Rightarrow> nat \<Rightarrow> nat" where
  "cnt h G k \<equiv> length (own h (take k G))"

lemma own_append [simp]: "own h (G @ G') = own h G @ own h G'"
  by (simp add: own_def)

lemma own_split: "own h G = own h (take k G) @ own h (drop k G)"
  by (metis append_take_drop_id own_append)

lemma own_take: "own h (take k G) = take (cnt h G k) (own h G)"
  by (subst own_split [of h G k]) simp

lemma cnt_mono: "k \<le> k' \<Longrightarrow> cnt h G k \<le> cnt h G k'"
  by (metis le_iff_add take_add own_append length_append le_add1)

lemma cnt_less: "cnt h G k < cnt h G k' \<Longrightarrow> k < k'"
  using cnt_mono [of k' k h G] by (meson leD leI)

lemma own_index:
  "j < length (own h G) \<Longrightarrow> \<exists>k<length G. cnt h G k = j \<and> G ! k = own h G ! j \<and> hst (G ! k) = h"
proof (induction G rule: rev_induct)
  case (snoc g G)
  show ?case
  proof (cases "j < length (own h G)")
    case True
    then obtain k where "k < length G" "cnt h G k = j" "G ! k = own h G ! j" "hst (G ! k) = h"
      using snoc.IH by blast
    with True show ?thesis
      by (intro exI [of _ k]) (simp add: nth_append)
  next
    case False
    with snoc.prems have "hst g = h" "j = length (own h G)"
      by (auto simp: own_def split: if_splits)
    then show ?thesis
      by (intro exI [of _ "length G"]) (simp add: own_def)
  qed
qed (simp add: own_def)

lemma cnt_Suc: "k < length G \<Longrightarrow> hst (G ! k) = h \<Longrightarrow> cnt h G (Suc k) = Suc (cnt h G k)"
  by (simp add: take_Suc_conv_app_nth own_def)

text \<open>Later events have later times.\<close>

lemma sorted_own: "sorted (map tm G) \<Longrightarrow> sorted (map tm (own h G))"
  by (induction G) (auto simp: own_def)

lemma tm_before:
  assumes "sorted (map tm G)" "k0 < k" "k \<le> length G" "x \<in> set (drop k G)"
  shows "tm (G ! k0) \<le> tm x"
proof -
  from assms(4) obtain j where "j < length (drop k G)" "x = drop k G ! j"
    by (metis in_set_conv_nth)
  then have "k + j < length G" "x = G ! (k + j)" by auto
  with assms show ?thesis
    using sorted_nth_mono [of "map tm G" k0 "k + j"] by simp
qed

section \<open>A holder's record stays live\<close>

abbreviation rw_rec :: "lease_env \<Rightarrow> lease_mnt \<Rightarrow> timespec \<Rightarrow> host_record" where
  "rw_rec env m c \<equiv> lease_rec env m PFS_HOST_FL_RW (mnt_current_ballot m) (mnt_current_ballot m) c"

abbreviation lease_ns :: "lease_env \<Rightarrow> int" where
  "lease_ns env \<equiv> paxos_lease_duration (env_opts env) * 1000000000"

text \<open>Renewal steps: nothing due, a failed write, or a write followed by petting the watchdog.\<close>

lemma replay_watchdog_pet:
  assumes "replay (paxos_watchdog_pet env mnt) es = Some (m', [])" "mnt_kill_timer_armed mnt"
  shows "quiet (\<lambda>_. False) es \<and> same_host mnt m' \<and> mnt_kill_timer_armed m' \<and> 
    (mnt_kill_timer m' = mnt_kill_timer mnt \<or>
     mnt_kill_timer m' = kill_deadline env mnt \<and> (\<exists>x es'. es = ESys (TimerSet (kill_deadline env mnt)) x # es'))"
proof -
  from assms obtain e1 m1 mid where
    r: "replay (paxos_kill_timer_arm env mnt) es = Some ((e1, m1), mid)" and
    k: "replay (if mnt_wdog_fd m1 \<ge> 0 then Sys WriteWatchdog (\<lambda>_. Ret m1) else Ret m1) mid = Some (m', [])"
    by (auto simp: paxos_watchdog_pet_def elim!: replay_bindP_SomeE)
  from k have "m' = m1" "quiet (\<lambda>_. False) mid"
    by (auto split: if_splits list.splits event.splits)
  moreover obtain x where "es = ESys (TimerSet (kill_deadline env mnt)) x # mid"
    "m1 = (if x < 0 then mnt else mnt\<lparr>mnt_kill_timer := kill_deadline env mnt\<rparr>)"
    by (rule replay_timer_arm [OF r])
  ultimately show ?thesis
    using assms(2) by (auto simp: same_host_def)
qed

lemma replay_log_thread_renew:
  assumes "replay (log_thread_renew env iv susp m lr) es = Some ((m', lr'), [])" "mnt_kill_timer_armed m"
  obtains (idle) ts where "es = [EClock CLOCK_REALTIME ts]" "m' = m"
  | (failed) ts i c x where "es = [EClock CLOCK_REALTIME ts, EClock LEASE_CLOCK i, EClock CLOCK_REALTIME c,
        EWrHost (mnt_host_id m) (rw_rec env m c) x]"
      "m' = m" "x \<noteq> uint (mnt_sectsize m)"
  | (written) ts i c pet where "es = [EClock CLOCK_REALTIME ts, EClock LEASE_CLOCK i, EClock CLOCK_REALTIME c,
        EWrHost (mnt_host_id m) (rw_rec env m c)
          (uint (mnt_sectsize m))] @ pet"
      "quiet (\<lambda>_. False) pet" "same_host m m'" "mnt_kill_timer_armed m'"
      "mnt_kill_timer m' = mnt_kill_timer m \<or>
       timespec_ns (mnt_kill_timer m') = timespec_ns i + lease_ns env \<and> (\<exists>it x es'. pet = ESys (TimerSet it) x # es')"
proof -
  from assms(1) obtain ts es1 where es: "es = EClock CLOCK_REALTIME ts # es1" and
    k: "replay (if \<not> susp \<and> mnt_rw_lease_held m \<and> tv_sec ts - tv_sec lr \<ge> iv then
         bindP (pfs_rw_lease_renew env m) (\<lambda>(renew_rv, mnt1).
           if renew_rv = 0 then bindP (paxos_watchdog_pet env mnt1) (\<lambda>mnt2. Ret (mnt2, ts))
           else if tv_sec ts - tv_sec lr \<ge> paxos_lease_duration (env_opts env) then Abort
           else Ret (mnt1, lr))
       else Ret (m, lr)) es1 = Some ((m', lr'), [])"
    by (auto simp: log_thread_renew_def split: list.splits event.splits clockid.splits if_splits)
  show thesis
  proof (cases "\<not> susp \<and> mnt_rw_lease_held m \<and> tv_sec ts - tv_sec lr \<ge> iv")
    case False
    with k es show thesis by (intro idle) auto
  next
    case True
    with k obtain rv m1 mid where
      w: "replay (lease_write env m PFS_HOST_FL_RW (mnt_current_ballot m) (mnt_current_ballot m)) es1 = Some ((rv, m1), mid)" and
      k1: "replay (if rv = 0 then bindP (paxos_watchdog_pet env m1) (\<lambda>mnt2. Ret (mnt2, ts))
           else if tv_sec ts - tv_sec lr \<ge> paxos_lease_duration (env_opts env) then Abort
           else Ret (m1, lr)) mid = Some ((m', lr'), [])"
      by (auto simp: pfs_rw_lease_renew_def elim!: replay_bindP_SomeE)
    from w obtain i c x where es1: "es1 = EClock LEASE_CLOCK i # EClock CLOCK_REALTIME c #
       EWrHost (mnt_host_id m) (rw_rec env m c) x # mid"
      and rv: "rv = write_code m x" and m1: "m1 = (if rv = 0 then m\<lparr>mnt_lease_write_time := i\<rparr> else m)"
      by (rule replay_lease_write)
    show thesis
    proof (cases "rv = 0")
      case False
      with k1 es es1 m1 rv write_code_ok [of m x] show thesis
        by (intro failed [of ts i c x]) (auto split: if_splits)
    next
      case 0: True
      with k1 obtain m2 where p: "replay (paxos_watchdog_pet env m1) mid = Some (m2, [])" "m' = m2"
        by (auto elim!: replay_bindP_SomeE)
      have "x = uint (mnt_sectsize m)" using 0 rv write_code_ok [of m x] by simp
      moreover have m1': "same_host m m1" "mnt_kill_timer m1 = mnt_kill_timer m" "mnt_kill_timer_armed m1"
        "timespec_ns (kill_deadline env m1) = timespec_ns i + lease_ns env"
        using 0 m1 assms(2) by (auto simp: same_host_def kill_deadline_ns)
      moreover note pet = replay_watchdog_pet [OF p(1) m1'(3)]
      have "same_host m m'" using pet m1'(1) p(2) by (simp add: same_host_def)
      ultimately show thesis
        using es es1 pet p(2) m1' by (intro written [of ts i c mid]) auto
    qed
  qed
qed

text \<open>
  What is known of the records other hosts may see after the RW record: each is an RW record
  of this acquisition, stamped with a real-time reading of this host, and a reader that looks
  before the host's next event does so less than the lease duration after that reading, or
  the present kill timer guarantees it.
\<close>

definition post_inv ::
    "lease_env \<Rightarrow> int \<Rightarrow> host_record \<Rightarrow> lease_mnt \<Rightarrow> gevent list \<Rightarrow> gevent list \<Rightarrow> bool" where
  "post_inv env off W m pre post \<longleftrightarrow>
     (\<forall>p q. post = p @ q \<longrightarrow>
        (\<forall>s\<in>sector_vals (uint (mnt_sectsize m)) (mnt_host_id m) {W} (map ev p).
           \<exists>c tc. s = rw_rec env m c \<and>
             (tc, mnt_host_id m, EClock CLOCK_REALTIME c) \<in> set (pre @ p) \<and>
             (q \<noteq> [] \<and> tm (hd q) < tc + lease_ns env \<or>
              timespec_ns (mnt_kill_timer m) \<le> tc + off + lease_ns env)))"

lemma post_inv_quiet:
  assumes inv: "post_inv env off W m pre post" and q: "quiet (\<lambda>_. False) (map ev es)"
  shows "post_inv env off W m pre (post @ es)"
  unfolding post_inv_def
proof (intro allI impI ballI)
  fix p q s
  assume pq: "post @ es = p @ q" and s: "s \<in> sector_vals (uint (mnt_sectsize m)) (mnt_host_id m) {W} (map ev p)"
  from pq consider us where "post = p @ us" "us @ es = q" | us where "post @ us = p" "es = us @ q"
    by (auto simp: append_eq_append_conv2)
  then show "\<exists>c tc. s = rw_rec env m c \<and>
      (tc, mnt_host_id m, EClock CLOCK_REALTIME c) \<in> set (pre @ p) \<and>
      (q \<noteq> [] \<and> tm (hd q) < tc + lease_ns env \<or> timespec_ns (mnt_kill_timer m) \<le> tc + off + lease_ns env)"
  proof cases
    case 1
    with inv s obtain c tc where "s = rw_rec env m c"
      "(tc, mnt_host_id m, EClock CLOCK_REALTIME c) \<in> set (pre @ p)"
      "us \<noteq> [] \<and> tm (hd us) < tc + lease_ns env \<or> timespec_ns (mnt_kill_timer m) \<le> tc + off + lease_ns env"
      unfolding post_inv_def by blast
    with 1 show ?thesis by (intro exI [of _ c] exI [of _ tc]) auto
  next
    case 2
    then have "s \<in> sector_vals (uint (mnt_sectsize m)) (mnt_host_id m) {W} (map ev post)"
      using s q by (auto simp: sector_vals_append sector_vals_quiet)
    with inv obtain c tc where "s = rw_rec env m c"
      "(tc, mnt_host_id m, EClock CLOCK_REALTIME c) \<in> set (pre @ post)"
      "timespec_ns (mnt_kill_timer m) \<le> tc + off + lease_ns env"
      unfolding post_inv_def by (metis append_Nil2)
    with 2 show ?thesis by (intro exI [of _ c] exI [of _ tc]) auto
  qed
qed

lemma post_inv_last:
  assumes "post_inv env off W m pre post"
  shows "\<forall>s\<in>sector_vals (uint (mnt_sectsize m)) (mnt_host_id m) {W} (map ev post).
    \<exists>c tc. s = rw_rec env m c \<and>
      (tc, mnt_host_id m, EClock CLOCK_REALTIME c) \<in> set (pre @ post) \<and>
      timespec_ns (mnt_kill_timer m) \<le> tc + off + lease_ns env"
  using assms unfolding post_inv_def by (metis append_Nil2)

text \<open>The kill timer is at most the lease duration ahead of anything that happens later.\<close>

lemma post_inv_deadline:
  assumes "post_inv env off W m pre post" "\<And>g. g \<in> set (pre @ post) \<Longrightarrow> tm g \<le> t"
  shows "timespec_ns (mnt_kill_timer m) \<le> t + off + lease_ns env"
proof -
  obtain s where "s \<in> sector_vals (uint (mnt_sectsize m)) (mnt_host_id m) {W} (map ev post)"
    using sector_vals_nonempty [of "{W}"] by blast
  with post_inv_last [OF assms(1)] obtain c tc where
    "(tc, mnt_host_id m, EClock CLOCK_REALTIME c) \<in> set (pre @ post)"
    "timespec_ns (mnt_kill_timer m) \<le> tc + off + lease_ns env" by blast
  with assms(2) [of "(tc, mnt_host_id m, EClock CLOCK_REALTIME c)"] show ?thesis by simp
qed

lemma post_inv_write:
  assumes inv: "post_inv env off W m pre post"
    and g: "ev g = EWrHost (mnt_host_id m) (rw_rec env m c) x"
    and c: "(tc, mnt_host_id m, EClock CLOCK_REALTIME c) \<in> set (pre @ post)"
    and d: "timespec_ns (mnt_kill_timer m) \<le> tc + off + lease_ns env"
  shows "post_inv env off W m pre (post @ [g])"
  unfolding post_inv_def
proof (intro allI impI ballI)
  fix p q s
  assume pq: "post @ [g] = p @ q" and s: "s \<in> sector_vals (uint (mnt_sectsize m)) (mnt_host_id m) {W} (map ev p)"
  let ?G = "\<lambda>s q p. \<exists>c tc. s = rw_rec env m c \<and>
      (tc, mnt_host_id m, EClock CLOCK_REALTIME c) \<in> set (pre @ p) \<and>
      (q \<noteq> [] \<and> tm (hd q) < tc + lease_ns env \<or> timespec_ns (mnt_kill_timer m) \<le> tc + off + lease_ns env)"
  from pq consider (a) "q = []" "p = post @ [g]" | (b) us where "post = p @ us" "us @ [g] = q"
    by (cases q rule: rev_cases) auto
  then show "?G s q p"
  proof cases
    case a
    then have "s = rw_rec env m c \<or>
        s \<in> sector_vals (uint (mnt_sectsize m)) (mnt_host_id m) {W} (map ev post)"
      using s g by (auto simp: sector_vals_append split: if_splits)
    then show ?thesis
    proof
      assume "s = rw_rec env m c"
      then show ?thesis using c d a by (intro exI [of _ c] exI [of _ tc]) auto
    next
      assume "s \<in> sector_vals (uint (mnt_sectsize m)) (mnt_host_id m) {W} (map ev post)"
      with post_inv_last [OF inv] obtain c' tc' where
        "s = rw_rec env m c'"
        "(tc', mnt_host_id m, EClock CLOCK_REALTIME c') \<in> set (pre @ post)"
        "timespec_ns (mnt_kill_timer m) \<le> tc' + off + lease_ns env" by blast
      then show ?thesis using a by (intro exI [of _ c'] exI [of _ tc']) auto
    qed
  next
    case b
    with inv s obtain c' tc' where "s = rw_rec env m c'"
      "(tc', mnt_host_id m, EClock CLOCK_REALTIME c') \<in> set (pre @ p)"
      "us \<noteq> [] \<and> tm (hd us) < tc' + lease_ns env \<or> timespec_ns (mnt_kill_timer m) \<le> tc' + off + lease_ns env"
      unfolding post_inv_def by blast
    with b show ?thesis by (intro exI [of _ c'] exI [of _ tc']) auto
  qed
qed

text \<open>Setting the timer while alive: what the old timer guaranteed has happened.\<close>

lemma post_inv_timer:
  assumes inv: "post_inv env off W m pre post" and sh: "same_host m m'"
    and T: "\<And>g. g \<in> set post \<Longrightarrow> tm g \<le> T" "T + off < timespec_ns (mnt_kill_timer m)"
    and new: "\<And>s c tc. s \<in> sector_vals (uint (mnt_sectsize m)) (mnt_host_id m) {W} (map ev post) \<Longrightarrow>
      s = rw_rec env m c0 \<and>
      (tc0, mnt_host_id m, EClock CLOCK_REALTIME c0) \<in> set (pre @ post) \<and>
      timespec_ns (mnt_kill_timer m') \<le> tc0 + off + lease_ns env"
  shows "post_inv env off W m' pre post"
  unfolding post_inv_def
proof (intro allI impI ballI)
  fix p q s
  assume pq: "post = p @ q" and "s \<in> sector_vals (uint (mnt_sectsize m')) (mnt_host_id m') {W} (map ev p)"
  then have s: "s \<in> sector_vals (uint (mnt_sectsize m)) (mnt_host_id m) {W} (map ev p)"
    using sh by (simp add: same_host_def)
  have f: "mnt_host_id m' = mnt_host_id m" "mnt_current_ballot m' = mnt_current_ballot m"
    "mnt_host_generation m' = mnt_host_generation m" using sh by (simp_all add: same_host_def)
  show "\<exists>c tc. s = rw_rec env m' c \<and>
      (tc, mnt_host_id m', EClock CLOCK_REALTIME c) \<in> set (pre @ p) \<and>
      (q \<noteq> [] \<and> tm (hd q) < tc + lease_ns env \<or> timespec_ns (mnt_kill_timer m') \<le> tc + off + lease_ns env)"
  proof (cases "q = []")
    case True
    with pq s new [of s] show ?thesis
      unfolding f by (intro exI [of _ c0] exI [of _ tc0]) auto
  next
    case False
    with inv pq s obtain c tc where "s = rw_rec env m c"
      "(tc, mnt_host_id m, EClock CLOCK_REALTIME c) \<in> set (pre @ p)"
      "tm (hd q) < tc + lease_ns env \<or> timespec_ns (mnt_kill_timer m) \<le> tc + off + lease_ns env"
      unfolding post_inv_def by blast
    moreover have "tm (hd q) \<le> T"
      using T(1) [of "hd q"] pq False by simp
    ultimately show ?thesis
      unfolding f using T(2) False by (intro exI [of _ c] exI [of _ tc]) auto
  qed
qed

lemma post_inv_same:
  assumes "same_host m m'" "mnt_kill_timer m' = mnt_kill_timer m"
  shows "post_inv env off W m' pre post = post_inv env off W m pre post"
  using assms by (simp add: post_inv_def same_host_def)

fun no_timer :: "event \<Rightarrow> bool" where
  "no_timer (ESys (TimerSet it) rv) = False"
| "no_timer _ = True"

lemma alive_run_append:
  "alive_run off d (xs @ ys) \<Longrightarrow> list_all (no_timer \<circ> ev) (butlast xs) \<Longrightarrow> xs \<noteq> [] \<Longrightarrow> tm (last xs) + off < d"
proof (induction xs arbitrary: d)
  case (Cons x xs)
  then show ?case
    by (cases "ev x") (auto split: sysreq.splits if_splits)
qed simp

text \<open>The lease clock of a host, as its events report it.\<close>

definition lease_clock_ok :: "int \<Rightarrow> gevent list \<Rightarrow> bool" where
  "lease_clock_ok off es \<longleftrightarrow>
     (\<forall>g\<in>set es. case ev g of EClock LEASE_CLOCK c \<Rightarrow> timespec_ns c = tm g + off | _ \<Rightarrow> True)"

lemma post_inv_renew:
  assumes inv: "post_inv env off W m pre post" and armed: "mnt_kill_timer_armed m"
    and r: "replay (log_thread_renew env iv susp m lr) (map ev es) = Some ((m', lr'), [])"
    and al: "alive_run off (timespec_ns (mnt_kill_timer m)) es"
    and h: "\<forall>g\<in>set es. hst g = mnt_host_id m" and srt: "sorted (map tm (pre @ post @ es))"
    and clk: "lease_clock_ok off es"
  shows "post_inv env off W m' pre (post @ es) \<and> same_host m m' \<and> mnt_kill_timer_armed m'"
proof (cases rule: replay_log_thread_renew [OF r armed, case_names idle failed written])
  case idle
  then show ?thesis
    using inv armed by (auto intro!: post_inv_quiet simp: same_host_def)
next
  case (failed ts i c x)
  then obtain g1 g2 g3 g4 where es: "es = [g1, g2, g3] @ [g4]" and
    e: "ev g1 = EClock CLOCK_REALTIME ts" "ev g2 = EClock LEASE_CLOCK i" "ev g3 = EClock CLOCK_REALTIME c"
      "ev g4 = EWrHost (mnt_host_id m) (rw_rec env m c) x"
    by (auto simp: map_eq_Cons_conv)
  have "post_inv env off W m pre (post @ [g1, g2, g3])"
    using inv e by (intro post_inv_quiet) auto
  moreover have "g3 = (tm g3, mnt_host_id m, EClock CLOCK_REALTIME c)"
    using h es e(3) by (cases g3) auto
  moreover have "tm g \<le> tm g3" if "g \<in> set (pre @ post)" for g
    using that srt es by (auto simp: sorted_append)
  then have "timespec_ns (mnt_kill_timer m) \<le> tm g3 + off + lease_ns env"
    by (rule post_inv_deadline [OF inv])
  ultimately have "post_inv env off W m pre ((post @ [g1, g2, g3]) @ [g4])"
    by (intro post_inv_write [where tc = "tm g3"]) (auto simp: e(4))
  then show ?thesis
    using failed armed es by (simp add: same_host_def)
next
  case (written ts i c pet)
  then obtain g1 g2 g3 g4 gp where es: "es = [g1, g2, g3, g4] @ gp" and
    e: "ev g1 = EClock CLOCK_REALTIME ts" "ev g2 = EClock LEASE_CLOCK i" "ev g3 = EClock CLOCK_REALTIME c"
      "ev g4 = EWrHost (mnt_host_id m) (rw_rec env m c) (uint (mnt_sectsize m))" and gp: "pet = map ev gp"
    by (auto simp: map_eq_append_conv map_eq_Cons_conv)
  let ?w = "(post @ [g1, g2, g3]) @ [g4]"
  have "post_inv env off W m pre (post @ [g1, g2, g3])"
    using inv e by (intro post_inv_quiet) auto
  moreover have g3: "g3 = (tm g3, mnt_host_id m, EClock CLOCK_REALTIME c)"
    using h es e(3) by (cases g3) auto
  moreover have "tm g \<le> tm g3" if "g \<in> set (pre @ post)" for g
    using that srt es by (auto simp: sorted_append)
  then have "timespec_ns (mnt_kill_timer m) \<le> tm g3 + off + lease_ns env"
    by (rule post_inv_deadline [OF inv])
  ultimately have W: "post_inv env off W m pre ?w"
    by (intro post_inv_write [where tc = "tm g3"]) (auto simp: e(4))
  have "post_inv env off W m' pre (post @ es)"
    using written(5)
  proof
    assume "mnt_kill_timer m' = mnt_kill_timer m"
    then show ?thesis
      using post_inv_quiet [OF W, of gp] written(2,3) es gp by (simp add: post_inv_same)
  next
    assume t: "timespec_ns (mnt_kill_timer m') = timespec_ns i + lease_ns env \<and> (\<exists>it x es'. pet = ESys (TimerSet it) x # es')"
    then obtain g5 gr it x where gr: "gp = g5 # gr" "ev g5 = ESys (TimerSet it) x"
      using gp by (auto simp: Cons_eq_map_conv)
    have 5: "post_inv env off W m pre (?w @ [g5])"
      using post_inv_quiet [OF W, of "[g5]"] gr(2) by simp
    have "post_inv env off W m' pre (?w @ [g5])"
    proof (rule post_inv_timer [OF 5 written(3), of "tm g5" c "tm g3"])
      show "tm g \<le> tm g5" if "g \<in> set (?w @ [g5])" for g
        using that srt es gr by (auto simp: sorted_append)
      show "tm g5 + off < timespec_ns (mnt_kill_timer m)"
        using alive_run_append [of off "timespec_ns (mnt_kill_timer m)" "[g1, g2, g3, g4, g5]" gr] al es e gr by simp
      have "timespec_ns i = tm g2 + off" "tm g2 \<le> tm g3"
        using clk es e(2) srt by (auto simp: lease_clock_ok_def sorted_append)
      then show "s = rw_rec env m c \<and> (tm g3, mnt_host_id m, EClock CLOCK_REALTIME c) \<in> set (pre @ ?w @ [g5]) \<and>
          timespec_ns (mnt_kill_timer m') \<le> tm g3 + off + lease_ns env"
        if "s \<in> sector_vals (uint (mnt_sectsize m)) (mnt_host_id m) {W} (map ev (?w @ [g5]))" for s
        using that g3 t e gr(2) by (auto simp: sector_vals_append)
    qed
    from post_inv_quiet [OF this, of gr] show ?thesis
      using written(2) gp gr es by simp
  qed
  then show ?thesis using written by simp
qed

text \<open>A successful acquisition at the level of the history.\<close>

lemma map_ev_Cons:
  "map ev gs = e # es \<Longrightarrow> \<forall>g\<in>set gs. hst g = h \<Longrightarrow>
     \<exists>t gs'. gs = (t, h, e) # gs' \<and> map ev gs' = es \<and> (\<forall>g\<in>set gs'. hst g = h)"
  by (cases gs) auto

lemma map_ev_append:
  "map ev gs = xs @ es \<Longrightarrow> \<forall>g\<in>set gs. hst g = h \<Longrightarrow>
     \<exists>gs1 gs2. gs = gs1 @ gs2 \<and> map ev gs1 = xs \<and> map ev gs2 = es \<and> (\<forall>g\<in>set gs2. hst g = h)"
  by (auto simp: map_eq_append_conv) blast

lemma acquisitionE:
  assumes "acquisition env m (map ev acq1) (map ev acq2)" "\<forall>g\<in>set (acq1 @ acq2). hst g = mnt_host_id m"
  obtains tiP iP tcP cP tP tnV nV sV tiW iW tcW cW tW tx1 x1 tnC nC sC tl where
    "acq1 = [(tiP, mnt_host_id m, EClock LEASE_CLOCK iP), (tcP, mnt_host_id m, EClock CLOCK_REALTIME cP),
       (tP, mnt_host_id m, EWrHost (mnt_host_id m)
          (lease_rec env m PFS_HOST_FL_PREPARE (mnt_current_ballot m) 0 cP) (uint (mnt_sectsize m))),
       (tnV, mnt_host_id m, EClock CLOCK_REALTIME nV)] @ sV @
      [(tiW, mnt_host_id m, EClock LEASE_CLOCK iW), (tcW, mnt_host_id m, EClock CLOCK_REALTIME cW),
       (tW, mnt_host_id m, EWrHost (mnt_host_id m) (rw_rec env m cW) (uint (mnt_sectsize m)))]"
    "acq2 = [(tx1, mnt_host_id m, EClock LEASE_CLOCK x1), (tnC, mnt_host_id m, EClock CLOCK_REALTIME nC)] @ sC @ tl"
    "quiet (\<lambda>_. False) (map ev sV)" "quiet (\<lambda>_. False) (map ev acq2)"
    "saw m (verify_ok env (mnt_current_ballot m) nV) (host_slots m) (map ev sV)"
    "saw m (conflict_ok env (mnt_current_ballot m) nC) (host_slots m) (map ev sC)"
    "timespec_ns x1 - timespec_ns iP < lease_ns env"
    "mnt_lease_write_time m = iW" "mnt_kill_timer m = kill_deadline env m" "mnt_kill_timer_armed m"
proof -
  from assms(1) obtain iP cP nV scanV iW cW x1 nC scanC tail where
    a: "map ev acq1 = [EClock LEASE_CLOCK iP, EClock CLOCK_REALTIME cP,
              EWrHost (mnt_host_id m) (lease_rec env m PFS_HOST_FL_PREPARE (mnt_current_ballot m) 0 cP)
                (uint (mnt_sectsize m)), EClock CLOCK_REALTIME nV] @ scanV @
             [EClock LEASE_CLOCK iW, EClock CLOCK_REALTIME cW,
              EWrHost (mnt_host_id m) (rw_rec env m cW) (uint (mnt_sectsize m))]"
      "map ev acq2 = [EClock LEASE_CLOCK x1, EClock CLOCK_REALTIME nC] @ scanC @ tail"
    and r: "quiet (\<lambda>_. False) scanV" "quiet (\<lambda>_. False) scanC" "quiet (\<lambda>_. False) tail"
        "saw m (verify_ok env (mnt_current_ballot m) nV) (host_slots m) scanV"
        "saw m (conflict_ok env (mnt_current_ballot m) nC) (host_slots m) scanC"
        "timespec_ns x1 - timespec_ns iP < lease_ns env"
        "mnt_lease_write_time m = iW" "mnt_kill_timer m = kill_deadline env m" "mnt_kill_timer_armed m"
    unfolding acquisition_def by blast
  from a(1) assms(2) obtain tiP tcP tP tnV sV tiW tcW tW where
    p: "acq1 = [(tiP, mnt_host_id m, EClock LEASE_CLOCK iP), (tcP, mnt_host_id m, EClock CLOCK_REALTIME cP),
       (tP, mnt_host_id m, EWrHost (mnt_host_id m)
          (lease_rec env m PFS_HOST_FL_PREPARE (mnt_current_ballot m) 0 cP) (uint (mnt_sectsize m))),
       (tnV, mnt_host_id m, EClock CLOCK_REALTIME nV)] @ sV @
      [(tiW, mnt_host_id m, EClock LEASE_CLOCK iW), (tcW, mnt_host_id m, EClock CLOCK_REALTIME cW),
       (tW, mnt_host_id m, EWrHost (mnt_host_id m) (rw_rec env m cW) (uint (mnt_sectsize m)))]"
    "scanV = map ev sV"
    by (auto simp del: map_map dest!: map_ev_Cons map_ev_append)
  from a(2) assms(2) obtain tx1 tnC sC tl where
    q: "acq2 = [(tx1, mnt_host_id m, EClock LEASE_CLOCK x1), (tnC, mnt_host_id m, EClock CLOCK_REALTIME nC)] @ sC @ tl"
    "scanC = map ev sC" "tail = map ev tl"
    by (auto simp del: map_map dest!: map_ev_Cons map_ev_append)
  show thesis
    by (rule that [OF p(1) q(1)]) (use r p(2) q in simp_all)
qed

lemma replay_pet_host_id:
  "replay (paxos_watchdog_pet env m) es = Some (m', rest) \<Longrightarrow> mnt_host_id m' = mnt_host_id m"
  by (auto simp: paxos_watchdog_pet_def paxos_kill_timer_arm_def Let_def elim!: replay_bindP_SomeE
      split: if_splits list.splits event.splits)

lemma replay_renew_host_id:
  assumes "replay (log_thread_renew env iv susp m lr) es = Some ((m', lr'), rest)"
  shows "mnt_host_id m' = mnt_host_id m"
proof -
  have "mnt_host_id m1 = mnt_host_id m"
    if "replay (pfs_rw_lease_renew env m) xs = Some ((rv, m1), ys)" for xs rv m1 ys
    using that unfolding pfs_rw_lease_renew_def by (rule replay_lease_write) auto
  with assms show ?thesis
    by (auto simp: log_thread_renew_def elim!: replay_bindP_SomeE dest!: replay_pet_host_id
        split: if_splits list.splits event.splits clockid.splits)
qed

lemma lease_holds_inv:
  assumes "lease_holds env loff es m lr" "\<forall>g\<in>set es. hst g = mnt_host_id m" "sorted (map tm es)"
    "lease_clock_ok (loff (mnt_host_id m)) es" "errnos (map ev es)"
  shows "\<exists>m0 e0 acq1 acq2 more cW. es = e0 @ acq1 @ acq2 @ more \<and>
    acquisition env m0 (map ev acq1) (map ev acq2) \<and> same_host m0 m \<and> mnt_kill_timer_armed m \<and>
    0 < mnt_host_id m \<and> mnt_host_id m \<le> mnt_num_hosts m \<and>
    ev (last acq1) = EWrHost (mnt_host_id m) (rw_rec env m cW) (uint (mnt_sectsize m)) \<and>
    post_inv env (loff (mnt_host_id m)) (rw_rec env m cW) m (e0 @ acq1) (acq2 @ more)"
  using assms
proof induction
  case (acquired n mnt es m lr)
  from replay_leader_load [OF acquired(1) acquired(6,2)] obtain e0 a1 a2 where
    "map ev es = e0 @ a1 @ a2" "acquisition env m a1 a2" and
    b: "0 < mnt_host_id m" "mnt_host_id m \<le> mnt_num_hosts m" by blast
  then obtain g0 acq1 acq2 where es: "es = g0 @ acq1 @ acq2" and acq: "acquisition env m (map ev acq1) (map ev acq2)"
    by (auto simp: map_eq_append_conv append_eq_map_conv) 
  have "\<forall>g\<in>set (acq1 @ acq2). hst g = mnt_host_id m" using acquired(3) es by simp
  from acquisitionE [OF acq this] obtain sV tiP iP tcP cP tP tnV nV tiW iW tcW cW tW where
    a1: "acq1 = [(tiP, mnt_host_id m, EClock LEASE_CLOCK iP), (tcP, mnt_host_id m, EClock CLOCK_REALTIME cP),
       (tP, mnt_host_id m, EWrHost (mnt_host_id m)
          (lease_rec env m PFS_HOST_FL_PREPARE (mnt_current_ballot m) 0 cP) (uint (mnt_sectsize m))),
       (tnV, mnt_host_id m, EClock CLOCK_REALTIME nV)] @ sV @
      [(tiW, mnt_host_id m, EClock LEASE_CLOCK iW), (tcW, mnt_host_id m, EClock CLOCK_REALTIME cW),
       (tW, mnt_host_id m, EWrHost (mnt_host_id m) (rw_rec env m cW) (uint (mnt_sectsize m)))]" and
    r: "quiet (\<lambda>_. False) (map ev acq2)" "mnt_lease_write_time m = iW" "mnt_kill_timer m = kill_deadline env m"
      "mnt_kill_timer_armed m"
    by metis
  have "timespec_ns iW = tiW + loff (mnt_host_id m)" "tiW \<le> tcW"
    using acquired(4,5) es a1 by (auto simp: lease_clock_ok_def sorted_append)
  then have d: "timespec_ns (mnt_kill_timer m) \<le> tcW + loff (mnt_host_id m) + lease_ns env"
    using r(2,3) by (simp add: kill_deadline_ns)
  have "post_inv env (loff (mnt_host_id m)) (rw_rec env m cW) m (g0 @ acq1) []"
    unfolding post_inv_def by (auto intro!: exI [of _ cW] exI [of _ tcW] d simp: a1)
  from post_inv_quiet [OF this r(1)] es acq a1 r(4) b show ?case
    by (intro exI [of _ m] exI [of _ g0] exI [of _ acq1] exI [of _ acq2] exI [of _ "[]"] exI [of _ cW])
      (simp add: same_host_def)
next
  case (renewed es m lr iv susp es' m' lr')
  have h: "mnt_host_id m' = mnt_host_id m"
    by (rule replay_renew_host_id [OF renewed(2)])
  from renewed h have "\<forall>g\<in>set es. hst g = mnt_host_id m" "sorted (map tm es)"
    "lease_clock_ok (loff (mnt_host_id m)) es" "errnos (map ev es)"
    by (auto simp: sorted_append lease_clock_ok_def)
  from renewed.IH [OF this] obtain m0 e0 acq1 acq2 more cW where
    i: "es = e0 @ acq1 @ acq2 @ more" "acquisition env m0 (map ev acq1) (map ev acq2)" "same_host m0 m"
      "mnt_kill_timer_armed m" "0 < mnt_host_id m \<and> mnt_host_id m \<le> mnt_num_hosts m" "ev (last acq1) = EWrHost (mnt_host_id m) (rw_rec env m cW) (uint (mnt_sectsize m))"
      "post_inv env (loff (mnt_host_id m)) (rw_rec env m cW) m (e0 @ acq1) (acq2 @ more)" by blast
  have "post_inv env (loff (mnt_host_id m)) (rw_rec env m cW) m' (e0 @ acq1) ((acq2 @ more) @ es') \<and>
      same_host m m' \<and> mnt_kill_timer_armed m'"
    using renewed(5,6,7) i(1) h
    by (intro post_inv_renew [OF i(7,4) renewed(2,3)]) (auto simp: lease_clock_ok_def)
  with i show ?case
    by (intro exI [of _ m0] exI [of _ e0] exI [of _ acq1] exI [of _ acq2] exI [of _ "more @ es'"] exI [of _ cW])
      (auto simp: same_host_def)
next
  case (other es m lr es')
  then have "\<forall>g\<in>set es. hst g = mnt_host_id m" "sorted (map tm es)"
    "lease_clock_ok (loff (mnt_host_id m)) es" "errnos (map ev es)"
    by (auto simp: sorted_append lease_clock_ok_def)
  from other.IH [OF this] obtain m0 e0 acq1 acq2 more cW where
    i: "es = e0 @ acq1 @ acq2 @ more" "acquisition env m0 (map ev acq1) (map ev acq2)" "same_host m0 m"
      "mnt_kill_timer_armed m" "0 < mnt_host_id m \<and> mnt_host_id m \<le> mnt_num_hosts m" "ev (last acq1) = EWrHost (mnt_host_id m) (rw_rec env m cW) (uint (mnt_sectsize m))"
      "post_inv env (loff (mnt_host_id m)) (rw_rec env m cW) m (e0 @ acq1) (acq2 @ more)" by blast
  from post_inv_quiet [OF i(7) quiet_other [OF other(2)]] i(1-6) show ?case
    by (intro exI [of _ m0] exI [of _ e0] exI [of _ acq1] exI [of _ acq2] exI [of _ "more @ es'"] exI [of _ cW]) simp
qed

section \<open>Mutual exclusion\<close>

text \<open>A record is live to any reader whose clock reading is less than the lease duration,
  in real time, after the reading the record is stamped with.\<close>

lemma live_in_time:
  assumes w: "lease_world env ssz loff init G"
    and c: "(tc, h, EClock CLOCK_REALTIME c) \<in> set G" and c': "(t', h', EClock CLOCK_REALTIME c') \<in> set G"
    and t: "t' < tc + lease_ns env"
  shows "host_record_live (env_opts env) (lease_timestamp c) c'"
proof -
  have ok: "\<exists>k<length G. G ! k = g \<and> event_ok env ssz loff init G k" if "g \<in> set G" for g
    using w that by (auto simp: lease_world_def in_set_conv_nth)
  from ok [OF c] have 1: "timespec_ok c" "\<bar>tv_sec c\<bar> < 2 ^ 62"
    by (auto simp: event_ok_def)
  from ok [OF c'] c have 2: "timespec_ok c'"
    "timespec_ns c' - timespec_ns c \<le> t' - tc + paxos_clock_skew_max (env_opts env) * 1000000000"
    by (auto simp: event_ok_def dest!: bspec [OF _ c])
  have "sint (lease_timestamp c) = tv_sec c"
    using 1(2) by (simp add: lease_timestamp_def signed_of_int signed_take_bit_int_eq_self)
  moreover have "(tv_sec c' - tv_sec c) * 1000000000 <
      (paxos_lease_duration (env_opts env) + paxos_clock_skew_max (env_opts env) + 1) * 1000000000"
    using 1(1) 2 t by (simp add: timespec_ok_def timespec_ns_def algebra_simps)
  ultimately show ?thesis
    by (simp add: host_record_live_def host_record_age_def lease_expiry_age_def)
qed

text \<open>
  What others see of host \<open>h\<close> from its prepare record (its event number \<open>p\<close>) on, with the
  RW record as event number \<open>w\<close>, and what \<open>h\<close> saw of them.
\<close>

definition view_out ::
    "lease_env \<Rightarrow> int \<Rightarrow> (u32 \<Rightarrow> host_record) \<Rightarrow> gevent list \<Rightarrow> u32 \<Rightarrow> u64 \<Rightarrow> nat \<Rightarrow> nat \<Rightarrow> bool" where
  "view_out env ssz init G h b p w \<longleftrightarrow>
     (\<forall>k\<le>length G. p < cnt h G k \<longrightarrow>
        (\<forall>s\<in>sector_vals ssz h {init h} (map ev (take k G)).
           host_record_parse (env_crc env) s = PFS_OK \<and> hr_rw_or_prepare s \<and>
           (if cnt h G k \<le> w then \<not> hr_rw s \<and> hr_mbal s = b else hr_rw s \<and> hr_bal s = b) \<and>
           (\<forall>k0<k. \<forall>t h' c. G ! k0 = (t, h', EClock CLOCK_REALTIME c) \<longrightarrow>
              host_record_live (env_opts env) (hr_timestamp s) c)))"

definition view_in ::
    "int \<Rightarrow> gevent list \<Rightarrow> u32 \<Rightarrow> u32 \<Rightarrow> (timespec \<Rightarrow> host_record \<Rightarrow> bool) \<Rightarrow> nat \<Rightarrow> bool" where
  "view_in ssz G h i Q p \<longleftrightarrow>
     (\<exists>k k0 t t0 hr c. k0 < k \<and> k < length G \<and> p < cnt h G k \<and> G ! k = (t, h, ERdHost i ssz hr) \<and>
        G ! k0 = (t0, h, EClock CLOCK_REALTIME c) \<and> Q c hr)"

lemma view_outD:
  assumes "view_out env ssz init G h b p w" "k \<le> length G" "p < cnt h G k"
    "s \<in> sector_vals ssz h {init h} (map ev (take k G))"
  shows "host_record_parse (env_crc env) s = PFS_OK" "hr_rw_or_prepare s"
    "if cnt h G k \<le> w then \<not> hr_rw s \<and> hr_mbal s = b else hr_rw s \<and> hr_bal s = b"
    "k0 < k \<Longrightarrow> G ! k0 = (t, h', EClock CLOCK_REALTIME c) \<Longrightarrow>
      host_record_live (env_opts env) (hr_timestamp s) c"
  using assms unfolding view_out_def by blast+

lemma view_half:
  assumes w: "lease_world env ssz loff init G"
    and A: "view_out env ssz init G hA bA pA wA" "view_in ssz G hA hB (conflict_ok env bA) wA"
    and B: "view_out env ssz init G hB bB pB wB"
    and k: "k0 < k" "k < length G" "pB < cnt hB G k" "pA < cnt hA G k"
      "G ! k = (t, hB, ERdHost hA ssz hr)" "G ! k0 = (t0, hB, EClock CLOCK_REALTIME c)" "verify_ok env bB c hr"
  shows False
proof -
  have rd: "hr' \<in> sector_vals ssz i {init i} (map ev (take k' G))"
    if "k' < length G" "G ! k' = (t', h', ERdHost i ssz hr')" for k' t' h' i hr'
    using w that by (auto simp: lease_world_def event_ok_def dest!: bspec [of _ _ k'])
  note a = view_outD [OF A(1) less_imp_le [OF k(2)] k(4) rd [OF k(2,5)]]
  have lt: "cnt hA G k \<le> wA" "bA < bB"
    using k(7) a(1,3) a(4) [OF k(1,6)] by (auto simp: verify_ok_def split: if_splits)
  from A(2) obtain l l0 u u0 hr' c' where l: "l0 < l" "l < length G" "wA < cnt hA G l"
    "G ! l = (u, hA, ERdHost hB ssz hr')" "G ! l0 = (u0, hA, EClock CLOCK_REALTIME c')" "conflict_ok env bA c' hr'"
    unfolding view_in_def by blast
  have "k < l" using lt(1) l(3) cnt_less [of hA k G l] by simp
  then have "pB < cnt hB G l" using k(3) cnt_mono [of k l hB G] by simp
  note b = view_outD [OF B less_imp_le [OF l(2)] this rd [OF l(2,4)]]
  show False
    using l(6) lt(2) b(1,2,3) b(4) [OF l(1,5)] by (auto simp: conflict_ok_def split: if_splits)
qed

lemma views_exclude:
  assumes w: "lease_world env ssz loff init G"
    and A: "view_out env ssz init G hA bA pA wA" "view_in ssz G hA hB (verify_ok env bA) pA"
      "view_in ssz G hA hB (conflict_ok env bA) wA"
    and B: "view_out env ssz init G hB bB pB wB" "view_in ssz G hB hA (verify_ok env bB) pB"
      "view_in ssz G hB hA (conflict_ok env bB) wB"
  shows False
proof -
  from B(2) obtain k k0 t t0 hr c where k: "k0 < k" "k < length G" "pB < cnt hB G k"
    "G ! k = (t, hB, ERdHost hA ssz hr)" "G ! k0 = (t0, hB, EClock CLOCK_REALTIME c)" "verify_ok env bB c hr"
    unfolding view_in_def by blast
  from A(2) obtain l l0 u u0 hr' c' where l: "l0 < l" "l < length G" "pA < cnt hA G l"
    "G ! l = (u, hA, ERdHost hB ssz hr')" "G ! l0 = (u0, hA, EClock CLOCK_REALTIME c')" "verify_ok env bA c' hr'"
    unfolding view_in_def by blast
  show False
  proof (cases "pA < cnt hA G k")
    case True
    then show False by (rule view_half [OF w A(1,3) B(1) k(1,2,3) _ k(4,5,6)])
  next
    case False
    with l(3) have "k < l" using cnt_less [of hA k G l] by simp
    then have "pB < cnt hB G l" using k(3) cnt_mono [of k l hB G] by simp
    then show False by (rule view_half [OF w B(1,3) A(1) l(1,2,3) _ l(4,5,6)])
  qed
qed

lemma lease_world_own:
  assumes "lease_world env ssz loff init G" "own h G = pre @ es"
  shows "\<forall>g\<in>set es. hst g = h" "sorted (map tm es)" "lease_clock_ok (loff h) es" "errnos (map ev es)"
    "\<forall>g\<in>set G. \<forall>i. writes_to i (ev g) \<longrightarrow> i = hst g" "set (own h G) \<subseteq> set G"
proof -
  have ok: "\<exists>k<length G. G ! k = g \<and> event_ok env ssz loff init G k" if "g \<in> set G" for g
    using assms(1) that by (auto simp: lease_world_def in_set_conv_nth)
  have sub: "set es \<subseteq> set (own h G)" using assms(2) by simp
  have own: "set (own h G) \<subseteq> set G" "\<And>g. g \<in> set (own h G) \<Longrightarrow> hst g = h"
    by (auto simp: own_def)
  show "\<forall>g\<in>set es. hst g = h" "set (own h G) \<subseteq> set G" using sub own by blast+
  show "sorted (map tm es)"
    using sorted_own [of G h] assms by (simp add: lease_world_def sorted_append)
  have "case ev g of EClock LEASE_CLOCK c \<Rightarrow> timespec_ns c = tm g + loff h | _ \<Rightarrow> True" if "g \<in> set es" for g
  proof -
    from that sub own have g: "g \<in> set G" "hst g = h" by blast+
    from ok [OF g(1)] g(2) show ?thesis
      by (cases g) (auto simp: event_ok_def split: event.splits clockid.splits)
  qed
  then show "lease_clock_ok (loff h) es" by (simp add: lease_clock_ok_def)
  have "case ev g of ERdHost i rv hr \<Rightarrow> - 200 < rv | _ \<Rightarrow> True" if "g \<in> set es" for g
  proof -
    from that sub own have g: "g \<in> set G" by auto
    from ok [OF g] show ?thesis
      by (cases g) (auto simp: event_ok_def split: event.splits clockid.splits)
  qed
  then show "errnos (map ev es)" by (simp add: errnos_def)
  show "\<forall>g\<in>set G. \<forall>i. writes_to i (ev g) \<longrightarrow> i = hst g"
  proof (intro ballI allI impI)
    fix g i assume "g \<in> set G" "writes_to i (ev g)"
    with ok [of g] show "i = hst g"
      by (cases g) (auto simp: event_ok_def elim!: writes_to.elims)
  qed
qed

lemma sector_vals_take:
  assumes "\<forall>g\<in>set G. \<forall>i. writes_to i (ev g) \<longrightarrow> i = hst g"
  shows "sector_vals ssz h S (map ev (take k G)) = sector_vals ssz h S (map ev (own h (take k G)))"
  using assms by (intro sector_vals_own) (auto dest: in_set_takeD)

lemma take_length_add: "take (length A + n) (A @ B) = A @ take n B"
  by simp

lemma drop_length_add: "drop (length A + n) (A @ B) = drop n B"
  by simp

lemma own_drop: "own h (drop k G) = drop (cnt h G k) (own h G)"
  by (metis append_eq_conv_conj own_split)

text \<open>The phase before the RW record: others see the prepare record, and it is live to them
  because the expiry check after the RW record passed.\<close>

lemma view_prepare:
  assumes w: "lease_world env ssz loff init G" and L: "own h G = X @ [(tiP, h, EClock LEASE_CLOCK iP),
      (tcP, h, EClock CLOCK_REALTIME cP), (tP, h, EWrHost h s0 ssz)] @ Y @ [gW, (tx1, h, EClock LEASE_CLOCK x1)] @ Z"
    and q: "quiet (\<lambda>_. False) (map ev Y)" and x1: "timespec_ns x1 - timespec_ns iP < lease_ns env"
    and ts: "hr_timestamp s0 = lease_timestamp cP"
    and k: "k \<le> length G" "length X + 2 < cnt h G k" "cnt h G k \<le> length X + 3 + length Y"
    and s: "s \<in> sector_vals ssz h {init h} (map ev (take k G))"
  shows "s = s0 \<and> (\<forall>k0<k. \<forall>t h' c. G ! k0 = (t, h', EClock CLOCK_REALTIME c) \<longrightarrow>
    host_record_live (env_opts env) (hr_timestamp s) c)"
proof -
  note wo = lease_world_own [OF w, of h "[]" "own h G", simplified]
  let ?P = "[(tiP, h, EClock LEASE_CLOCK iP), (tcP, h, EClock CLOCK_REALTIME cP), (tP, h, EWrHost h s0 ssz)]"
  define n where "n = cnt h G k - length (X @ ?P)"
  have n: "cnt h G k = length (X @ ?P) + n" "n \<le> length Y"
    using k(2,3) by (auto simp: n_def)
  have L': "own h G = (X @ ?P) @ Y @ [gW, (tx1, h, EClock LEASE_CLOCK x1)] @ Z"
    using L by simp
  have tk: "own h (take k G) = (X @ ?P) @ take n Y"
    using own_take [of h k G] n(2) unfolding n(1) L' take_length_add by simp
  have "sector_vals ssz h {init h} (map ev (take k G)) = sector_vals ssz h {init h} (map ev (own h (take k G)))"
    by (rule sector_vals_take [OF wo(5)])
  also have "\<dots> = {s0}"
  proof -
    have "quiet (\<lambda>_. False) (map ev (take n Y))"
      using q by (metis append_take_drop_id map_append quiet_simps(3))
    then show ?thesis by (simp add: tk sector_vals_append sector_vals_quiet)
  qed
  finally have s0: "s = s0" using s by simp
  have "(tx1, h, EClock LEASE_CLOCK x1) \<in> set (own h (drop k G))"
    using own_drop [of h k G] n(2) unfolding n(1) L' drop_length_add by simp
  then have in_d: "(tx1, h, EClock LEASE_CLOCK x1) \<in> set (drop k G)" by (auto simp: own_def)
  have c: "timespec_ns x1 = tx1 + loff h" "timespec_ns iP = tiP + loff h" "tiP \<le> tcP"
    using wo(2,3) L by (auto simp: lease_clock_ok_def sorted_append)
  have "host_record_live (env_opts env) (hr_timestamp s) c"
    if k0: "k0 < k" "G ! k0 = (t, h', EClock CLOCK_REALTIME c)" for k0 t h' c
  proof -
    have "t \<le> tx1"
      using tm_before [OF _ k0(1) k(1) in_d] w k0(2) by (simp add: lease_world_def)
    moreover have "(tcP, h, EClock CLOCK_REALTIME cP) \<in> set G" using L wo(6) by auto
    moreover have "(t, h', EClock CLOCK_REALTIME c) \<in> set G" using k0 k(1) by (metis nth_mem order_less_le_trans)
    ultimately show ?thesis
      using live_in_time [OF w] x1 c s0 ts by simp
  qed
  with s0 show ?thesis by blast
qed

text \<open>From the RW record on.\<close>

lemma view_held:
  assumes w: "lease_world env ssz loff init G" and L: "own h G = X @ post" and X: "X \<noteq> []" "ev (last X) = EWrHost h W ssz"
    and inv: "post_inv env (loff h) W m pre post" and pre: "set pre \<subseteq> set X"
    and m: "mnt_host_id m = h" "uint (mnt_sectsize m) = ssz"
    and tau: "\<forall>g\<in>set G. tm g \<le> tau" "tau + loff h < timespec_ns (mnt_kill_timer m)"
    and k: "k \<le> length G" "length X \<le> cnt h G k"
    and s: "s \<in> sector_vals ssz h {init h} (map ev (take k G))"
  shows "(\<exists>c. s = rw_rec env m c) \<and> (\<forall>k0<k. \<forall>t h' c. G ! k0 = (t, h', EClock CLOCK_REALTIME c) \<longrightarrow>
    host_record_live (env_opts env) (hr_timestamp s) c)"
proof -
  note wo = lease_world_own [OF w, of h "[]" "own h G", simplified]
  obtain n where n: "cnt h G k = length X + n" using k(2) by (metis le_iff_add)
  let ?p = "take n post" and ?q = "drop n post"
  have tk: "own h (take k G) = X @ ?p" and dk: "own h (drop k G) = ?q"
    using own_take [of h k G] own_drop [of h k G] unfolding n L take_length_add drop_length_add by simp_all
  have "sector_vals ssz h {init h} (map ev (take k G)) = sector_vals ssz h {init h} (map ev (X @ ?p))"
    unfolding tk [symmetric] by (rule sector_vals_take [OF wo(5)])
  also have "\<dots> = sector_vals ssz h {W} (map ev ?p)"
    using X by (cases X rule: rev_cases) (auto simp: sector_vals_append)
  finally have "s \<in> sector_vals ssz h {W} (map ev ?p)" using s by simp
  with inv m obtain c tc where c: "s = rw_rec env m c" "(tc, h, EClock CLOCK_REALTIME c) \<in> set (pre @ ?p)" and
    b: "?q \<noteq> [] \<and> tm (hd ?q) < tc + lease_ns env \<or> timespec_ns (mnt_kill_timer m) \<le> tc + loff h + lease_ns env"
    unfolding post_inv_def by (metis append_take_drop_id)
  have cG: "(tc, h, EClock CLOCK_REALTIME c) \<in> set G"
    using c(2) pre wo(6) L by (auto dest: in_set_takeD)
  have "host_record_live (env_opts env) (hr_timestamp s) c'"
    if k0: "k0 < k" "G ! k0 = (t, h', EClock CLOCK_REALTIME c')" for k0 t h' c'
  proof -
    have tG: "(t, h', EClock CLOCK_REALTIME c') \<in> set G" using k0 k(1) by (metis nth_mem order_less_le_trans)
    have "t < tc + lease_ns env"
      using b
    proof
      assume q: "?q \<noteq> [] \<and> tm (hd ?q) < tc + lease_ns env"
      then have "hd ?q \<in> set (drop k G)" using dk by (metis hd_in_set own_def filter_is_subset subsetD)
      with tm_before [OF _ k0(1) k(1)] w k0(2) have "t \<le> tm (hd ?q)" by (fastforce simp: lease_world_def)
      with q show ?thesis by simp
    next
      assume "timespec_ns (mnt_kill_timer m) \<le> tc + loff h + lease_ns env"
      with tau tG show ?thesis by fastforce
    qed
    with live_in_time [OF w cG tG] c(1) show ?thesis by simp
  qed
  with c(1) show ?thesis by blast
qed

lemma view_in_scan:
  assumes L: "own h G = X @ (t0, h, EClock CLOCK_REALTIME c) # sc @ Z" and p: "p < Suc (length X)"
    and sc: "ERdHost i ssz hr \<in> set (map ev sc)" "Q c hr"
  shows "view_in ssz G h i Q p"
proof -
  from sc(1) obtain j where j: "j < length sc" "ev (sc ! j) = ERdHost i ssz hr"
    by (auto simp: in_set_conv_nth)
  have x: "length X < length (own h G)" "own h G ! length X = (t0, h, EClock CLOCK_REALTIME c)"
    "Suc (length X + j) < length (own h G)" "own h G ! Suc (length X + j) = sc ! j"
    using L j(1) by (simp_all add: nth_append)
  obtain k0 where k0: "cnt h G k0 = length X" "G ! k0 = (t0, h, EClock CLOCK_REALTIME c)"
    using own_index [OF x(1)] unfolding x(2) by blast
  obtain k where k: "k < length G" "cnt h G k = Suc (length X + j)" "G ! k = sc ! j" "hst (G ! k) = h"
    using own_index [OF x(3)] unfolding x(4) by blast
  have "k0 < k" using k0(1) k(2) cnt_less [of h k0 G k] by simp
  moreover have "G ! k = (tm (G ! k), h, ERdHost i ssz hr)"
    using k(3,4) j(2) by (simp add: prod_eq_iff)
  ultimately show ?thesis
    unfolding view_in_def using k k0 p sc(2)
    by (intro exI [of _ k] exI [of _ k0] exI [of _ "tm (G ! k)"] exI [of _ t0] exI [of _ hr] exI [of _ c]) auto
qed

lemma hr_flag_rw: "hr_flags s = PFS_HOST_FL_RW \<Longrightarrow> hr_rw s \<and> hr_rw_or_prepare s"
  by (simp add: hr_rw_def hr_rw_or_prepare_def)

lemma hr_flag_prepare: "hr_flags s = PFS_HOST_FL_PREPARE \<Longrightarrow> \<not> hr_rw s \<and> hr_rw_or_prepare s"
  by (simp add: hr_rw_def hr_rw_or_prepare_def)

text \<open>A holder's view: what it let others see and what it saw.\<close>

lemma holder_views:
  assumes w: "lease_world env ssz loff init G" and hold: "lease_holder env ssz loff G tau h m"
    and tau: "\<forall>g\<in>set G. tm g \<le> tau"
  obtains p w' where "view_out env ssz init G h (mnt_current_ballot m) p w'"
    "\<And>i. i \<in> set (host_slots m) \<Longrightarrow> view_in ssz G h i (verify_ok env (mnt_current_ballot m)) p"
    "\<And>i. i \<in> set (host_slots m) \<Longrightarrow> view_in ssz G h i (conflict_ok env (mnt_current_ballot m)) w'"
    "0 < h" "h \<le> mnt_num_hosts m"
proof -
  from hold obtain pre es lr where o: "own h G = pre @ es" and lh: "lease_holds env loff es m lr" and
    m: "mnt_host_id m = h" "uint (mnt_sectsize m) = ssz" and d: "tau + loff h < timespec_ns (mnt_kill_timer m)"
    by (auto simp: lease_holder_def)
  note wo = lease_world_own [OF w o]
  from lease_holds_inv [OF lh] wo(1-4) m obtain m0 e0 acq1 acq2 more cW0 where
    es: "es = e0 @ acq1 @ acq2 @ more" and acq: "acquisition env m0 (map ev acq1) (map ev acq2)" and
    sh: "same_host m0 m" and bd: "0 < h" "h \<le> mnt_num_hosts m" and
    W: "ev (last acq1) = EWrHost h (rw_rec env m cW0) ssz" and
    inv: "post_inv env (loff h) (rw_rec env m cW0) m (e0 @ acq1) (acq2 @ more)"
    by auto
  have f: "mnt_host_id m0 = h" "uint (mnt_sectsize m0) = ssz" "mnt_current_ballot m0 = mnt_current_ballot m"
    "host_slots m = host_slots m0"
    using sh m host_slots_same_host [OF sh] by (auto simp: same_host_def)
  have hh: "\<forall>g\<in>set (acq1 @ acq2). hst g = mnt_host_id m0" using wo(1) es f(1) by auto
  obtain tiP iP tcP cP tP tnV nV sV tiW iW tcW cW tW tx1 x1 tnC nC sC tl where
    a1: "acq1 = [(tiP, h, EClock LEASE_CLOCK iP), (tcP, h, EClock CLOCK_REALTIME cP),
       (tP, h, EWrHost h (make_host_record (env_crc env) PFS_HOST_FL_PREPARE h (ucast (mnt_host_generation m0))
          (lease_timestamp cP) (mnt_current_ballot m) 0) ssz), (tnV, h, EClock CLOCK_REALTIME nV)] @ sV @
      [(tiW, h, EClock LEASE_CLOCK iW), (tcW, h, EClock CLOCK_REALTIME cW),
       (tW, h, EWrHost h (make_host_record (env_crc env) PFS_HOST_FL_RW h (ucast (mnt_host_generation m0))
          (lease_timestamp cW) (mnt_current_ballot m) (mnt_current_ballot m)) ssz)]" and
    a2: "acq2 = [(tx1, h, EClock LEASE_CLOCK x1), (tnC, h, EClock CLOCK_REALTIME nC)] @ sC @ tl" and
    q: "quiet (\<lambda>_. False) (map ev sV)" "quiet (\<lambda>_. False) (map ev acq2)" and
    sV: "saw m0 (verify_ok env (mnt_current_ballot m) nV) (host_slots m0) (map ev sV)" and
    sC: "saw m0 (conflict_ok env (mnt_current_ballot m) nC) (host_slots m0) (map ev sC)" and
    x1: "timespec_ns x1 - timespec_ns iP < lease_ns env" "mnt_lease_write_time m0 = iW"
      "mnt_kill_timer m0 = kill_deadline env m0" "mnt_kill_timer_armed m0"
    by (rule acquisitionE [OF acq hh, unfolded f])
  let ?s0 = "make_host_record (env_crc env) PFS_HOST_FL_PREPARE h (ucast (mnt_host_generation m0))
          (lease_timestamp cP) (mnt_current_ballot m) 0"
  let ?p = "length (pre @ e0) + 2" and ?w = "length (pre @ e0) + 6 + length sV"
  let ?Y = "(tnV, h, EClock CLOCK_REALTIME nV) # sV @
    [(tiW, h, EClock LEASE_CLOCK iW), (tcW, h, EClock CLOCK_REALTIME cW)]"
  have LP: "own h G = (pre @ e0) @ [(tiP, h, EClock LEASE_CLOCK iP), (tcP, h, EClock CLOCK_REALTIME cP),
      (tP, h, EWrHost h ?s0 ssz)] @ ?Y @ [last acq1, (tx1, h, EClock LEASE_CLOCK x1)] @
      (tnC, h, EClock CLOCK_REALTIME nC) # sC @ tl @ more"
    using o es a1 a2 by simp
  have "view_out env ssz init G h (mnt_current_ballot m) ?p ?w"
    unfolding view_out_def
  proof (intro allI impI ballI)
    fix k s
    assume k: "k \<le> length G" "?p < cnt h G k" and s: "s \<in> sector_vals ssz h {init h} (map ev (take k G))"
    show "host_record_parse (env_crc env) s = PFS_OK \<and> hr_rw_or_prepare s \<and>
        (if cnt h G k \<le> ?w then \<not> hr_rw s \<and> hr_mbal s = mnt_current_ballot m
         else hr_rw s \<and> hr_bal s = mnt_current_ballot m) \<and>
        (\<forall>k0<k. \<forall>t h' c. G ! k0 = (t, h', EClock CLOCK_REALTIME c) \<longrightarrow>
           host_record_live (env_opts env) (hr_timestamp s) c)"
    proof (cases "cnt h G k \<le> ?w")
      case True
      have "s = ?s0 \<and> (\<forall>k0<k. \<forall>t h' c. G ! k0 = (t, h', EClock CLOCK_REALTIME c) \<longrightarrow>
          host_record_live (env_opts env) (hr_timestamp s) c)"
        by (rule view_prepare [OF w LP _ x1(1) _ k]) (use q(1) s True in simp_all)
      with True show ?thesis using hr_flag_prepare [of ?s0] by auto
    next
      case False
      have "(\<exists>c. s = rw_rec env m c) \<and> (\<forall>k0<k. \<forall>t h' c. G ! k0 = (t, h', EClock CLOCK_REALTIME c) \<longrightarrow>
          host_record_live (env_opts env) (hr_timestamp s) c)"
        by (rule view_held [OF w _ _ _ inv _ m tau d k(1) _ s, of "pre @ e0 @ acq1"])
          (use o es a1 W False in auto)
      with False show ?thesis using hr_flag_rw by auto
    qed
  qed
  moreover have "view_in ssz G h i (verify_ok env (mnt_current_ballot m)) ?p" if i: "i \<in> set (host_slots m)" for i
  proof -
    from sV i obtain hr where "ERdHost i ssz hr \<in> set (map ev sV)" "verify_ok env (mnt_current_ballot m) nV hr"
      unfolding f(4) saw_def f(2) by blast
    then show ?thesis
      by (intro view_in_scan [where sc = sV and X = "pre @ e0 @ take 3 acq1"]) (use o es a1 in auto)
  qed
  moreover have "view_in ssz G h i (conflict_ok env (mnt_current_ballot m)) ?w" if i: "i \<in> set (host_slots m)" for i
  proof -
    from sC i obtain hr where "ERdHost i ssz hr \<in> set (map ev sC)" "conflict_ok env (mnt_current_ballot m) nC hr"
      unfolding f(4) saw_def f(2) by blast
    then show ?thesis
      by (intro view_in_scan [where sc = sC and X = "pre @ e0 @ acq1 @ [(tx1, h, EClock LEASE_CLOCK x1)]"])
        (use o es a1 a2 in auto)
  qed
  ultimately show thesis using bd by (rule that)
qed

lemma mem_host_slots: "i \<in> set (host_slots m) \<longleftrightarrow> i \<noteq> mnt_host_id m \<and> 0 < i \<and> i \<le> mnt_num_hosts m"
proof -
  have lt: "unat (mnt_num_hosts m) < 2 ^ 32"
    by (rule order_less_le_trans [OF unsigned_less]) simp
  have "(\<exists>n. 1 \<le> n \<and> n < Suc (unat (mnt_num_hosts m)) \<and> i = of_nat n) \<longleftrightarrow> 0 < i \<and> i \<le> mnt_num_hosts m"
  proof
    assume "\<exists>n. 1 \<le> n \<and> n < Suc (unat (mnt_num_hosts m)) \<and> i = of_nat n"
    then obtain n where n: "1 \<le> n" "n \<le> unat (mnt_num_hosts m)" "i = of_nat n" by auto
    then have "unat i = n"
      using lt by (simp add: unat_of_nat)
    with n show "0 < i \<and> i \<le> mnt_num_hosts m"
      by (simp add: word_le_nat_alt word_less_nat_alt)
  next
    assume "0 < i \<and> i \<le> mnt_num_hosts m"
    then show "\<exists>n. 1 \<le> n \<and> n < Suc (unat (mnt_num_hosts m)) \<and> i = of_nat n"
      by (intro exI [of _ "unat i"]) (simp add: word_le_nat_alt word_less_nat_alt)
  qed
  then show ?thesis
    by (auto simp: host_slots_def)
qed

text \<open>Claim C1: at no time do two different hosts hold the read-write lease, whatever the
  interleaving of their acquisitions, renewals, crashes and failed writes.\<close>

theorem rw_lease_exclusive:
  assumes "lease_world env ssz loff init G" "\<forall>g\<in>set G. tm g \<le> tau"
    and "lease_holder env ssz loff G tau h1 m1" "lease_holder env ssz loff G tau h2 m2"
    and "mnt_num_hosts m1 = mnt_num_hosts m2"
  shows "h1 = h2"
proof (rule ccontr)
  assume ne: "h1 \<noteq> h2"
  have id: "mnt_host_id m1 = h1" "mnt_host_id m2 = h2"
    using assms(3,4) by (auto simp: lease_holder_def)
  from holder_views [OF assms(1,3,2)] obtain p1 w1 where 1:
    "view_out env ssz init G h1 (mnt_current_ballot m1) p1 w1"
    "\<And>i. i \<in> set (host_slots m1) \<Longrightarrow> view_in ssz G h1 i (verify_ok env (mnt_current_ballot m1)) p1"
    "\<And>i. i \<in> set (host_slots m1) \<Longrightarrow> view_in ssz G h1 i (conflict_ok env (mnt_current_ballot m1)) w1"
    "0 < h1" "h1 \<le> mnt_num_hosts m1" by blast
  from holder_views [OF assms(1,4,2)] obtain p2 w2 where 2:
    "view_out env ssz init G h2 (mnt_current_ballot m2) p2 w2"
    "\<And>i. i \<in> set (host_slots m2) \<Longrightarrow> view_in ssz G h2 i (verify_ok env (mnt_current_ballot m2)) p2"
    "\<And>i. i \<in> set (host_slots m2) \<Longrightarrow> view_in ssz G h2 i (conflict_ok env (mnt_current_ballot m2)) w2"
    "0 < h2" "h2 \<le> mnt_num_hosts m2" by blast
  have "h2 \<in> set (host_slots m1)" "h1 \<in> set (host_slots m2)"
    using 1(4,5) 2(4,5) assms(5) ne id by (auto simp: mem_host_slots)
  then show False
    by (intro views_exclude [OF assms(1) 1(1-3) 2(1-3)])
qed

end
