(* ===== verification/Lease_Props.thy ===== *)
theory Lease_Props
  imports Lease_Exclusion
begin

text \<open>
  Further properties of the lease code: ballots of different hosts differ, a formatted leader
  record verifies, the wait for a blocking host ends, and an acquisition that cannot read
  every host's sector fails. A small two-host volume serves as the witness.
\<close>

section \<open>A two-host volume with one holder\<close>

definition demo_env :: lease_env where
  "demo_env = \<lparr>env_crc = (\<lambda>_ _. 0), env_opts = default_opts\<rparr>"

definition demo_leader :: leader_record where
  "demo_leader = zero_leader_record\<lparr>lr_magic := PFS_LEADER_MAGIC, lr_version := 0x00010002,
     lr_sector_size := 512, lr_num_hosts := 2, lr_max_hosts := 2\<rparr>"

definition demo_mnt :: lease_mnt where
  "demo_mnt = \<lparr>mnt_flags = 0x102, mnt_sectsize = 512, mnt_lockspace_name = ''1-1'', mnt_hostid_fd = - 1,
     mnt_paxos_file = False, mnt_num_hosts = 0, mnt_host_id = 1, mnt_host_generation = 0,
     mnt_current_ballot = 0, mnt_rw_lease_held = False, mnt_kill_timer = \<lparr>tv_sec = 0, tv_nsec = 0\<rparr>,
     mnt_lease_write_time = \<lparr>tv_sec = 0, tv_nsec = 0\<rparr>, mnt_kill_timer_armed = False, mnt_wdog_fd = - 1,
     mnt_log_leader = zero_leader_record\<rparr>"

definition demo_at :: "int \<Rightarrow> timespec" where
  "demo_at s = \<lparr>tv_sec = s, tv_nsec = 0\<rparr>"

definition demo_rec :: "u32 \<Rightarrow> u64 \<Rightarrow> host_record" where
  "demo_rec fl bal = make_host_record (\<lambda>_ _. 0) fl 1 1 100 3 bal"

definition demo_events :: "event list" where
  "demo_events =
     [ESys OpenPaxos 3, ERdLeader 512 demo_leader, ERdHost 2 512 zero_host_record,
      EClock CLOCK_REALTIME (demo_at 100), ERdHost 2 512 zero_host_record, ERdHost 1 512 zero_host_record,
      EClock LEASE_CLOCK (demo_at 7), EClock CLOCK_REALTIME (demo_at 100), EWrHost 1 (demo_rec 2 0) 512,
      EClock CLOCK_REALTIME (demo_at 100), ERdHost 2 512 zero_host_record,
      EClock LEASE_CLOCK (demo_at 7), EClock CLOCK_REALTIME (demo_at 100), EWrHost 1 (demo_rec 1 3) 512,
      EClock LEASE_CLOCK (demo_at 7), EClock CLOCK_REALTIME (demo_at 100), ERdHost 2 512 zero_host_record,
      EClock LEASE_CLOCK (demo_at 7), ESys Sigaction 0, ESys TimerCreate 0, ESys (TimerSet (demo_at 37)) 0]"

definition demo_held :: lease_mnt where
  "demo_held = demo_mnt\<lparr>mnt_paxos_file := True, mnt_num_hosts := 2, mnt_host_generation := 1,
     mnt_current_ballot := 3, mnt_rw_lease_held := True, mnt_kill_timer := demo_at 37,
     mnt_lease_write_time := demo_at 7, mnt_kill_timer_armed := True, mnt_log_leader := demo_leader\<rparr>"

lemma demo_load: "replay (pfs_leader_load 0 demo_env demo_mnt) demo_events = Some ((PFS_OK, demo_held), [])"
  by code_simp

definition demo_history :: "gevent list" where
  "demo_history = map (\<lambda>e. (100000000000, 1, e)) demo_events"

definition demo_loff :: "u32 \<Rightarrow> int" where
  "demo_loff h = - 93000000000"

lemma demo_world: "lease_world demo_env 512 demo_loff (\<lambda>_. zero_host_record) demo_history"
  by code_simp

lemma demo_holder: "lease_holder demo_env 512 demo_loff demo_history 110000000000 1 demo_held"
proof -
  have "own 1 demo_history = [] @ demo_history" "map ev demo_history = demo_events"
    by (simp_all add: own_def demo_history_def comp_def)
  moreover from this have "lease_holds demo_env demo_loff demo_history demo_held (demo_at 100)"
    using demo_load by (intro acquired [where n = 0 and mnt = demo_mnt]) (simp_all add: pfs_writable_def demo_held_def demo_mnt_def)
  moreover have "mnt_host_id demo_held = 1" "uint (mnt_sectsize demo_held) = 512"
    "110000000000 + demo_loff 1 < timespec_ns (mnt_kill_timer demo_held)"
    by (simp_all add: demo_held_def demo_mnt_def demo_loff_def demo_at_def timespec_ns_def)
  ultimately show ?thesis
    unfolding lease_holder_def by blast
qed


theorem rw_lease_exclusive_witness:
  "lease_world demo_env 512 demo_loff (\<lambda>_. zero_host_record) demo_history \<and>
   {h. \<exists>m. lease_holder demo_env 512 demo_loff demo_history 110000000000 h m \<and> mnt_num_hosts m = 2} = {1}"
proof -
  have t: "\<forall>g\<in>set demo_history. tm g \<le> 110000000000"
    by (simp add: demo_history_def)
  have n: "mnt_num_hosts demo_held = 2" by (simp add: demo_held_def)
  show ?thesis
    using demo_world demo_holder n rw_lease_exclusive [OF demo_world t _ demo_holder] by auto
qed

section \<open>Further properties\<close>

text \<open>Claim C12: different hosts never propose the same ballot, in 64-bit arithmetic, for
  generations a 32-bit field can hold (plus one) and any host count below two billion: the
  branch of \<open>pfs_rw_lease_verify_prepare\<close> for an equal ballot is unreachable.\<close>

theorem pfs_ballot_unique:
  assumes "h1 \<noteq> h2" "0 < h1" "h1 \<le> n" "0 < h2" "h2 \<le> n" "n < 2 ^ 31" "g1 \<le> 2 ^ 32" "g2 \<le> 2 ^ 32"
  shows "pfs_ballot_generate g1 n h1 \<noteq> pfs_ballot_generate g2 n h2"
proof
  assume eq: "pfs_ballot_generate g1 n h1 = pfs_ballot_generate g2 n h2"
  have ub: "unat (pfs_ballot_generate g n h) = unat g * unat n + unat h"
    if "g \<le> 2 ^ 32" "h \<le> n" for g h
  proof -
    have "unat g \<le> 2 ^ 32" "unat h \<le> unat n" "unat n < 2 ^ 31"
      using that assms(6) by (simp_all add: word_le_nat_alt word_less_nat_alt)
    then have "unat g * unat n + unat h \<le> 2 ^ 32 * 2 ^ 31 + 2 ^ 31"
      by (intro add_mono mult_mono) auto
    then have "unat g * unat n + unat h < 2 ^ 64" by simp
    moreover have "take_bit 64 (unat n) = unat n"
      using \<open>unat n < 2 ^ 31\<close> by (simp add: take_bit_nat_eq_self)
    ultimately show ?thesis
      by (simp add: pfs_ballot_generate_def unat_word_ariths unsigned_ucast_eq take_bit_nat_eq_self)
  qed
  have lt: "unat h1 \<le> unat n" "unat h2 \<le> unat n" "0 < unat h1" "0 < unat h2" "unat h1 \<noteq> unat h2"
    using assms(1-5) by (simp_all add: word_le_nat_alt word_less_nat_alt word_unat_eq_iff)
  from eq have e: "unat g1 * unat n + unat h1 = unat g2 * unat n + unat h2"
    using ub [OF assms(7,3)] ub [OF assms(8,5)] by simp
  consider "unat g1 < unat g2" | "unat g1 = unat g2" | "unat g2 < unat g1" by linarith
  then show False
  proof cases
    case 1
    then have "Suc (unat g1) * unat n \<le> unat g2 * unat n" by (intro mult_le_mono1) simp
    with e lt show False by simp
  next
    case 2
    with e lt show False by simp
  next
    case 3
    then have "Suc (unat g2) * unat n \<le> unat g1 * unat n" by (intro mult_le_mono1) simp
    with e lt show False by simp
  qed
qed

theorem pfs_ballot_unique_witness:
  "pfs_ballot_generate 4 254 3 \<noteq> pfs_ballot_generate 3 254 254"
  using pfs_ballot_unique [of 3 254 254 4 3] by simp

text \<open>Claim C13: the record \<open>pfs_leader_init\<close> formats the paxos file with passes
  \<open>verify_leader\<close> on every host whose id is within the host count, unless it was asked to
  write the cleared magic.\<close>

theorem leader_init_verifies:
  assumes "leader_init_record crc sector_size num_hosts max_hosts False logsize = Inr (lr, len)"
    and "uint host_id \<le> (if num_hosts = 0 then DEFAULT_MAX_HOSTS else num_hosts)"
  shows "verify_leader (word_of_int sector_size) host_id lr (leader_checksum crc lr) = PFS_OK"
proof -
  define n where "n = (if num_hosts = 0 then DEFAULT_MAX_HOSTS else num_hosts)"
  from assms(1) have lr: "lr_magic lr = PFS_LEADER_MAGIC" "lr_version lr = 0x00010002"
    "lr_sector_size lr = word_of_int sector_size" "lr_num_hosts lr = word_of_int n"
    "lr_checksum lr = leader_checksum crc lr" and n: "n \<le> DEFAULT_MAX_HOSTS"
    by (auto simp: leader_init_record_def Let_def n_def split: if_splits)
  have h: "uint host_id \<le> n" using assms(2) by (simp add: n_def)
  then have "0 \<le> n" using order_trans [OF uint_ge_0] by blast
  with n have "uint (word_of_int n :: u64) = n"
    by (simp add: unsigned_of_int take_bit_int_eq_self)
  with h n have "\<not> (word_of_int n :: u64) < ucast host_id"
    by (simp add: word_less_alt unsigned_ucast_eq take_bit_int_eq_self)
  with lr show ?thesis
    by (simp add: verify_leader_def)
qed

theorem leader_init_verifies_witness:
  "\<exists>lr len. leader_init_record (\<lambda>_ _. 7) 4096 0 0 False 1024 = Inr (lr, len) \<and>
     verify_leader 4096 254 lr 7 = PFS_OK"
proof -
  obtain lr len where i: "leader_init_record (\<lambda>_ _. 7) 4096 0 0 False 1024 = Inr (lr, len)"
    by (simp add: leader_init_record_def direct_align_def Let_def)
  from leader_init_verifies [OF i, of 254] i show ?thesis
    by (simp add: leader_checksum_def)
qed


section \<open>Waiting ends\<close>

text \<open>Whether a program, answered by the given events, uses up its fuel.\<close>

primrec runs_out :: "'a prog \<Rightarrow> event list \<Rightarrow> bool" where
  "runs_out (Ret x) es = False"
| "runs_out Abort es = False"
| "runs_out Out es = True"
| "runs_out (Sys r k) es =
     (case es of ESys r' x # es' \<Rightarrow> r = r' \<and> runs_out (k x) es' | _ \<Rightarrow> False)"
| "runs_out (Clock c k) es =
     (case es of EClock c' t # es' \<Rightarrow> c = c' \<and> runs_out (k t) es' | _ \<Rightarrow> False)"
| "runs_out (RdLeader k) es =
     (case es of ERdLeader rv lr # es' \<Rightarrow> runs_out (k (rv, lr)) es' | _ \<Rightarrow> False)"
| "runs_out (WrLeader lr k) es =
     (case es of EWrLeader lr' rv # es' \<Rightarrow> lr = lr' \<and> runs_out (k rv) es' | _ \<Rightarrow> False)"
| "runs_out (RdHost i k) es =
     (case es of ERdHost i' rv hr # es' \<Rightarrow> i = i' \<and> runs_out (k (rv, hr)) es' | _ \<Rightarrow> False)"
| "runs_out (WrHost i hr k) es =
     (case es of EWrHost i' hr' rv # es' \<Rightarrow> i = i' \<and> hr = hr' \<and> runs_out (k rv) es' | _ \<Rightarrow> False)"

lemma runs_out_bindP:
  "runs_out (bindP p f) es \<longleftrightarrow>
     runs_out p es \<or> (\<exists>x mid. replay p es = Some (x, mid) \<and> runs_out (f x) mid)"
  by (induction p arbitrary: es) (auto split: list.splits event.splits)

lemma runs_out_read: "\<not> runs_out (pfs_host_record_read env mnt i hr0) es"
  by (simp add: pfs_host_record_read_def split: list.splits event.splits)

lemma runs_out_check_scan: "\<not> runs_out (check_scan env mnt dead now is fi ft hr0) es"
  by (induction "is" arbitrary: fi ft hr0 es) (auto simp: runs_out_bindP runs_out_read split: if_splits)

lemma runs_out_check: "\<not> runs_out (pfs_rw_lease_check env mnt dead) es"
  by (simp add: pfs_rw_lease_check_def runs_out_check_scan split: list.splits event.splits)

text \<open>\<open>CLOCK_REALTIME\<close> advances by at least a second over every \<open>sleep(1)\<close>.\<close>

fun ticks :: "int \<Rightarrow> event list \<Rightarrow> bool" where
  "ticks t [] = True"
| "ticks t (ESys Sleep1 rv # EClock CLOCK_REALTIME c # es) = (t + 1 \<le> tv_sec c \<and> ticks (tv_sec c) es)"
| "ticks t (e # es) = ticks t es"

lemma wait_loop_ends:
  assumes "ticks t es" "nat (sint ts + lease_expiry_age (env_opts env) - t) < n"
  shows "\<not> runs_out (wait_loop n env mnt dead b ts hr0) es"
  using assms
proof (induction n arbitrary: t es hr0)
  case (Suc n)
  show ?case
  proof
    assume "runs_out (wait_loop (Suc n) env mnt dead b ts hr0) es"
    then obtain x now es1 where es: "es = ESys Sleep1 x # EClock CLOCK_REALTIME now # es1" and
      "runs_out (bindP (pfs_host_record_read env mnt b hr0) (\<lambda>(rv, hr).
         if rv = 0 \<or> rv < 0 then bindP (pfs_rw_lease_check env mnt dead) (\<lambda>r. Ret (fst r))
         else if hr_timestamp hr \<noteq> ts then Ret (- EBUSY)
         else if \<not> host_record_live (env_opts env) ts now
           then bindP (pfs_rw_lease_check env mnt dead) (\<lambda>r. Ret (fst r))
         else wait_loop n env mnt dead b ts hr)) es1"
      by (auto split: list.splits event.splits)
    then obtain rv hr mid where r: "replay (pfs_host_record_read env mnt b hr0) es1 = Some ((rv, hr), mid)" and
      live: "host_record_live (env_opts env) ts now" and out: "runs_out (wait_loop n env mnt dead b ts hr) mid"
      by (auto simp: runs_out_bindP runs_out_read runs_out_check split: if_splits)
    obtain y raw where "es1 = ERdHost b y raw # mid"
      by (rule replay_host_record_read [OF r])
    with Suc.prems es have "ticks (tv_sec now) mid" "t + 1 \<le> tv_sec now" by auto
    moreover have "nat (sint ts + lease_expiry_age (env_opts env) - tv_sec now) < n"
      using Suc.prems(2) live \<open>t + 1 \<le> tv_sec now\<close>
      by (simp add: host_record_live_def host_record_age_def)
    ultimately show False
      using Suc.IH out by blast
  qed
qed simp



section \<open>Failing closed\<close>

lemma verify_scan_cases:
  "replay (verify_scan env mnt dead now is hr0) es = Some (rv, rest) \<Longrightarrow> rv \<in> {0, - EBUSY}"
  by (induction "is" arbitrary: es hr0) (auto elim!: replay_bindP_SomeE split: if_splits)

text \<open>Claim C11: an acquisition fails closed. If some other host's sector could not be read, or
  holds a live RW record, or a live record with a higher ballot, when
  \<open>pfs_rw_lease_verify_prepare\<close> looked, the answer is \<open>-EBUSY\<close>.\<close>

theorem verify_prepare_fails_closed:
  assumes "replay (pfs_rw_lease_verify_prepare env mnt dead) (EClock CLOCK_REALTIME now # es) = Some (rv, [])"
    and "errnos es" "i \<in> set (host_slots mnt)"
    and "\<And>x hr. ERdHost i x hr \<in> set es \<Longrightarrow> x \<noteq> uint (mnt_sectsize mnt) \<or>
      host_record_parse (env_crc env) hr = PFS_OK \<and> host_record_live (env_opts env) (hr_timestamp hr) now \<and>
      (hr_rw hr \<or> mnt_current_ballot mnt \<le> hr_mbal hr)"
  shows "rv = - EBUSY"
proof (rule ccontr)
  assume "rv \<noteq> - EBUSY"
  have sc: "replay (verify_scan env mnt dead now (host_slots mnt) zero_host_record) es = Some (rv, [])"
    using assms(1) by (simp add: pfs_rw_lease_verify_prepare_def)
  with \<open>rv \<noteq> - EBUSY\<close> verify_scan_cases have "0 \<le> rv" by fastforce
  from verify_scan_ok [OF sc this assms(2)] assms(3) obtain hr where
    "ERdHost i (uint (mnt_sectsize mnt)) hr \<in> set es" "verify_ok env (mnt_current_ballot mnt) now hr"
    by (auto simp: saw_def)
  with assms(4) show False
    by (fastforce simp: verify_ok_def)
qed

theorem verify_prepare_fails_closed_witness:
  "replay (pfs_rw_lease_verify_prepare demo_env demo_held [])
     [EClock CLOCK_REALTIME (demo_at 100), ERdHost 2 (- EIO) zero_host_record] = Some (- EBUSY, [])"
proof -
  let ?p = "pfs_rw_lease_verify_prepare demo_env demo_held []"
  obtain rv where "replay ?p [EClock CLOCK_REALTIME (demo_at 100), ERdHost 2 (- EIO) zero_host_record] = Some (rv, [])"
    by (simp add: pfs_rw_lease_verify_prepare_def host_slots_def demo_held_def demo_mnt_def
        pfs_host_record_read_def read_code_def host_record_corrupt_def upt_rec)
  moreover have "2 \<in> set (host_slots demo_held)"
    by (simp add: mem_host_slots demo_held_def demo_mnt_def)
  ultimately show ?thesis
    using verify_prepare_fails_closed [of demo_env demo_held "[]" "demo_at 100" "[ERdHost 2 (- EIO) zero_host_record]" rv 2]
    by (simp add: demo_held_def demo_mnt_def)
qed

end
