(* ===== verification/Metaobj.thy ===== *)
theory Metaobj
  imports Paxos_Record
begin

text \<open>
  Meta objects (\<open>pfs_core/pfs_meta.h\<close>): the 128-byte records that describe blocks,
  directory entries and inodes, 32 of them to a sector. Here are the structures, their byte
  images and checksums, the checks made on allocation and free, and the field-wise copy of
  \<open>pfs_meta.cc\<close> that publishes a committed object to concurrent readers.

  The code overlays \<open>mo_data\<close> with one of three structures. It is a datatype here; next to
  the structure it carries the bytes of \<open>mo_data\<close> the structure does not cover.
\<close>

section \<open>Data\<close>

abbreviation MT_NONE :: u8 where "MT_NONE \<equiv> 0"
abbreviation MT_BLKTAG :: u8 where "MT_BLKTAG \<equiv> 1"
abbreviation MT_DIRENTRY :: u8 where "MT_DIRENTRY \<equiv> 2"
abbreviation MT_INODE :: u8 where "MT_INODE \<equiv> 3"

abbreviation BDS_NONE :: u32 where "BDS_NONE \<equiv> 0"
abbreviation BDS_READY :: u32 where "BDS_READY \<equiv> 1"
abbreviation BDS_INP :: u32 where "BDS_INP \<equiv> 2"

record blktag =
  bt_ino :: u64
  bt_blkid :: u64
  bt_dstatus :: u32
  bt_ndiscard :: u32
  bt_holelen :: u32
  bt_holeoff :: u32

record direntry =
  de_name :: "u8 list"
  de_ino :: u64
  de_dirino :: u64
  de_extdeno :: u64

record inode_phy =
  in_type :: u8
  in_flags :: u8
  in_padding :: "16 word"
  in_pvtid :: u32
  in_deno :: u64
  in_nlink :: u64
  in_nblock :: u64
  in_size :: u64
  in_atime :: u64
  in_ctime :: u64
  in_mtime :: u64
  in_btime :: u64

datatype modata =
    BT blktag (mo_rest: "u8 list")
  | DE direntry (mo_rest: "u8 list")
  | IN inode_phy (mo_rest: "u8 list")

record metaobj =
  mo_number :: u64
  mo_version :: u64
  mo_next :: u64
  mo_prev :: u64
  mo_type :: u8
  mo_used :: u8
  mo_padding :: "u8 list"
  mo_checksum :: u32
  mo_data :: modata

text \<open>\<open>MO2BT\<close>, \<open>MO2DE\<close> and \<open>MO2IN\<close>: the overlay the code reads. The code never reads an
  object through the overlay of another type; \<open>None\<close> stands for such a read.\<close>

fun MO2BT :: "metaobj \<Rightarrow> blktag option" where
  "MO2BT mo = (case mo_data mo of BT b r \<Rightarrow> Some b | _ \<Rightarrow> None)"

fun MO2DE :: "metaobj \<Rightarrow> direntry option" where
  "MO2DE mo = (case mo_data mo of DE d r \<Rightarrow> Some d | _ \<Rightarrow> None)"

fun MO2IN :: "metaobj \<Rightarrow> inode_phy option" where
  "MO2IN mo = (case mo_data mo of IN i r \<Rightarrow> Some i | _ \<Rightarrow> None)"

section \<open>Byte images and checksums\<close>

definition le16 :: "16 word \<Rightarrow> u8 list" where
  "le16 w = [ucast w, ucast (drop_bit 8 w)]"

fun modata_bytes :: "modata \<Rightarrow> u8 list" where
  "modata_bytes (BT b r) =
     le64 (bt_ino b) @ le64 (bt_blkid b) @ le32 (bt_dstatus b) @ le32 (bt_ndiscard b) @
     le32 (bt_holelen b) @ le32 (bt_holeoff b) @ r"
| "modata_bytes (DE d r) = de_name d @ le64 (de_ino d) @ le64 (de_dirino d) @ le64 (de_extdeno d) @ r"
| "modata_bytes (IN i r) =
     [in_type i, in_flags i] @ le16 (in_padding i) @ le32 (in_pvtid i) @ le64 (in_deno i) @
     le64 (in_nlink i) @ le64 (in_nblock i) @ le64 (in_size i) @ le64 (in_atime i) @
     le64 (in_ctime i) @ le64 (in_mtime i) @ le64 (in_btime i) @ r"

definition metaobj_bytes :: "metaobj \<Rightarrow> u8 list" where
  "metaobj_bytes mo =
     le64 (mo_number mo) @ le64 (mo_version mo) @ le64 (mo_next mo) @ le64 (mo_prev mo) @
     [mo_type mo, mo_used mo] @ mo_padding mo @ le32 (mo_checksum mo) @ modata_bytes (mo_data mo)"

text \<open>\<open>crc32c_compute\<close> of \<open>pfs_util.cc\<close>: the checksum of a copy of the buffer in which the
  four bytes at \<open>offset\<close>, the checksum field itself, are zero.\<close>

definition crc32c_compute :: "(u32 \<Rightarrow> u8 list \<Rightarrow> u32) \<Rightarrow> u8 list \<Rightarrow> nat \<Rightarrow> u32" where
  "crc32c_compute crc buf offset =
     crc (NOT 1) (take offset buf @ replicate 4 0 @ drop (offset + 4) buf)"

definition metaobj_crc :: "(u32 \<Rightarrow> u8 list \<Rightarrow> u32) \<Rightarrow> metaobj \<Rightarrow> u32" where
  "metaobj_crc crc mo = crc32c_compute crc (metaobj_bytes mo) 36"

text \<open>An object written before checksums existed has a zero there and is not checked; a
  mismatch ends the process.\<close>

definition pfs_metaobj_check_crc :: "(u32 \<Rightarrow> u8 list \<Rightarrow> u32) \<Rightarrow> metaobj \<Rightarrow> bool" where
  "pfs_metaobj_check_crc crc mo \<longleftrightarrow> mo_checksum mo = 0 \<or> mo_checksum mo = metaobj_crc crc mo"

definition pfs_metaobj_check_crc_buf :: "(u32 \<Rightarrow> u8 list \<Rightarrow> u32) \<Rightarrow> metaobj list \<Rightarrow> nat \<Rightarrow> bool" where
  "pfs_metaobj_check_crc_buf crc mobuf nmo \<longleftrightarrow> list_all (pfs_metaobj_check_crc crc) (take nmo mobuf)"

section \<open>Allocation state\<close>

definition pfs_metaobj_init :: "metaobj \<Rightarrow> u8 \<Rightarrow> metaobj option" where
  "pfs_metaobj_init mo type =
     (if mo_type mo = type \<and> mo_prev mo = 0 \<and> mo_next mo = 0 \<and> mo_used mo = 0
      then Some (mo\<lparr>mo_used := 1\<rparr>) else None)"

definition pfs_metaobj_fini :: "metaobj \<Rightarrow> u8 \<Rightarrow> metaobj option" where
  "pfs_metaobj_fini mo type =
     (if mo_type mo = type \<and> mo_prev mo = 0 \<and> mo_next mo = 0 \<and> mo_used mo = 1
      then Some (mo\<lparr>mo_used := 0\<rparr>) else None)"

section \<open>Field-wise copy\<close>

definition pfs_metaobj_cp_base :: "metaobj \<Rightarrow> metaobj \<Rightarrow> metaobj" where
  "pfs_metaobj_cp_base src dest =
     dest\<lparr>mo_number := mo_number src, mo_version := mo_version src, mo_next := mo_next src,
          mo_prev := mo_prev src, mo_type := mo_type src, mo_used := mo_used src,
          mo_padding := mo_padding src, mo_checksum := mo_checksum src\<rparr>"

text \<open>The bytes of \<open>mo_data\<close> past the structure are not copied.\<close>

definition pfs_metaobj_cp_blktag :: "metaobj \<Rightarrow> metaobj \<Rightarrow> metaobj option" where
  "pfs_metaobj_cp_blktag src dest =
     (case (mo_data src, mo_data dest) of
        (BT s _, BT d r) \<Rightarrow>
          Some ((pfs_metaobj_cp_base src dest)\<lparr>mo_data :=
            BT (d\<lparr>bt_ino := bt_ino s, bt_blkid := bt_blkid s, bt_dstatus := bt_dstatus s,
                  bt_ndiscard := bt_ndiscard s, bt_holelen := bt_holelen s,
                  bt_holeoff := bt_holeoff s\<rparr>) r\<rparr>)
      | _ \<Rightarrow> None)"

definition pfs_metaobj_cp_dentry :: "metaobj \<Rightarrow> metaobj \<Rightarrow> metaobj option" where
  "pfs_metaobj_cp_dentry src dest =
     (case (mo_data src, mo_data dest) of
        (DE s _, DE d r) \<Rightarrow>
          Some ((pfs_metaobj_cp_base src dest)\<lparr>mo_data :=
            DE (d\<lparr>de_name := de_name s, de_ino := de_ino s, de_dirino := de_dirino s,
                  de_extdeno := de_extdeno s\<rparr>) r\<rparr>)
      | _ \<Rightarrow> None)"

definition pfs_metaobj_cp_inode :: "metaobj \<Rightarrow> metaobj \<Rightarrow> metaobj option" where
  "pfs_metaobj_cp_inode src dest =
     (case (mo_data src, mo_data dest) of
        (IN s _, IN d r) \<Rightarrow>
          Some ((pfs_metaobj_cp_base src dest)\<lparr>mo_data :=
            IN (d\<lparr>in_type := in_type s, in_flags := in_flags s, in_padding := in_padding s,
                  in_pvtid := in_pvtid s, in_deno := in_deno s, in_nlink := in_nlink s,
                  in_nblock := in_nblock s, in_size := in_size s, in_atime := in_atime s,
                  in_ctime := in_ctime s, in_mtime := in_mtime s, in_btime := in_btime s\<rparr>) r\<rparr>)
      | _ \<Rightarrow> None)"

definition pfs_metaobj_cp :: "metaobj \<Rightarrow> metaobj \<Rightarrow> metaobj option" where
  "pfs_metaobj_cp src dest =
     (if mo_type src = MT_BLKTAG then pfs_metaobj_cp_blktag src dest
      else if mo_type src = MT_DIRENTRY then pfs_metaobj_cp_dentry src dest
      else if mo_type src = MT_INODE then pfs_metaobj_cp_inode src dest
      else None)"

section \<open>Lemmas\<close>

text \<open>An object whose type field names the overlay it carries.\<close>

fun metaobj_typed :: "metaobj \<Rightarrow> bool" where
  "metaobj_typed mo \<longleftrightarrow>
     (case mo_data mo of
        BT b r \<Rightarrow> mo_type mo = MT_BLKTAG \<and> length r = 56
      | DE d r \<Rightarrow> mo_type mo = MT_DIRENTRY \<and> length (de_name d) = 64 \<and> length r = 0
      | IN i r \<Rightarrow> mo_type mo = MT_INODE \<and> length r = 16) \<and> length (mo_padding mo) = 2"

text \<open>Two objects the field-wise copy can turn into each other: same overlay, same bytes
  past it.\<close>

definition same_shape :: "metaobj \<Rightarrow> metaobj \<Rightarrow> bool" where
  "same_shape a b \<longleftrightarrow> metaobj_typed a \<and> metaobj_typed b \<and> mo_type a = mo_type b \<and>
     mo_rest (mo_data a) = mo_rest (mo_data b)"

lemma length_metaobj_bytes:
  "metaobj_typed mo \<Longrightarrow> length (metaobj_bytes mo) = 128"
  by (auto simp: metaobj_bytes_def le16_def split: modata.splits)

lemma metaobj_crc_checksum [simp]:
  assumes "length (mo_padding mo) = 2"
  shows "metaobj_crc crc (mo\<lparr>mo_checksum := c\<rparr>) = metaobj_crc crc mo"
  using assms by (simp add: metaobj_crc_def crc32c_compute_def metaobj_bytes_def)

lemma check_crc_update:
  "length (mo_padding mo) = 2 \<Longrightarrow>
     pfs_metaobj_check_crc crc (mo\<lparr>mo_checksum := metaobj_crc crc mo\<rparr>)"
  by (simp add: pfs_metaobj_check_crc_def)

lemma same_shape_trans: "same_shape a b \<Longrightarrow> same_shape b c \<Longrightarrow> same_shape a c"
  by (simp add: same_shape_def)

lemma same_shape_sym: "same_shape a b \<Longrightarrow> same_shape b a"
  by (simp add: same_shape_def)

text \<open>The field-wise copy is a structure copy between objects of the same shape.\<close>

lemma pfs_metaobj_cp_eq:
  assumes "same_shape src dest"
  shows "pfs_metaobj_cp src dest = Some src"
proof -
  have t: "metaobj_typed src" "metaobj_typed dest" "mo_type dest = mo_type src"
    "mo_rest (mo_data dest) = mo_rest (mo_data src)"
    using assms by (auto simp: same_shape_def)
  show ?thesis
  proof (cases "mo_data src")
    case (BT s r)
    with t obtain d where "mo_data dest = BT d r" by (cases "mo_data dest") auto
    with BT t show ?thesis
      by (simp add: pfs_metaobj_cp_def pfs_metaobj_cp_blktag_def pfs_metaobj_cp_base_def)
  next
    case (DE s r)
    with t obtain d where "mo_data dest = DE d r" by (cases "mo_data dest") auto
    with DE t show ?thesis
      by (simp add: pfs_metaobj_cp_def pfs_metaobj_cp_dentry_def pfs_metaobj_cp_base_def)
  next
    case (IN s r)
    with t obtain d where "mo_data dest = IN d r" by (cases "mo_data dest") auto
    with IN t show ?thesis
      by (simp add: pfs_metaobj_cp_def pfs_metaobj_cp_inode_def pfs_metaobj_cp_base_def)
  qed
qed

declare metaobj_typed.simps [simp del]

end
