(* ===== verification/Tx.thy ===== *)
theory Tx
  imports Metaobj
begin

text \<open>
  Transactions (\<open>pfs_core/pfs_tx.cc\<close>): the life of a transaction operation from
  \<open>pfs_tx_new_op\<close> over \<open>pfs_txop_init\<close> and \<open>pfs_tx_done_op\<close> to its log entry, and the
  recreation of operations from log entries.

  A txop is known by its address \<open>top_addr\<close>; \<open>t_addr\<close> is the address the next one gets. The
  pointer to a sector buffer of the metadata in memory is the device address of that sector:
  every sector has one buffer. \<open>top_local\<close> and \<open>top_remote\<close> are a union in the code and one
  field here. The search tree \<open>t_opsroot\<close> of the C library is a map from the key
  \<open>txop_index_compare\<close> reads to the operation that was inserted under it. The shadow chain
  of an operation is only ever walked to call back, so it is the list of its callbacks.

  Allocation by \<open>pfs_mem_malloc\<close> fails where an argument \<open>mem\<close> says so and the code handles
  it; elsewhere the code asserts that it succeeds.
\<close>

section \<open>Data\<close>

abbreviation TXT_WRITE :: int where "TXT_WRITE \<equiv> 1"
abbreviation TXT_REPLAY :: int where "TXT_REPLAY \<equiv> 2"

abbreviation TOP_FLG_RECREATE :: u32 where "TOP_FLG_RECREATE \<equiv> 1"
abbreviation TOP_FLG_INITED :: u32 where "TOP_FLG_INITED \<equiv> 2"
abbreviation TOP_FLG_DONE :: u32 where "TOP_FLG_DONE \<equiv> 4"

record 'cb txop =
  top_addr :: nat
  top_local :: metaobj
  top_flags :: u32
  top_buf :: "u64 option"
  top_bda :: u64
  top_idx :: nat
  top_cb :: "'cb option"
  top_dup_head :: "nat option"
  top_shadow :: "'cb list"
  top_dup_cnt :: int
  top_dup_idx :: int

record 'cb tx =
  t_type :: int
  t_id :: int
  t_error :: int
  t_done :: bool
  t_timeoutfail :: bool
  t_nops :: int
  t_ops :: "'cb txop list"
  t_opsroot :: "u8 \<times> u64 \<Rightarrow> nat option"
  t_ncbs :: int
  t_cbs :: "('cb \<times> int) list"
  t_addr :: nat

record logentry =
  le_obj_val :: metaobj
  le_lsn :: int
  le_sector_bda :: u64
  le_txid :: int
  le_obj_idx :: u32
  le_checksum :: u32
  le_more :: u32
  le_pad :: "u8 list"

text \<open>The object after \<open>memset\<close>.\<close>

definition zero_metaobj :: metaobj where
  "zero_metaobj = \<lparr>mo_number = 0, mo_version = 0, mo_next = 0, mo_prev = 0, mo_type = 0, mo_used = 0,
     mo_padding = [0, 0], mo_checksum = 0,
     mo_data = BT \<lparr>bt_ino = 0, bt_blkid = 0, bt_dstatus = 0, bt_ndiscard = 0, bt_holelen = 0,
                   bt_holeoff = 0\<rparr> (replicate 56 0)\<rparr>"

definition logentry_bytes :: "logentry \<Rightarrow> u8 list" where
  "logentry_bytes le =
     metaobj_bytes (le_obj_val le) @ le64 (word_of_int (le_lsn le)) @ le64 (le_sector_bda le) @
     le64 (word_of_int (le_txid le)) @ le32 (le_obj_idx le) @ le32 (le_checksum le) @
     le32 (le_more le) @ le_pad le"

definition logentry_crc :: "(u32 \<Rightarrow> u8 list \<Rightarrow> u32) \<Rightarrow> logentry \<Rightarrow> u32" where
  "logentry_crc crc le = crc32c_compute crc (logentry_bytes le) 156"

section \<open>Access to operations\<close>

definition tx_op :: "'cb tx \<Rightarrow> nat \<Rightarrow> 'cb txop option" where
  "tx_op tx a = List.find (\<lambda>t. top_addr t = a) (t_ops tx)"

definition tx_upd :: "nat \<Rightarrow> ('cb txop \<Rightarrow> 'cb txop) \<Rightarrow> 'cb tx \<Rightarrow> 'cb tx" where
  "tx_upd a f tx = tx\<lparr>t_ops := map (\<lambda>t. if top_addr t = a then f t else t) (t_ops tx)\<rparr>"

definition txop_key :: "metaobj \<Rightarrow> u8 \<times> u64" where
  "txop_key mo = (mo_type mo, mo_number mo)"

section \<open>Creation\<close>

definition pfs_tx_get :: "int \<Rightarrow> bool \<Rightarrow> 'cb tx" where
  "pfs_tx_get type timeoutfail =
     \<lparr>t_type = type, t_id = - 1, t_error = 0, t_done = False, t_timeoutfail = timeoutfail,
      t_nops = 0, t_ops = [], t_opsroot = (\<lambda>_. None), t_ncbs = 0, t_cbs = [], t_addr = 0\<rparr>"

definition pfs_txop_create :: "nat \<Rightarrow> u32 \<Rightarrow> 'cb txop" where
  "pfs_txop_create a flags =
     \<lparr>top_addr = a, top_local = zero_metaobj, top_flags = flags, top_buf = None, top_bda = 0,
      top_idx = 0, top_cb = None, top_dup_head = None, top_shadow = [], top_dup_cnt = 0,
      top_dup_idx = 0\<rparr>"

definition pfs_tx_new_op :: "bool \<Rightarrow> 'cb tx \<Rightarrow> int + nat \<times> 'cb tx" where
  "pfs_tx_new_op mem tx =
     (if \<not> mem then Inl (- ENOMEM)
      else Inr (t_addr tx, tx\<lparr>t_nops := t_nops tx + 1,
                  t_ops := t_ops tx @ [pfs_txop_create (t_addr tx) 0],
                  t_addr := Suc (t_addr tx)\<rparr>))"

text \<open>\<open>tsearch\<close> with the key of \<open>mo\<close> on behalf of the operation at \<open>a\<close>: the operation found
  or inserted, and the tree.\<close>

definition pfs_tx_index_op :: "'cb tx \<Rightarrow> nat \<Rightarrow> metaobj \<Rightarrow> nat \<times> 'cb tx" where
  "pfs_tx_index_op tx a mo =
     (case t_opsroot tx (txop_key mo) of
        Some d \<Rightarrow> (d, tx)
      | None \<Rightarrow> (a, tx\<lparr>t_opsroot := (t_opsroot tx)(txop_key mo := Some a)\<rparr>))"

definition pfs_tx_find_mo :: "'cb tx \<Rightarrow> metaobj \<Rightarrow> metaobj option" where
  "pfs_tx_find_mo tx mo =
     (case t_opsroot tx (txop_key mo) of
        None \<Rightarrow> None
      | Some d \<Rightarrow> map_option top_local (tx_op tx d))"

text \<open>\<open>pfs_txop_init\<close>: \<open>buf\<close> the sector buffer, \<open>obj_meta\<close> the object at index \<open>oid\<close> of it. The
  result is the operation whose \<open>top_local\<close> the caller may modify.\<close>

definition pfs_txop_init ::
    "'cb tx \<Rightarrow> nat \<Rightarrow> u64 \<Rightarrow> metaobj \<Rightarrow> nat \<Rightarrow> u64 \<Rightarrow> (nat \<times> 'cb tx) option" where
  "pfs_txop_init tx a buf obj_meta oid bda =
     (case tx_op tx a of
        None \<Rightarrow> None
      | Some tp \<Rightarrow>
          if top_flags tp \<noteq> 0 then None
          else
            let tx1 = tx_upd a (\<lambda>t. t\<lparr>top_buf := Some buf, top_bda := bda, top_idx := oid,
                        top_flags := top_flags t OR TOP_FLG_INITED,
                        top_local := (top_local t)\<lparr>mo_type := mo_type obj_meta,
                                                  mo_number := mo_number obj_meta\<rparr>\<rparr>) tx;
                (duphead, tx2) = pfs_tx_index_op tx1 a obj_meta;
                tx3 = (if duphead = a then tx_upd a (\<lambda>t. t\<lparr>top_local := obj_meta\<rparr>) tx2 else tx2);
                tx4 = tx_upd a (\<lambda>t. t\<lparr>top_dup_head := Some duphead, top_dup_cnt := 0\<rparr>) tx3
            in (case tx_op tx4 duphead of
                  None \<Rightarrow> None
                | Some dh \<Rightarrow>
                    Some (duphead,
                      tx_upd duphead (\<lambda>t. t\<lparr>top_dup_cnt := top_dup_cnt t + 1\<rparr>)
                        (tx_upd a (\<lambda>t. t\<lparr>top_dup_idx := top_dup_cnt dh\<rparr>) tx4))))"

text \<open>The object a reader sees: the transaction's own version once it has one, unless the
  transaction is done.\<close>

definition pfs_tx_get_mo :: "'cb tx option \<Rightarrow> metaobj \<Rightarrow> metaobj" where
  "pfs_tx_get_mo txo obj_meta =
     (case txo of
        None \<Rightarrow> obj_meta
      | Some tx \<Rightarrow>
          if t_done tx then obj_meta
          else (case pfs_tx_find_mo tx obj_meta of Some mo \<Rightarrow> mo | None \<Rightarrow> obj_meta))"

definition pfs_txop_recreate ::
    "(u32 \<Rightarrow> u8 list \<Rightarrow> u32) \<Rightarrow> nat \<Rightarrow> logentry \<Rightarrow> 'cb txop option" where
  "pfs_txop_recreate crc a le =
     (let tp = (pfs_txop_create a TOP_FLG_RECREATE)\<lparr>top_idx := unat (le_obj_idx le),
                  top_bda := le_sector_bda le, top_local := le_obj_val le\<rparr>
      in if pfs_metaobj_check_crc crc (le_obj_val le) \<and> mo_type (le_obj_val le) \<noteq> MT_NONE
         then Some tp else None)"

definition pfs_tx_recreate_op ::
    "(u32 \<Rightarrow> u8 list \<Rightarrow> u32) \<Rightarrow> bool \<Rightarrow> 'cb tx \<Rightarrow> logentry \<Rightarrow> (int + 'cb tx) option" where
  "pfs_tx_recreate_op crc mem tx le =
     (if \<not> mem then Some (Inl (- ENOMEM))
      else (case pfs_txop_recreate crc (t_addr tx) le of
              None \<Rightarrow> None
            | Some tp \<Rightarrow> Some (Inr (tx\<lparr>t_ops := t_ops tx @ [tp], t_nops := t_nops tx + 1,
                                       t_addr := Suc (t_addr tx)\<rparr>))))"

section \<open>Completion\<close>

definition pfs_txop_update ::
    "(u32 \<Rightarrow> u8 list \<Rightarrow> u32) \<Rightarrow> 'cb tx \<Rightarrow> nat \<Rightarrow> 'cb option \<Rightarrow> 'cb tx option" where
  "pfs_txop_update crc tx a cb =
     (case tx_op tx a of
        None \<Rightarrow> None
      | Some tp \<Rightarrow>
          if top_buf tp = None \<or>
             top_flags tp AND (TOP_FLG_INITED OR TOP_FLG_DONE) \<noteq> TOP_FLG_INITED then None
          else
            (case top_dup_head tp of
               None \<Rightarrow> None
             | Some dh \<Rightarrow>
                 let tx1 = tx_upd dh (\<lambda>t. t\<lparr>top_local :=
                             (top_local t)\<lparr>mo_checksum := metaobj_crc crc (top_local t)\<rparr>\<rparr>) tx;
                     tx2 = tx_upd a (\<lambda>t. t\<lparr>top_cb := cb, top_flags := top_flags t OR TOP_FLG_DONE\<rparr>) tx1;
                     tx3 = tx_upd dh (\<lambda>t. t\<lparr>top_dup_cnt := top_dup_cnt t - 1\<rparr>) tx2
                 in (case (tx_op tx3 dh, tx_op tx3 a) of
                       (Some d, Some t) \<Rightarrow>
                         if top_dup_idx t = top_dup_cnt d \<and> top_dup_cnt t = 0 then Some tx3 else None
                     | _ \<Rightarrow> None)))"

text \<open>\<open>pfs_txop_merge\<close>, after \<open>tp\<close> left the list: a callback is kept on the chain of the
  operation it is merged into.\<close>

definition pfs_txop_merge :: "'cb tx \<Rightarrow> nat \<Rightarrow> 'cb txop \<Rightarrow> 'cb tx option" where
  "pfs_txop_merge tx dh tp =
     (case tx_op tx dh of
        None \<Rightarrow> None
      | Some d \<Rightarrow>
          if top_flags d AND TOP_FLG_INITED \<noteq> 0 \<and> top_flags tp AND TOP_FLG_DONE \<noteq> 0 \<and>
             top_shadow tp = []
          then Some (case top_cb tp of
                       None \<Rightarrow> tx
                     | Some cb \<Rightarrow> tx_upd dh (\<lambda>t. t\<lparr>top_shadow := cb # top_shadow t\<rparr>) tx)
          else None)"

definition pfs_tx_done_op ::
    "(u32 \<Rightarrow> u8 list \<Rightarrow> u32) \<Rightarrow> 'cb tx \<Rightarrow> nat \<Rightarrow> 'cb option \<Rightarrow> 'cb tx option" where
  "pfs_tx_done_op crc tx a cb =
     (case pfs_txop_update crc tx a cb of
        None \<Rightarrow> None
      | Some tx1 \<Rightarrow>
          (case tx_op tx1 a of
             None \<Rightarrow> None
           | Some tp \<Rightarrow>
               if top_dup_head tp = Some a then Some tx1
               else
                 (case top_dup_head tp of
                    None \<Rightarrow> None
                  | Some dh \<Rightarrow>
                      pfs_txop_merge (tx1\<lparr>t_ops := filter (\<lambda>t. top_addr t \<noteq> a) (t_ops tx1),
                                          t_nops := t_nops tx1 - 1\<rparr>) dh tp)))"

definition pfs_tx_add_callback :: "'cb tx \<Rightarrow> 'cb \<Rightarrow> int \<Rightarrow> 'cb tx option" where
  "pfs_tx_add_callback tx cbfunc cbdata =
     (if t_type tx = TXT_WRITE
      then Some (tx\<lparr>t_cbs := t_cbs tx @ [(cbfunc, cbdata)], t_ncbs := t_ncbs tx + 1\<rparr>) else None)"

text \<open>\<open>pfs_tx_do_callback\<close>: the calls in the order they are made, those of the operations
  with the object, then those of the transaction with their argument.\<close>

definition pfs_txop_do_callback :: "'cb txop \<Rightarrow> ('cb \<times> metaobj) list" where
  "pfs_txop_do_callback tp =
     map (\<lambda>cb. (cb, top_local tp))
       ((case top_cb tp of Some cb \<Rightarrow> [cb] | None \<Rightarrow> []) @ top_shadow tp)"

definition pfs_tx_do_callback :: "'cb tx \<Rightarrow> (('cb \<times> metaobj) list \<times> ('cb \<times> int) list) option" where
  "pfs_tx_do_callback tx =
     (if t_cbs tx \<noteq> [] \<and> t_type tx \<noteq> TXT_WRITE then None
      else Some (concat (map pfs_txop_do_callback (t_ops tx)), t_cbs tx))"

section \<open>Log entries\<close>

text \<open>\<open>has_next\<close> tells whether the operation has a successor in the transaction.\<close>

definition pfs_txop_log ::
    "(u32 \<Rightarrow> u8 list \<Rightarrow> u32) \<Rightarrow> int \<Rightarrow> 'cb txop \<Rightarrow> int \<Rightarrow> bool \<Rightarrow> logentry option" where
  "pfs_txop_log crc txid tp lsn has_next =
     (if top_flags tp AND TOP_FLG_DONE \<noteq> 0 \<and> pfs_metaobj_check_crc crc (top_local tp) \<and>
         mo_type (top_local tp) \<noteq> MT_NONE
      then
        let le = \<lparr>le_obj_val = top_local tp, le_lsn = lsn, le_sector_bda = top_bda tp, le_txid = txid,
                  le_obj_idx = of_nat (top_idx tp), le_checksum = 0,
                  le_more = (if has_next then 1 else 0), le_pad = replicate 92 0\<rparr>
        in Some (le\<lparr>le_checksum := logentry_crc crc le\<rparr>)
      else None)"

section \<open>Redo and undo of an object\<close>

text \<open>\<open>pfs_txop_redo\<close>: the change of the free count, the new object, and the operation with
  its buffer.\<close>

definition pfs_txop_redo ::
    "'cb txop \<Rightarrow> metaobj \<Rightarrow> u64 \<Rightarrow> (int \<times> metaobj \<times> 'cb txop) option" where
  "pfs_txop_redo tp mo buf =
     (if top_flags tp AND TOP_FLG_RECREATE \<noteq> 0 \<and> top_buf tp = None
      then Some (uint (mo_used mo) - uint (mo_used (top_local tp)), top_local tp, tp\<lparr>top_buf := Some buf\<rparr>)
      else None)"

definition pfs_txop_undo :: "'cb txop \<Rightarrow> metaobj \<Rightarrow> int option" where
  "pfs_txop_undo tp mo =
     (if top_flags tp AND TOP_FLG_RECREATE = 0
      then Some (uint (mo_used (top_local tp)) - uint (mo_used mo)) else None)"

text \<open>\<open>pfs_tx_put\<close>: the counters reach zero when the lists are empty.\<close>

definition pfs_tx_put :: "'cb tx \<Rightarrow> unit option" where
  "pfs_tx_put tx =
     pfs_assert (t_nops tx - int (length (t_ops tx)) = 0 \<and> t_ncbs tx - int (length (t_cbs tx)) = 0)"

section \<open>Publication\<close>

text \<open>\<open>pfs_tx_apply\<close>: every operation's object into the memory it came from.\<close>

fun pfs_tx_apply :: "'cb txop list \<Rightarrow> (u64 \<Rightarrow> metaobj list) \<Rightarrow> (u64 \<Rightarrow> metaobj list) option" where
  "pfs_tx_apply [] mem = Some mem"
| "pfs_tx_apply (tp # tps) mem =
     (case top_buf tp of
        None \<Rightarrow> None
      | Some buf \<Rightarrow>
          if top_idx tp < length (mem buf) then
            (case pfs_metaobj_cp (top_local tp) (mem buf ! top_idx tp) of
               None \<Rightarrow> None
             | Some mo \<Rightarrow> pfs_tx_apply tps (mem(buf := (mem buf)[top_idx tp := mo])))
          else None)"

end
