(* ===== verification/Pbd.thy ===== *)
theory Pbd
  imports Tx Lease
begin

text \<open>
  The device as the journal code sees it: the leader record, the journal file and the metadata
  sectors; and stateful code that reads and writes it while I/O may fail and the host may
  crash.

  The journal file holds 256-byte entries and is read and written in whole entries, so its
  content is the list of its entries. What happens to the I/Os to come is written down in
  advance as a list of outcomes. A write that fails or is cut off by a crash may have reached
  the device in part: the flags say which of its units (entries, or the single sector) did.
  Likewise for the answers of \<open>trylock\<close> and the clock. A theorem over all such lists is a
  theorem over everything the device can do. When a list is used up, I/O succeeds.

  A computation returns, aborts (\<open>Abrt\<close>, a failed assertion) or is cut off (\<open>Crash\<close>).
\<close>

section \<open>The world\<close>

text \<open>\<open>IoErr e fs\<close> is answered by the code \<open>-(e+1)\<close>.\<close>

datatype io_res = IoOk | IoErr nat "bool list" | IoCrash "bool list"

record pbd =
  d_leader :: leader_record
  d_journal :: "logentry list"
  d_sect :: "u64 \<Rightarrow> metaobj list"

record world =
  w_pbd :: pbd
  w_ios :: "io_res list"
  w_lios :: "io_res list"
  w_trylock :: "bool list"
  w_clock :: "int list"

datatype 'a outcome = Val 'a | Abrt | Crash

type_synonym 'a io = "world \<Rightarrow> 'a outcome \<times> world"

definition ret :: "'a \<Rightarrow> 'a io" where
  "ret x w = (Val x, w)"

definition abrt :: "'a io" where
  "abrt w = (Abrt, w)"

definition bindW :: "'a io \<Rightarrow> ('a \<Rightarrow> 'b io) \<Rightarrow> 'b io" where
  "bindW m f w =
     (case m w of
        (Val x, w1) \<Rightarrow> f x w1
      | (Abrt, w1) \<Rightarrow> (Abrt, w1)
      | (Crash, w1) \<Rightarrow> (Crash, w1))"

definition assertW :: "bool \<Rightarrow> 'a io \<Rightarrow> 'a io" where
  "assertW c m = (if c then m else abrt)"

text \<open>A pure step that may fail an assertion.\<close>

definition liftW :: "'a option \<Rightarrow> 'a io" where
  "liftW x = (case x of None \<Rightarrow> abrt | Some y \<Rightarrow> ret y)"

text \<open>The outcomes of I/O on sectors and the journal, and of I/O on the leader record.\<close>

definition next_io :: "world \<Rightarrow> io_res \<times> world" where
  "next_io w = (case w_ios w of [] \<Rightarrow> (IoOk, w) | r # rs \<Rightarrow> (r, w\<lparr>w_ios := rs\<rparr>))"

definition next_lio :: "world \<Rightarrow> io_res \<times> world" where
  "next_lio w = (case w_lios w of [] \<Rightarrow> (IoOk, w) | r # rs \<Rightarrow> (r, w\<lparr>w_lios := rs\<rparr>))"

definition trylock :: "bool io" where
  "trylock w = (case w_trylock w of [] \<Rightarrow> (Val True, w) | b # bs \<Rightarrow> (Val b, w\<lparr>w_trylock := bs\<rparr>))"

text \<open>The seconds of \<open>CLOCK_REALTIME\<close>.\<close>

definition clock_sec :: "int io" where
  "clock_sec w = (case w_clock w of [] \<Rightarrow> (Val 0, w) | t # ts \<Rightarrow> (Val t, w\<lparr>w_clock := ts\<rparr>))"

section \<open>Device access\<close>

text \<open>A write of \<open>n\<close> units: \<open>upd\<close> turns the flags of the units that reached the device into
  the new device. The answer is \<open>okval\<close> or a negative code.\<close>

definition transfer ::
    "(world \<Rightarrow> io_res \<times> world) \<Rightarrow> nat \<Rightarrow> (bool list \<Rightarrow> pbd \<Rightarrow> pbd) \<Rightarrow> int \<Rightarrow> int io" where
  "transfer nxt n upd okval w =
     (case nxt w of
        (IoOk, w1) \<Rightarrow> (Val okval, w1\<lparr>w_pbd := upd (replicate n True) (w_pbd w1)\<rparr>)
      | (IoErr e fs, w1) \<Rightarrow> (Val (- int e - 1), w1\<lparr>w_pbd := upd fs (w_pbd w1)\<rparr>)
      | (IoCrash fs, w1) \<Rightarrow> (Crash, w1\<lparr>w_pbd := upd fs (w_pbd w1)\<rparr>))"

fun overwrite :: "bool list \<Rightarrow> 'a list \<Rightarrow> 'a list \<Rightarrow> nat \<Rightarrow> 'a list" where
  "overwrite (f # fs) (x # xs) ys i = overwrite fs xs (if f then ys[i := x] else ys) (Suc i)"
| "overwrite _ _ ys i = ys"

text \<open>\<open>pfsdev_pwrite\<close> of one metadata sector.\<close>

definition sect_write :: "u64 \<Rightarrow> metaobj list \<Rightarrow> int io" where
  "sect_write bda sect =
     transfer next_io 1 (\<lambda>fs d. if fs \<noteq> [] \<and> hd fs then d\<lparr>d_sect := (d_sect d)(bda := sect)\<rparr> else d) 4096"

text \<open>\<open>pfs_file_pwrite\<close> and \<open>pfs_file_pread\<close> on the journal file, lengths and offsets in
  bytes.\<close>

definition journal_pwrite :: "logentry list \<Rightarrow> nat \<Rightarrow> nat \<Rightarrow> int io" where
  "journal_pwrite buf len offset =
     (let n = len div 256
      in transfer next_io n (\<lambda>fs d. d\<lparr>d_journal := overwrite fs (take n buf) (d_journal d) (offset div 256)\<rparr>)
           (int len))"

definition journal_pread :: "nat \<Rightarrow> nat \<Rightarrow> (int \<times> logentry list) io" where
  "journal_pread len offset w =
     (case next_io w of
        (IoOk, w1) \<Rightarrow> (Val (int len, take (len div 256) (drop (offset div 256) (d_journal (w_pbd w1)))), w1)
      | (IoErr e fs, w1) \<Rightarrow> (Val (- int e - 1, []), w1)
      | (IoCrash fs, w1) \<Rightarrow> (Crash, w1))"

text \<open>The programs of \<open>Lease\<close> that read and write the leader record, run on the device. The
  other interactions do not occur in them.\<close>

definition leader_pwrite :: "int \<Rightarrow> leader_record \<Rightarrow> int io" where
  "leader_pwrite sectsize lr =
     transfer next_lio 1 (\<lambda>fs d. if fs \<noteq> [] \<and> hd fs then d\<lparr>d_leader := lr\<rparr> else d) sectsize"

definition leader_pread :: "int \<Rightarrow> (int \<times> leader_record) io" where
  "leader_pread sectsize w =
     (case next_lio w of
        (IoOk, w1) \<Rightarrow> (Val (sectsize, d_leader (w_pbd w1)), w1)
      | (IoErr e fs, w1) \<Rightarrow> (Val (- int e - 1, zero_leader_record), w1)
      | (IoCrash fs, w1) \<Rightarrow> (Crash, w1))"

primrec run_prog :: "int \<Rightarrow> 'a prog \<Rightarrow> 'a io" where
  "run_prog sz (Ret x) = ret x"
| "run_prog sz Abort = abrt"
| "run_prog sz Out = abrt"
| "run_prog sz (Sys r k) = abrt"
| "run_prog sz (Clock c k) = abrt"
| "run_prog sz (RdLeader k) = bindW (leader_pread sz) (\<lambda>x. run_prog sz (k x))"
| "run_prog sz (WrLeader lr k) = bindW (leader_pwrite sz lr) (\<lambda>x. run_prog sz (k x))"
| "run_prog sz (RdHost i k) = abrt"
| "run_prog sz (WrHost i hr k) = abrt"

section \<open>Rules\<close>

lemma bindW_simps [simp]:
  "bindW (ret x) f = f x"
  "bindW abrt f = abrt"
  "bindW (bindW m f) g = bindW m (\<lambda>x. bindW (f x) g)"
  by (auto simp: fun_eq_iff bindW_def ret_def abrt_def split: outcome.splits prod.splits)

lemma assertW_simps [simp]: "assertW True m = m" "assertW False m = abrt"
  by (simp_all add: assertW_def)

lemma liftW_simps [simp]: "liftW None = abrt" "liftW (Some x) = ret x"
  by (simp_all add: liftW_def)

lemma length_overwrite [simp]: "length (overwrite fs xs ys i) = length ys"
  by (induction fs xs ys i rule: overwrite.induct) auto

end
