(* ===== verification/Trimgroup.thy ===== *)
theory Trimgroup
  imports Pbd
begin

text \<open>
  Trim groups (\<open>pfs_core/pfs_log.cc\<close>, \<open>pfs_tx.cc\<close>): the dirty metadata sectors of the
  transactions that are in the journal and not yet written in place. Two groups partition the
  journal: the wait group holds the older transactions, which the next trim flushes, the work
  group the younger ones. A sector of the work group is copied out of memory lazily
  (\<open>pfs_log_tryswap_trimgroup\<close>); only when all are copied do the groups change roles.

  In a group at most one sectbuf has a given device address (the search tree \<open>g_rootp\<close>), so
  the address stands for the pointer to it: in \<open>g_rootp\<close> and in \<open>g_sect_empty_first\<close>.
  Transaction ids are \<open>int64_t\<close>, here \<open>int\<close>.
\<close>

section \<open>Data\<close>

record sectbuf =
  s_bda :: u64
  s_txid :: int
  s_buf :: "metaobj list option"
  s_metabuf :: u64

record trimgroup =
  g_ltxid :: int
  g_rtxid :: int
  g_roffset :: u64
  g_nsects :: int
  g_nsects_empty :: int
  g_sect_empty_first :: "u64 option"
  g_sects :: "sectbuf list"
  g_rootp :: "u64 set"

text \<open>The options that steer the groups and the log thread, with their defaults.\<close>

record log_opts =
  trimgroup_nsect_threshold :: int
  trimgroup_ntx_threshold :: int
  trimgroup_ntx_threshold_hard :: int
  log_trim_interval :: int
  trimgroup_nsects_swapinmax :: int
  log_paxos_lease :: int
  log_skip_journal_probe :: int

definition default_log_opts :: log_opts where
  "default_log_opts = \<lparr>trimgroup_nsect_threshold = 32768, trimgroup_ntx_threshold = 20000,
     trimgroup_ntx_threshold_hard = 40000 - 1, log_trim_interval = 10,
     trimgroup_nsects_swapinmax = 2562, log_paxos_lease = 1, log_skip_journal_probe = 1\<rparr>"

text \<open>\<open>OFF_MODULAR_ADD\<close> and \<open>LEN_MODULAR_CUT\<close>.\<close>

definition OFF_MODULAR_ADD :: "u64 \<Rightarrow> u64 \<Rightarrow> u64 \<Rightarrow> u64" where
  "OFF_MODULAR_ADD offset len modulus =
     (let n = offset + len in if n \<ge> modulus then n - modulus else n)"

definition LEN_MODULAR_CUT :: "nat \<Rightarrow> u64 \<Rightarrow> u64 \<Rightarrow> nat" where
  "LEN_MODULAR_CUT len offset modulus =
     (if of_nat len + offset > modulus then unat (modulus - offset) else len)"

section \<open>Sector buffers\<close>

definition pfs_sectbuf_bind :: "int \<Rightarrow> 'cb txop \<Rightarrow> sectbuf option" where
  "pfs_sectbuf_bind txid tp =
     (case top_buf tp of
        None \<Rightarrow> None
      | Some buf \<Rightarrow> Some \<lparr>s_bda = top_bda tp, s_txid = txid, s_buf = None, s_metabuf = buf\<rparr>)"

definition pfs_sectbuf_sync :: "sectbuf \<Rightarrow> 'cb txop \<Rightarrow> sectbuf" where
  "pfs_sectbuf_sync sb tp =
     sb\<lparr>s_buf := map_option (\<lambda>buf. buf[top_idx tp := top_local tp]) (s_buf sb)\<rparr>"

section \<open>Operations of a group\<close>

definition pfs_trimgroup_init :: trimgroup where
  "pfs_trimgroup_init = \<lparr>g_ltxid = 0, g_rtxid = 0, g_roffset = 0, g_nsects = 0, g_nsects_empty = 0,
     g_sect_empty_first = None, g_sects = [], g_rootp = {}\<rparr>"

text \<open>\<open>pfs_trimgroup_nsectors\<close> and \<open>pfs_trimgroup_ntx\<close> return the 64-bit values as \<open>int\<close>.\<close>

definition to_int32 :: "int \<Rightarrow> int" where
  "to_int32 x = sint (word_of_int x :: u32)"

definition pfs_trimgroup_nsectors :: "trimgroup \<Rightarrow> int" where
  "pfs_trimgroup_nsectors grp = to_int32 (g_nsects grp)"

definition pfs_trimgroup_ntx :: "trimgroup \<Rightarrow> int" where
  "pfs_trimgroup_ntx grp = to_int32 (g_rtxid grp - g_ltxid grp)"

definition find_sect :: "u64 \<Rightarrow> sectbuf list \<Rightarrow> sectbuf option" where
  "find_sect b sects = List.find (\<lambda>sb. s_bda sb = b) sects"

text \<open>\<open>TAILQ_NEXT\<close>, as an address.\<close>

fun tailq_next :: "u64 \<Rightarrow> sectbuf list \<Rightarrow> u64 option" where
  "tailq_next b (x # y # zs) = (if s_bda x = b then Some (s_bda y) else tailq_next b (y # zs))"
| "tailq_next b _ = None"

definition remove_sect :: "u64 \<Rightarrow> sectbuf list \<Rightarrow> sectbuf list" where
  "remove_sect b sects = filter (\<lambda>sb. s_bda sb \<noteq> b) sects"

text \<open>One round of the loop of \<open>pfs_trimgroup_insert\<close>. A sector the group already has gets the
  new object and moves to the tail; another one is added, empty.\<close>

definition trimgroup_insert_op :: "int \<Rightarrow> 'cb txop \<Rightarrow> trimgroup \<Rightarrow> trimgroup option" where
  "trimgroup_insert_op txid tp grp =
     (case pfs_sectbuf_bind txid tp of
        None \<Rightarrow> None
      | Some sb \<Rightarrow>
          if s_bda sb \<in> g_rootp grp then
            (case find_sect (s_bda sb) (g_sects grp) of
               None \<Rightarrow> None
             | Some sb2 \<Rightarrow>
                 let sb2' = pfs_sectbuf_sync (sb2\<lparr>s_txid := txid\<rparr>) tp in
                 if \<not> (s_txid sb2 \<le> s_txid sb) then None
                 else if \<not> (g_sect_empty_first grp \<noteq> None \<or> s_buf sb2' \<noteq> None) then None
                 else Some (grp\<lparr>
                   g_sect_empty_first :=
                     (if g_sect_empty_first grp = Some (s_bda sb2) \<and>
                         tailq_next (s_bda sb2) (g_sects grp) \<noteq> None
                      then tailq_next (s_bda sb2) (g_sects grp) else g_sect_empty_first grp),
                   g_sects := remove_sect (s_bda sb2) (g_sects grp) @ [sb2']\<rparr>))
          else if g_nsects_empty grp = 0 \<and> g_sect_empty_first grp \<noteq> None then None
          else Some (grp\<lparr>g_nsects := g_nsects grp + 1, g_sects := g_sects grp @ [sb],
                 g_rootp := insert (s_bda sb) (g_rootp grp),
                 g_sect_empty_first :=
                   (if g_nsects_empty grp = 0 then Some (s_bda sb) else g_sect_empty_first grp),
                 g_nsects_empty := g_nsects_empty grp + 1\<rparr>))"

fun trimgroup_insert_ops :: "int \<Rightarrow> 'cb txop list \<Rightarrow> trimgroup \<Rightarrow> trimgroup option" where
  "trimgroup_insert_ops txid [] grp = Some grp"
| "trimgroup_insert_ops txid (tp # tps) grp =
     (case trimgroup_insert_op txid tp grp of
        None \<Rightarrow> None
      | Some grp1 \<Rightarrow> trimgroup_insert_ops txid tps grp1)"

definition pfs_trimgroup_insert ::
    "trimgroup \<Rightarrow> int \<Rightarrow> u64 \<Rightarrow> 'cb txop list \<Rightarrow> u64 \<Rightarrow> trimgroup option" where
  "pfs_trimgroup_insert grp txid logused opsq logsize =
     (if txid \<noteq> g_rtxid grp + 1 then None
      else (case trimgroup_insert_ops txid opsq grp of
              None \<Rightarrow> None
            | Some grp1 \<Rightarrow> Some (grp1\<lparr>g_rtxid := txid,
                             g_roffset := OFF_MODULAR_ADD (g_roffset grp1) logused logsize\<rparr>)))"

text \<open>The \<open>while\<close> loop of \<open>pfs_trimgroup_delete\<close>, on the list that is left.\<close>

fun trimgroup_delete_loop :: "int \<Rightarrow> sectbuf list \<Rightarrow> trimgroup \<Rightarrow> trimgroup" where
  "trimgroup_delete_loop to_txid [] grp = grp\<lparr>g_sects := []\<rparr>"
| "trimgroup_delete_loop to_txid (sb # sbs) grp =
     (if s_txid sb \<le> to_txid then
        trimgroup_delete_loop to_txid sbs
          (grp\<lparr>g_rootp := g_rootp grp - {s_bda sb},
               g_nsects_empty := g_nsects_empty grp - (if s_buf sb = None then 1 else 0),
               g_sect_empty_first :=
                 (if g_sect_empty_first grp = Some (s_bda sb)
                  then (case sbs of [] \<Rightarrow> None | x # _ \<Rightarrow> Some (s_bda x))
                  else g_sect_empty_first grp),
               g_nsects := g_nsects grp - 1\<rparr>)
      else grp\<lparr>g_sects := sb # sbs\<rparr>)"

definition pfs_trimgroup_delete :: "trimgroup \<Rightarrow> int \<Rightarrow> trimgroup" where
  "pfs_trimgroup_delete grp to_txid =
     (if to_txid \<le> g_ltxid grp then grp
      else let grp1 = trimgroup_delete_loop to_txid (g_sects grp) grp
           in grp1\<lparr>g_ltxid := min to_txid (g_rtxid grp1)\<rparr>)"

text \<open>\<open>pfs_trimgroup_flush\<close>: the number of sectors written, or the code of the first failed
  write. The caller takes \<open>tail_txid\<close> and \<open>tail_offset\<close> from the group when it is positive.\<close>

fun trimgroup_flush_loop :: "trimgroup \<Rightarrow> sectbuf list \<Rightarrow> int \<Rightarrow> int io" where
  "trimgroup_flush_loop grp [] n = ret n"
| "trimgroup_flush_loop grp (sb # sbs) n =
     assertW (s_txid sb > g_ltxid grp \<and> s_txid sb \<le> g_rtxid grp)
       (bindW (liftW (s_buf sb)) (\<lambda>buf.
          bindW (sect_write (s_bda sb) buf) (\<lambda>rv.
            if rv < 0 then ret rv else trimgroup_flush_loop grp sbs (n + 1))))"

definition pfs_trimgroup_flush :: "trimgroup \<Rightarrow> int io" where
  "pfs_trimgroup_flush grp = trimgroup_flush_loop grp (g_sects grp) 0"

section \<open>The swap of the groups\<close>

text \<open>The copy loop of \<open>pfs_log_tryswap_trimgroup\<close> from the sectbuf \<open>sb\<close> on: how many of the
  \<open>nswapin\<close> copies and of the empty sectbufs are left, and where \<open>sb\<close> stands at the end.\<close>

fun swap_fill ::
    "(u64 \<Rightarrow> metaobj list) \<Rightarrow> int \<Rightarrow> int \<Rightarrow> sectbuf list \<Rightarrow> sectbuf list \<times> int \<times> u64 option" where
  "swap_fill mem nswapin nempty [] = ([], nempty, None)"
| "swap_fill mem nswapin nempty (sb # sbs) =
     (if s_buf sb = None then
        let sb1 = sb\<lparr>s_buf := Some (mem (s_metabuf sb))\<rparr> in
        if nempty - 1 = 0 then (sb1 # sbs, nempty - 1, Some (s_bda sb))
        else if nswapin - 1 = 0 then
          (sb1 # sbs, nempty - 1, (case sbs of [] \<Rightarrow> None | x # _ \<Rightarrow> Some (s_bda x)))
        else
          (let (sbs1, e, p) = swap_fill mem (nswapin - 1) (nempty - 1) sbs in (sb1 # sbs1, e, p))
      else
        (let (sbs1, e, p) = swap_fill mem nswapin nempty sbs in (sb # sbs1, e, p)))"

text \<open>The sectbufs before the one at \<open>b\<close>, and those from it on.\<close>

definition before_sect :: "u64 \<Rightarrow> sectbuf list \<Rightarrow> sectbuf list" where
  "before_sect b sects = takeWhile (\<lambda>sb. s_bda sb \<noteq> b) sects"

definition from_sect :: "u64 \<Rightarrow> sectbuf list \<Rightarrow> sectbuf list" where
  "from_sect b sects = dropWhile (\<lambda>sb. s_bda sb \<noteq> b) sects"

text \<open>The second half, from \<open>direct_swap\<close> on: the groups change roles when the wait group is
  empty and there is a reason to.\<close>

definition direct_swap ::
    "log_opts \<Rightarrow> bool \<Rightarrow> trimgroup \<Rightarrow> trimgroup \<Rightarrow> trimgroup \<times> trimgroup" where
  "direct_swap lo force workgrp waitgrp =
     (if pfs_trimgroup_ntx waitgrp > 0 then (workgrp, waitgrp)
      else if \<not> force \<and> pfs_trimgroup_nsectors workgrp < trimgroup_nsect_threshold lo \<and>
              pfs_trimgroup_ntx workgrp < trimgroup_ntx_threshold lo then (workgrp, waitgrp)
      else (waitgrp\<lparr>g_ltxid := g_rtxid workgrp, g_rtxid := g_rtxid workgrp,
                    g_roffset := g_roffset workgrp\<rparr>, workgrp))"

abbreviation LOG_LOAD :: nat where "LOG_LOAD \<equiv> 1"
abbreviation LOG_REPLAYDONE :: nat where "LOG_REPLAYDONE \<equiv> 2"
abbreviation LOG_TRIM :: nat where "LOG_TRIM \<equiv> 3"
abbreviation LOG_POLL :: nat where "LOG_POLL \<equiv> 4"
abbreviation LOG_TRY_RESET_LOCK :: nat where "LOG_TRY_RESET_LOCK \<equiv> 5"
abbreviation LOG_WRITE :: nat where "LOG_WRITE \<equiv> 6"
abbreviation LOG_FLUSH :: nat where "LOG_FLUSH \<equiv> 7"
abbreviation LOG_SUSPEND :: nat where "LOG_SUSPEND \<equiv> 8"
abbreviation LOG_RESUME :: nat where "LOG_RESUME \<equiv> 9"
abbreviation LOG_STOP :: nat where "LOG_STOP \<equiv> 10"
abbreviation LOG_NREQ :: nat where "LOG_NREQ \<equiv> 11"
abbreviation LOG_REPLAY_WAIT :: nat where "LOG_REPLAY_WAIT \<equiv> 12"

text \<open>\<open>pfs_log_tryswap_trimgroup\<close>: the return value, the work group and the wait group. \<open>mem\<close> is
  the metadata in memory, \<open>writable\<close> whether the mount is.\<close>

definition over_threshold :: "log_opts \<Rightarrow> trimgroup \<Rightarrow> bool" where
  "over_threshold lo workgrp \<longleftrightarrow> pfs_trimgroup_ntx workgrp \<ge> trimgroup_ntx_threshold lo \<or>
     pfs_trimgroup_nsectors workgrp \<ge> trimgroup_nsect_threshold lo"

definition swap_copy ::
    "log_opts \<Rightarrow> (u64 \<Rightarrow> metaobj list) \<Rightarrow> bool \<Rightarrow> trimgroup \<Rightarrow> trimgroup \<Rightarrow>
     (int \<times> trimgroup \<times> trimgroup) option" where
  "swap_copy lo mem force workgrp waitgrp =
     (let nswapin = (if \<not> force \<and> \<not> over_threshold lo workgrp then trimgroup_nsects_swapinmax lo
                     else g_nsects_empty workgrp)
      in case g_sect_empty_first workgrp of
           None \<Rightarrow> None
         | Some b \<Rightarrow>
             let (sects, nempty, sb) =
                   swap_fill mem nswapin (g_nsects_empty workgrp) (from_sect b (g_sects workgrp));
                 workgrp1 = workgrp\<lparr>g_sects := before_sect b (g_sects workgrp) @ sects,
                                    g_nsects_empty := nempty\<rparr>
             in if nempty \<noteq> 0 then
                  (case sb of
                     None \<Rightarrow> None
                   | Some p \<Rightarrow> Some (nempty, workgrp1\<lparr>g_sect_empty_first := Some p\<rparr>, waitgrp))
                else
                  (let (wk, wt) = direct_swap lo force (workgrp1\<lparr>g_sect_empty_first := None\<rparr>) waitgrp
                   in Some (0, wk, wt)))"

definition pfs_log_tryswap_trimgroup ::
    "log_opts \<Rightarrow> (u64 \<Rightarrow> metaobj list) \<Rightarrow> bool \<Rightarrow> bool \<Rightarrow> nat \<Rightarrow> trimgroup \<Rightarrow> trimgroup \<Rightarrow>
     (int \<times> trimgroup \<times> trimgroup) io" where
  "pfs_log_tryswap_trimgroup lo mem writable force handle_type workgrp waitgrp =
     (let nswapin = g_nsects_empty workgrp in
      if \<not> writable then ret (- nswapin, workgrp, waitgrp)
      else if nswapin = 0 then
        (let (wk, wt) = direct_swap lo force workgrp waitgrp in ret (0, wk, wt))
      else if \<not> force \<and> (handle_type = LOG_WRITE \<or> handle_type = LOG_REPLAYDONE) \<and>
              \<not> over_threshold lo workgrp then ret (- nswapin, workgrp, waitgrp)
      else
        assertW (g_sect_empty_first workgrp \<noteq> None)
          (bindW (if handle_type \<noteq> LOG_WRITE then trylock else ret True) (\<lambda>locked.
             if \<not> locked then ret (- nswapin, workgrp, waitgrp)
             else liftW (swap_copy lo mem force workgrp waitgrp))))"

end
