(* ===== verification/Journal.thy ===== *)
theory Journal
  imports Trimgroup
begin

text \<open>
  The journal (\<open>pfs_core/pfs_log.cc\<close>, \<open>pfs_tx_log\<close> of \<open>pfs_tx.cc\<close>): a ring of log entries
  whose live part is named by the anchors of the leader record. Committing a transaction
  writes its entries behind the head and then moves the head by one write of the leader
  record; trimming writes the wait group's sectors in place and then moves the tail the same
  way; loading and polling read the entries between two anchors back into replay
  transactions.

  \<open>plog\<close> is \<open>pfs_log_t\<close>. Times are whole seconds. A function that asserts is an \<open>io\<close>
  computation or returns an \<open>option\<close>.
\<close>

section \<open>Data\<close>

abbreviation LOGST_NOTLOADED :: nat where "LOGST_NOTLOADED \<equiv> 0"
abbreviation LOGST_SERVING :: nat where "LOGST_SERVING \<equiv> 1"
abbreviation LOGST_SUSPENDED :: nat where "LOGST_SUSPENDED \<equiv> 2"
abbreviation LOGST_STOP :: nat where "LOGST_STOP \<equiv> 3"

abbreviation LOGF_REPLAY_WAIT :: u32 where "LOGF_REPLAY_WAIT \<equiv> 1"
abbreviation LOGF_SPACE_NEEDED :: u32 where "LOGF_SPACE_NEEDED \<equiv> 2"
abbreviation LOGF_TRIM_FORCED :: u32 where "LOGF_TRIM_FORCED \<equiv> 4"

text \<open>\<open>sizeof(pfs_logentry_phy_t)\<close> and \<open>PFS_FRAG_SIZE\<close>.\<close>

abbreviation LE_SIZE :: nat where "LE_SIZE \<equiv> 256"
abbreviation PFS_FRAG_SIZE :: nat where "PFS_FRAG_SIZE \<equiv> 16384"

text \<open>\<open>log_last_head_lsn\<close> is the state of \<open>pfs_group_log_header_checker\<close>, if there is one.\<close>

record plog =
  log_state :: nat
  log_flags :: u32
  log_leader :: leader_record
  log_leader_latest :: leader_record
  log_workbufsz :: nat
  log_workgrp :: trimgroup
  log_waitgrp :: trimgroup
  log_trimts :: int
  log_paxos_got :: bool
  log_paxos_ts :: int
  log_mount :: lease_mnt
  log_last_head_lsn :: "u64 option"

section \<open>Space\<close>

definition pfs_log_usedspace :: "u64 \<Rightarrow> u64 \<Rightarrow> u64 \<Rightarrow> int option" where
  "pfs_log_usedspace logsize toff hoff =
     (let used = sint hoff - sint toff;
          used1 = (if used < 0 then sint (word_of_int used + logsize) else used)
      in if used1 mod int LE_SIZE = 0 then Some used1 else None)"

definition pfs_log_space :: "plog \<Rightarrow> u64 option" where
  "pfs_log_space log =
     (let lr = log_leader log
      in map_option (\<lambda>used. log_size lr - word_of_int used)
           (pfs_log_usedspace (log_size lr) (tail_offset lr) (head_offset lr)))"

section \<open>Trim entries\<close>

definition pfs_log_add_trimentry :: "plog \<Rightarrow> int \<Rightarrow> u64 \<Rightarrow> 'cb txop list \<Rightarrow> plog option" where
  "pfs_log_add_trimentry log txid txspace opsq =
     map_option (\<lambda>grp. log\<lparr>log_workgrp := grp\<rparr>)
       (pfs_trimgroup_insert (log_workgrp log) txid txspace opsq (log_size (log_leader log)))"

definition pfs_log_del_trimentry :: "plog \<Rightarrow> int \<Rightarrow> plog" where
  "pfs_log_del_trimentry log to_txid =
     log\<lparr>log_waitgrp := pfs_trimgroup_delete (log_waitgrp log) to_txid,
         log_workgrp := pfs_trimgroup_delete (log_workgrp log) to_txid\<rparr>"

definition log_tryswap ::
    "log_opts \<Rightarrow> (u64 \<Rightarrow> metaobj list) \<Rightarrow> plog \<Rightarrow> bool \<Rightarrow> nat \<Rightarrow> (int \<times> plog) io" where
  "log_tryswap lo mem log force handle_type =
     bindW (pfs_log_tryswap_trimgroup lo mem (pfs_writable (log_mount log)) force handle_type
              (log_workgrp log) (log_waitgrp log)) (\<lambda>(rv, wk, wt).
       ret (rv, log\<lparr>log_workgrp := wk, log_waitgrp := wt\<rparr>))"

section \<open>The leader record\<close>

text \<open>The writing host's own record is authoritative; the cached copy is taken from it.\<close>

definition pfs_log_paxos_try_acquire :: "plog \<Rightarrow> plog" where
  "pfs_log_paxos_try_acquire log = log\<lparr>log_leader_latest := log_leader log\<rparr>"

definition pfs_log_paxos_expired :: "log_opts \<Rightarrow> plog \<Rightarrow> int \<Rightarrow> bool option" where
  "pfs_log_paxos_expired lo log now =
     (if log_paxos_got log then Some (now - log_paxos_ts log \<ge> log_paxos_lease lo) else None)"

definition pfs_log_paxos_forward_leader :: "lease_env \<Rightarrow> plog \<Rightarrow> (int \<times> plog) io" where
  "pfs_log_paxos_forward_leader env log =
     (let lr = log_leader log; latest = log_leader_latest log;
          latest1 = latest\<lparr>tail_txid := tail_txid lr, head_txid := head_txid lr,
            tail_offset := tail_offset lr, head_offset := head_offset lr, log_size := log_size lr,
            head_lsn := head_lsn lr\<rparr>
      in assertW (tail_txid lr \<ge> tail_txid latest \<and>
                  head_txid lr \<ge> head_txid latest \<and> head_lsn lr \<ge> head_lsn latest \<and>
                  (tail_txid lr > tail_txid latest \<or>
                   head_txid lr > head_txid latest \<and> head_lsn lr > head_lsn latest) \<and>
                  latest1 = lr)
           (bindW (run_prog (uint (mnt_sectsize (log_mount log)))
                     (pfs_leader_write env (log_mount log) latest1)) (\<lambda>(rv, latest2).
              if rv < 0 then
                ret (if rv = PFS_AIO_TIMEOUT then - ETIMEDOUT else rv, log)
              else assertW (rv = PFS_OK) (ret (0, log\<lparr>log_leader_latest := latest2\<rparr>)))))"

section \<open>Reading the ring\<close>

definition pfs_log_check_one :: "lease_env \<Rightarrow> logentry \<Rightarrow> bool" where
  "pfs_log_check_one env le \<longleftrightarrow> le_checksum le = logentry_crc (env_crc env) le"

text \<open>An entry with a zero checksum is of an old version and is not checked.\<close>

definition pfs_log_check :: "lease_env \<Rightarrow> logentry list \<Rightarrow> bool" where
  "pfs_log_check env lebuf \<longleftrightarrow> list_all (\<lambda>le. le_checksum le = 0 \<or> pfs_log_check_one env le) lebuf"

definition pfs_log_read :: "lease_env \<Rightarrow> plog \<Rightarrow> nat \<Rightarrow> u64 \<Rightarrow> (int \<times> logentry list) io" where
  "pfs_log_read env log len offset0 =
     (let size = log_size (log_leader log);
          offset = OFF_MODULAR_ADD offset0 0 size;
          readlen0 = PFS_FRAG_SIZE - unat (offset AND (of_nat PFS_FRAG_SIZE - 1));
          readlen1 = LEN_MODULAR_CUT readlen0 offset size;
          readlen = (if readlen1 > len then len else readlen1)
      in assertW (offset < size)
           (assertW (readlen \<ge> LE_SIZE)
              (bindW (journal_pread readlen (unat offset)) (\<lambda>(rv, les).
                 if rv > 0 then
                   assertW (rv mod int LE_SIZE = 0 \<and> pfs_log_check env les) (ret (rv, les))
                 else ret (rv, les)))))"

text \<open>
  The loop of \<open>pfs_log_scan\<close>. \<open>rest\<close> are the entries of the buffer not looked at yet, \<open>otxq\<close>
  the replay transactions so far, the last of them \<open>tx\<close>. The ring has \<open>log_size / 256\<close>
  entries; a scan that came back to an entry would fail the assertion on \<open>le_lsn\<close>, so that
  many rounds are enough fuel.
\<close>

fun scan_loop ::
    "nat \<Rightarrow> lease_env \<Rightarrow> plog \<Rightarrow> int \<Rightarrow> int \<Rightarrow> u64 \<Rightarrow> int \<Rightarrow> logentry list \<Rightarrow> int \<Rightarrow> int \<Rightarrow> nat \<Rightarrow>
     'cb tx list \<Rightarrow> (int \<times> 'cb tx list) io" where
  "scan_loop 0 env log start_txid stop_txid offset readlen rest last_lsn last_txid nentry otxq = abrt"
| "scan_loop (Suc fuel) env log start_txid stop_txid offset readlen rest last_lsn last_txid nentry otxq =
     bindW
       (if rest = [] then
          let offset1 = OFF_MODULAR_ADD offset (word_of_int readlen) (log_size (log_leader log))
          in assertW (offset < log_size (log_leader log))
               (bindW (pfs_log_read env log (log_workbufsz log) offset1) (\<lambda>(readlen1, les).
                  if readlen1 > 0 then ret (offset1, readlen1, les) else abrt))
        else ret (offset, readlen, rest))
       (\<lambda>(offset1, readlen1, les).
          case les of
            [] \<Rightarrow> abrt
          | le # les1 \<Rightarrow>
              assertW ((last_lsn < 0 \<or> le_lsn le - last_lsn = 1) \<and>
                       (le_txid le - last_txid = 0 \<or> le_txid le - last_txid = 1) \<and>
                       le_txid le - start_txid > 0 \<and> le_txid le - stop_txid \<le> 0)
                (let otxq1 = (if otxq = [] \<or> t_id (last otxq) \<noteq> le_txid le
                              then otxq @ [(pfs_tx_get TXT_REPLAY False)\<lparr>t_id := le_txid le\<rparr>]
                              else otxq)
                 in bindW (liftW (pfs_tx_recreate_op (env_crc env) True (last otxq1) le)) (\<lambda>r.
                      case r of
                        Inl e \<Rightarrow> ret (e, otxq1)
                      | Inr tx1 \<Rightarrow>
                          let otxq2 = butlast otxq1 @ [tx1] in
                          if le_txid le = stop_txid \<and> le_more le = 0
                          then ret (int (Suc nentry * LE_SIZE), otxq2)
                          else scan_loop fuel env log start_txid stop_txid offset1 readlen1 les1
                                 (le_lsn le) (le_txid le) (Suc nentry) otxq2)))"

definition pfs_log_scan ::
    "lease_env \<Rightarrow> plog \<Rightarrow> u64 \<Rightarrow> int \<Rightarrow> int \<Rightarrow> (int \<times> 'cb tx list) io" where
  "pfs_log_scan env log start_offset start_txid stop_txid =
     assertW (start_offset < log_size (log_leader log))
       (if start_txid = stop_txid then ret (0, [])
        else scan_loop (unat (log_size (log_leader log)) div LE_SIZE) env log start_txid stop_txid
               start_offset 0 [] (- 1) start_txid 0 [])"

section \<open>Writing the ring\<close>

text \<open>The loop of \<open>pfs_log_write\<close>. A round writes up to the end of the ring, so two rounds are
  enough.\<close>

fun log_write_loop :: "nat \<Rightarrow> u64 \<Rightarrow> logentry list \<Rightarrow> nat \<Rightarrow> u64 \<Rightarrow> int io" where
  "log_write_loop 0 logsize buf left offset = (if left > 0 then abrt else ret 0)"
| "log_write_loop (Suc fuel) logsize buf left offset =
     (if left > 0 then
        bindW (journal_pwrite buf (LEN_MODULAR_CUT left offset logsize) (unat offset)) (\<lambda>wlen.
          if wlen < 0 then ret wlen
          else log_write_loop fuel logsize (drop (nat wlen div LE_SIZE) buf) (left - nat wlen)
                 (OFF_MODULAR_ADD offset (word_of_int wlen) logsize))
      else ret 0)"

definition pfs_log_write :: "plog \<Rightarrow> logentry list \<Rightarrow> nat \<Rightarrow> u64 \<Rightarrow> int io" where
  "pfs_log_write log buf buflen offset =
     bindW (liftW (pfs_log_space log)) (\<lambda>space.
       assertW (of_nat buflen < space)
         (let logsize = log_size (log_leader log)
          in bindW (log_write_loop 2 logsize buf buflen (OFF_MODULAR_ADD offset 0 logsize)) (\<lambda>rv.
               ret (if rv < 0 then rv else int buflen))))"

text \<open>The loop of \<open>pfs_tx_log\<close>: \<open>buf\<close> are the entries filled in so far. The result is the
  offset behind the last entry written, or the code of a failed write.\<close>

fun tx_log_loop ::
    "lease_env \<Rightarrow> plog \<Rightarrow> int \<Rightarrow> 'cb txop list \<Rightarrow> u64 \<Rightarrow> nat \<Rightarrow> logentry list \<Rightarrow> u64 \<Rightarrow>
     (int + u64 \<times> nat) io" where
  "tx_log_loop env log txid [] lsn nle buf offset =
     (if buf \<noteq> [] then
        bindW (pfs_log_write log buf (length buf * LE_SIZE) offset) (\<lambda>rv.
          ret (if rv < 0 then Inl rv else Inr (offset + word_of_int rv, nle)))
      else ret (Inr (offset, nle)))"
| "tx_log_loop env log txid (tp # tps) lsn nle buf offset =
     bindW (liftW (pfs_txop_log (env_crc env) txid tp (sint (lsn + of_nat (Suc nle))) (tps \<noteq> []))) (\<lambda>le.
       let buf1 = buf @ [le]; len = length buf1 * LE_SIZE in
       if len \<ge> log_workbufsz log then
         assertW (len = log_workbufsz log)
           (bindW (pfs_log_write log buf1 len offset) (\<lambda>rv.
              if rv < 0 then ret (Inl rv)
              else tx_log_loop env log txid tps lsn (Suc nle) [] (offset + word_of_int rv)))
       else tx_log_loop env log txid tps lsn (Suc nle) buf1 offset)"

definition pfs_tx_log ::
    "lease_env \<Rightarrow> plog \<Rightarrow> 'cb tx \<Rightarrow> u64 \<Rightarrow> u64 \<Rightarrow> u64 \<Rightarrow> (int \<times> 'cb tx) io" where
  "pfs_tx_log env log tx htxid hlsn hoff =
     assertW (t_ops tx \<noteq> [])
       (let tx1 = tx\<lparr>t_id := sint (htxid + 1)\<rparr>
        in bindW (tx_log_loop env log (t_id tx1) (t_ops tx1) hlsn 0 [] hoff) (\<lambda>r.
             case r of
               Inl rv \<Rightarrow> ret (rv, tx1)
             | Inr (offset, nle) \<Rightarrow>
                 assertW (int nle = t_nops tx1)
                   (ret (sint (ucast (offset - hoff) :: u32), tx1))))"

definition pfs_log_commit :: "lease_env \<Rightarrow> plog \<Rightarrow> 'cb tx \<Rightarrow> leader_record \<Rightarrow> (int \<times> plog \<times> 'cb tx) io" where
  "pfs_log_commit env log tx latest =
     (let lr = log_leader log in
      if sint (head_txid lr - head_txid latest) < 0 then ret (- EAGAIN, log, tx)
      else
        bindW (pfs_tx_log env log tx (head_txid lr) (head_lsn lr) (head_offset lr)) (\<lambda>(rv, tx1).
          if rv < 0 then ret (rv, log, tx1)
          else
            let lr1 = lr\<lparr>head_txid := head_txid lr + 1, head_lsn := head_lsn lr + word_of_int (rv div int LE_SIZE),
                  head_offset := OFF_MODULAR_ADD (head_offset lr) (word_of_int rv) (log_size lr)\<rparr>
            in bindW (pfs_log_paxos_forward_leader env (log\<lparr>log_leader := lr1\<rparr>)) (\<lambda>(rv2, log2).
                 ret (rv2, if rv2 < 0 then log2\<lparr>log_leader := lr\<rparr> else log2, tx1))))"

section \<open>Trimming\<close>

definition pfs_log_need_trim :: "log_opts \<Rightarrow> plog \<Rightarrow> bool option" where
  "pfs_log_need_trim lo log =
     (if tail_txid (log_leader log) = head_txid (log_leader log) then
        (if g_ltxid (log_workgrp log) = g_rtxid (log_workgrp log) \<and>
            g_ltxid (log_waitgrp log) = g_rtxid (log_waitgrp log) then Some False else None)
      else
        Some (over_threshold lo (log_workgrp log) \<and>
              g_ltxid (log_waitgrp log) < g_rtxid (log_waitgrp log)))"

definition pfs_log_need_trim_hard :: "log_opts \<Rightarrow> plog \<Rightarrow> bool option" where
  "pfs_log_need_trim_hard lo log =
     (if pfs_trimgroup_ntx (log_workgrp log) \<ge> trimgroup_ntx_threshold_hard lo
      then (if trimgroup_ntx_threshold_hard lo > trimgroup_ntx_threshold lo then Some True else None)
      else Some False)"

definition pfs_log_trim :: "lease_env \<Rightarrow> plog \<Rightarrow> (int \<times> plog) io" where
  "pfs_log_trim env log =
     bindW (liftW (pfs_log_space log)) (\<lambda>_.
       let lr = log_leader log; grp = log_waitgrp log in
       if g_ltxid grp = g_rtxid grp then ret (0, log)
       else
         assertW (sint (tail_txid lr) = g_ltxid grp \<and> g_rtxid grp = g_ltxid (log_workgrp log))
           (bindW (pfs_trimgroup_flush grp) (\<lambda>nsects.
              if nsects \<le> 0 then ret (nsects, log)
              else
                let log1 = log\<lparr>log_leader := lr\<lparr>tail_txid := word_of_int (g_rtxid grp),
                                                tail_offset := g_roffset grp\<rparr>\<rparr>
                in bindW (pfs_log_paxos_forward_leader env log1) (\<lambda>(rv, log2).
                     if rv < 0 then ret (rv, log2\<lparr>log_leader := lr\<rparr>)
                     else
                       let log3 = pfs_log_del_trimentry log2 (g_rtxid grp)
                       in assertW (g_ltxid (log_waitgrp log3) = g_rtxid (log_waitgrp log3))
                            (ret (0, log3))))))"

section \<open>Following the journal\<close>

text \<open>The leader record a load or a poll works with: the one it is given, or the one on the
  device.\<close>

definition read_latest :: "lease_env \<Rightarrow> plog \<Rightarrow> (int \<times> leader_record) io" where
  "read_latest env log =
     run_prog (uint (mnt_sectsize (log_mount log))) (pfs_leader_read env (log_mount log))"

definition note_head_lsn :: "u64 \<Rightarrow> plog \<Rightarrow> plog" where
  "note_head_lsn lsn log = log\<lparr>log_last_head_lsn := map_option (\<lambda>_. lsn) (log_last_head_lsn log)\<rparr>"

definition log_load_from :: "lease_env \<Rightarrow> plog \<Rightarrow> leader_record \<Rightarrow> (int \<times> plog \<times> 'cb tx list) io" where
  "log_load_from env log latest =
     (let lr = log_leader log in
      assertW (tail_txid lr \<le> tail_txid latest \<and> head_txid lr \<le> head_txid latest)
        (if head_txid lr < tail_txid latest then ret (- EAGAIN, log, [])
         else
           bindW (pfs_log_scan env log (tail_offset lr) (sint (tail_txid lr)) (sint (head_txid latest)))
             (\<lambda>(rv, otxq).
                if rv < 0 then ret (rv, log, otxq)
                else ret (rv, log\<lparr>log_leader := lr\<lparr>tail_txid := tail_txid latest,
                                    tail_offset := tail_offset latest, head_txid := head_txid latest,
                                    head_offset := head_offset latest, head_lsn := head_lsn latest\<rparr>\<rparr>,
                          otxq))))"

definition pfs_log_load ::
    "lease_env \<Rightarrow> plog \<Rightarrow> leader_record option \<Rightarrow> (int \<times> plog \<times> 'cb tx list) io" where
  "pfs_log_load env log latest0 =
     (case latest0 of
        Some latest \<Rightarrow> log_load_from env log latest
      | None \<Rightarrow>
          bindW (read_latest env log) (\<lambda>(rv, latest).
            if rv < 0 then ret (rv, log, [])
            else log_load_from env (note_head_lsn (head_lsn latest) log) latest))"

definition log_poll_from :: "lease_env \<Rightarrow> plog \<Rightarrow> leader_record \<Rightarrow> (int \<times> plog \<times> 'cb tx list) io" where
  "log_poll_from env log latest =
     assertW (\<not> sint (head_txid (log_leader log) - tail_txid latest) < 0)
       (let lr = log_leader log;
            log1 = (if tail_txid lr < tail_txid latest
                    then (pfs_log_del_trimentry log (sint (tail_txid latest)))
                           \<lparr>log_leader := lr\<lparr>tail_txid := tail_txid latest, tail_offset := tail_offset latest\<rparr>\<rparr>
                    else log);
            lr1 = log_leader log1
        in bindW (pfs_log_scan env log1 (head_offset lr1) (sint (head_txid lr1)) (sint (head_txid latest)))
             (\<lambda>(rlen, otxq).
                if rlen < 0 then ret (rlen, log1, otxq)
                else ret (rlen,
                  note_head_lsn (head_lsn latest)
                    (log1\<lparr>log_leader := lr1\<lparr>head_txid := head_txid latest, head_offset := head_offset latest,
                                          head_lsn := head_lsn latest\<rparr>\<rparr>), otxq)))"

text \<open>The probe: the entry at the head tells whether anything was appended.\<close>

definition log_poll_probe :: "lease_env \<Rightarrow> log_opts \<Rightarrow> plog \<Rightarrow> (int + unit) io" where
  "log_poll_probe env lo log =
     (if log_skip_journal_probe lo = 1 then ret (Inr ())
      else
        let lr = log_leader log; rlen = 4096 - unat (head_offset lr AND 4095)
        in bindW (pfs_log_read env log rlen (head_offset lr)) (\<lambda>(rv, les).
             if rv < 0 then ret (Inl rv)
             else (case les of
                     [] \<Rightarrow> abrt
                   | le # _ \<Rightarrow> ret (if sint (word_of_int (le_txid le) - head_txid lr) \<le> 0
                                    then Inl 0 else Inr ()))))"

definition pfs_log_poll ::
    "lease_env \<Rightarrow> log_opts \<Rightarrow> plog \<Rightarrow> leader_record option \<Rightarrow> (int \<times> plog \<times> 'cb tx list) io" where
  "pfs_log_poll env lo log latest0 =
     (case latest0 of
        Some latest \<Rightarrow> log_poll_from env log latest
      | None \<Rightarrow>
          bindW (log_poll_probe env lo log) (\<lambda>r.
            case r of
              Inl rv \<Rightarrow> ret (rv, log, [])
            | Inr _ \<Rightarrow>
                bindW (read_latest env log) (\<lambda>(rv, latest).
                  if rv < 0 then ret (rv, log, [])
                  else log_poll_from env log latest)))"

text \<open>\<open>pfs_log_preload\<close>: the leader record is read with device I/O, and the groups start at its
  tail.\<close>

definition pfs_log_preload :: "plog \<Rightarrow> (int \<times> plog) io" where
  "pfs_log_preload log =
     bindW (leader_pread 4096) (\<lambda>(rv, lr).
       if rv < 0 then ret (rv, log)
       else ret (0, log\<lparr>log_leader := lr,
              log_workgrp := pfs_trimgroup_init\<lparr>g_ltxid := sint (tail_txid lr), g_rtxid := sint (tail_txid lr),
                               g_roffset := tail_offset lr\<rparr>,
              log_waitgrp := pfs_trimgroup_init\<rparr>))"

end
