(* ===== verification/Log_Thread.thy ===== *)
theory Log_Thread
  imports Journal
begin

text \<open>
  The log thread (\<open>pfs_core/pfs_log.cc\<close>): requests, their handlers, the dispatcher with its
  steps back from \<open>LOG_WRITE\<close> and \<open>LOG_FLUSH\<close> to \<open>LOG_TRIM\<close>, and one round of the thread's
  main loop. The lease renewal at the top of the round is \<open>log_thread_renew\<close> of \<open>Lease\<close>.

  \<open>lthread\<close> is what the thread works on: \<open>pfs_log_t\<close>, the metadata in memory that a committed
  transaction is applied to, the queues \<open>work_req\<close>, and the replies given so far, oldest
  first. A request is known by \<open>r_id\<close>; \<open>log_trimreq\<close>, the request the thread sends itself, is
  the one of type \<open>LOG_TRIM\<close>. A reply carries what its sender finds when it wakes up: the
  code, the transaction and the replay transactions.
\<close>

section \<open>Data\<close>

record 'cb log_req =
  r_id :: nat
  r_type :: nat
  r_itx :: "'cb tx option"
  r_otxq :: "'cb tx list"
  r_hostid :: u32
  r_next_hostid :: u32

record 'cb log_reply =
  rp_id :: nat
  rp_type :: nat
  rp_error :: int
  rp_itx :: "'cb tx option"
  rp_otxq :: "'cb tx list"

record 'cb lthread =
  th_log :: plog
  th_mem :: "u64 \<Rightarrow> metaobj list"
  th_work :: "nat \<Rightarrow> 'cb log_req list"
  th_replies :: "'cb log_reply list"
  th_reqmask :: u32
  th_swap_ts :: int
  th_sync_signalled :: bool

text \<open>The commands a handler returns.\<close>

datatype log_io = LOG_IO_STOP | LOG_IO_CONT | LOG_IO_BACK

text \<open>What a configuration fixes.\<close>

record log_conf =
  lc_env :: lease_env
  lc_opts :: log_opts

definition log_trimreq :: "'cb log_req" where
  "log_trimreq = \<lparr>r_id = 0, r_type = LOG_TRIM, r_itx = None, r_otxq = [], r_hostid = 0, r_next_hostid = 0\<rparr>"

abbreviation set_work :: "nat \<Rightarrow> 'cb log_req list \<Rightarrow> 'cb lthread \<Rightarrow> 'cb lthread" where
  "set_work i q th \<equiv> th\<lparr>th_work := (th_work th)(i := q)\<rparr>"

abbreviation upd_log :: "(plog \<Rightarrow> plog) \<Rightarrow> 'cb lthread \<Rightarrow> 'cb lthread" where
  "upd_log f th \<equiv> th\<lparr>th_log := f (th_log th)\<rparr>"

definition has_flag :: "u32 \<Rightarrow> 'cb lthread \<Rightarrow> bool" where
  "has_flag fl th \<longleftrightarrow> log_flags (th_log th) AND fl \<noteq> 0"

definition set_flag :: "u32 \<Rightarrow> 'cb lthread \<Rightarrow> 'cb lthread" where
  "set_flag fl th = upd_log (\<lambda>log. log\<lparr>log_flags := log_flags log OR fl\<rparr>) th"

definition clear_flag :: "u32 \<Rightarrow> 'cb lthread \<Rightarrow> 'cb lthread" where
  "clear_flag fl th = upd_log (\<lambda>log. log\<lparr>log_flags := log_flags log AND NOT fl\<rparr>) th"

section \<open>Replies\<close>

text \<open>\<open>pfs_log_replaytx_put\<close>: hand the sectors of replayed transactions to the work group, if
  asked to, and release the transactions.\<close>

fun pfs_log_replaytx_put ::
    "log_conf \<Rightarrow> 'cb tx list \<Rightarrow> bool \<Rightarrow> 'cb lthread \<Rightarrow> 'cb lthread io" where
  "pfs_log_replaytx_put lc [] trim th = ret th"
| "pfs_log_replaytx_put lc (tx # otxq) trim th =
     bindW
       (if trim then
          bindW (liftW (pfs_log_add_trimentry (th_log th) (t_id tx)
                          (ucast (word_of_int (t_nops tx * int LE_SIZE) :: u32)) (t_ops tx))) (\<lambda>log1.
            bindW (log_tryswap (lc_opts lc) (th_mem th) log1 False LOG_REPLAYDONE) (\<lambda>(_, log2).
              ret (th\<lparr>th_log := log2\<rparr>)))
        else ret th)
       (\<lambda>th1. bindW (liftW (pfs_tx_put tx)) (\<lambda>_. pfs_log_replaytx_put lc otxq trim th1))"

definition pfs_log_reply :: "log_conf \<Rightarrow> 'cb log_req \<Rightarrow> int \<Rightarrow> 'cb lthread \<Rightarrow> 'cb lthread io" where
  "pfs_log_reply lc req rv th =
     (let drop_q = rv < 0 \<and> rv \<noteq> - EAGAIN \<and> r_otxq req \<noteq> [] in
      bindW (if drop_q then pfs_log_replaytx_put lc (r_otxq req) False th else ret th) (\<lambda>th1.
        ret (th1\<lparr>th_replies := th_replies th1 @
               [\<lparr>rp_id = r_id req, rp_type = r_type req, rp_error = rv, rp_itx = r_itx req,
                 rp_otxq = (if drop_q then [] else r_otxq req)\<rparr>]\<rparr>)))"

fun reply_all :: "log_conf \<Rightarrow> 'cb log_req list \<Rightarrow> int \<Rightarrow> 'cb lthread \<Rightarrow> 'cb lthread io" where
  "reply_all lc [] rv th = ret th"
| "reply_all lc (req # reqs) rv th = bindW (pfs_log_reply lc req rv th) (reply_all lc reqs rv)"

definition pfs_log_reply_queue :: "log_conf \<Rightarrow> nat \<Rightarrow> int \<Rightarrow> 'cb lthread \<Rightarrow> 'cb lthread io" where
  "pfs_log_reply_queue lc i rv th = reply_all lc (th_work th i) rv (set_work i [] th)"

section \<open>Handlers\<close>

definition pfs_log_handle_load :: "log_conf \<Rightarrow> 'cb lthread \<Rightarrow> (log_io \<times> 'cb lthread) io" where
  "pfs_log_handle_load lc th =
     assertW (log_state (th_log th) = LOGST_NOTLOADED \<and> \<not> has_flag LOGF_REPLAY_WAIT th)
       (case th_work th LOG_LOAD of
          [] \<Rightarrow> abrt
        | req # reqs \<Rightarrow>
            assertW (reqs = [])
              (bindW (pfs_log_load (lc_env lc) (th_log th) None) (\<lambda>(rv, log1, otxq).
                 let th1 = (set_work LOG_LOAD [] th)\<lparr>th_log := log1\<rparr>; req1 = req\<lparr>r_otxq := r_otxq req @ otxq\<rparr> in
                 if rv < 0 then
                   bindW (pfs_log_reply lc req1 rv th1) (\<lambda>th2. ret (LOG_IO_STOP, th2))
                 else if rv = 0 then
                   assertW (tail_txid (log_leader log1) = head_txid (log_leader log1))
                     (bindW (pfs_log_reply lc req1 0 (upd_log (\<lambda>log. log\<lparr>log_state := LOGST_SERVING\<rparr>) th1))
                        (\<lambda>th2. ret (LOG_IO_CONT, th2)))
                 else
                   bindW (pfs_log_reply lc req1 rv (set_flag LOGF_REPLAY_WAIT th1))
                     (\<lambda>th2. ret (LOG_IO_CONT, th2)))))"

definition pfs_log_handle_poll :: "log_conf \<Rightarrow> 'cb lthread \<Rightarrow> (log_io \<times> 'cb lthread) io" where
  "pfs_log_handle_poll lc th =
     assertW (log_state (th_log th) = LOGST_SERVING)
       (if has_flag LOGF_REPLAY_WAIT th then ret (LOG_IO_CONT, th)
        else
          bindW (if log_paxos_got (th_log th)
                 then bindW clock_sec (\<lambda>now. liftW (map_option Not (pfs_log_paxos_expired (lc_opts lc) (th_log th) now)))
                 else ret False) (\<lambda>cached.
            let latest = (if cached then Some (log_leader_latest (th_log th)) else None) in
            case th_work th LOG_POLL of
              [] \<Rightarrow> abrt
            | req # reqs \<Rightarrow>
                bindW (pfs_log_poll (lc_env lc) (lc_opts lc) (th_log th) latest) (\<lambda>(rv, log1, otxq).
                  let req1 = req\<lparr>r_otxq := r_otxq req @ otxq\<rparr>;
                      th1 = (set_work LOG_POLL (req1 # reqs) th)\<lparr>th_log := log1\<rparr> in
                  if rv < 0 then
                    bindW (pfs_log_reply_queue lc LOG_POLL rv th1) (\<lambda>th2. ret (LOG_IO_STOP, th2))
                  else if rv = 0 then
                    assertW (r_otxq req1 = [])
                      (bindW (pfs_log_reply_queue lc LOG_POLL 0 th1) (\<lambda>th2. ret (LOG_IO_CONT, th2)))
                  else
                    assertW (r_otxq req1 \<noteq> [])
                      (bindW (pfs_log_reply lc req1 rv (set_flag LOGF_REPLAY_WAIT (set_work LOG_POLL [] th1)))
                         (\<lambda>th2.
                            bindW (pfs_log_reply_queue lc LOG_WRITE (- EAGAIN)
                                     (set_work LOG_REPLAY_WAIT (th_work th2 LOG_REPLAY_WAIT @ reqs) th2))
                              (\<lambda>th3. ret (LOG_IO_CONT, th3)))))))"

definition pfs_log_handle_try_reset_lock ::
    "log_conf \<Rightarrow> 'cb lthread \<Rightarrow> (log_io \<times> 'cb lthread) io" where
  "pfs_log_handle_try_reset_lock lc th =
     assertW (log_state (th_log th) = LOGST_SERVING)
       (if has_flag LOGF_REPLAY_WAIT th then ret (LOG_IO_STOP, th)
        else
          case th_work th LOG_TRY_RESET_LOCK of
            [] \<Rightarrow> abrt
          | req # reqs \<Rightarrow>
              let mnt = log_mount (th_log th);
                  mnt1 = (if mnt_host_id mnt = r_hostid req then mnt\<lparr>mnt_host_id := r_next_hostid req\<rparr> else mnt);
                  th1 = set_work LOG_TRY_RESET_LOCK reqs (upd_log (\<lambda>log. log\<lparr>log_mount := mnt1\<rparr>) th)
              in bindW (pfs_log_reply lc req 0 th1) (\<lambda>th2. ret (LOG_IO_CONT, th2)))"

definition txspace :: "'cb tx \<Rightarrow> u64" where
  "txspace tx = ucast (word_of_int (t_nops tx * int LE_SIZE) :: u32)"

text \<open>The end of \<open>pfs_log_handle_write\<close>, once the space is there.\<close>

definition log_write_commit ::
    "log_conf \<Rightarrow> 'cb log_req \<Rightarrow> 'cb log_req list \<Rightarrow> 'cb tx \<Rightarrow> 'cb lthread \<Rightarrow> (log_io \<times> 'cb lthread) io" where
  "log_write_commit lc req reqs tx th =
     bindW (pfs_log_commit (lc_env lc) (th_log th) tx (log_leader (th_log th))) (\<lambda>(rv, log1, tx1).
       let req1 = req\<lparr>r_itx := Some tx1\<rparr>; th1 = (set_work LOG_WRITE reqs th)\<lparr>th_log := log1\<rparr> in
       if rv < 0 then
         assertW (reqs = []) (bindW (pfs_log_reply lc req1 rv th1) (\<lambda>th2. ret (LOG_IO_STOP, th2)))
       else
         bindW (liftW (pfs_tx_apply (t_ops tx1) (th_mem th))) (\<lambda>mem1.
           bindW (liftW (pfs_log_add_trimentry log1 (t_id tx1) (txspace tx1) (t_ops tx1))) (\<lambda>log2.
             bindW (log_tryswap (lc_opts lc) mem1 log2 False LOG_WRITE) (\<lambda>(_, log3).
               assertW (g_roffset (log_workgrp log3) = head_offset (log_leader log3) \<and> reqs = [])
                 (bindW (pfs_log_reply lc req1 0 (th1\<lparr>th_log := log3, th_mem := mem1\<rparr>)) (\<lambda>th2.
                    bindW (pfs_log_reply_queue lc LOG_POLL 0 th2) (\<lambda>th3. ret (LOG_IO_CONT, th3))))))))"

definition pfs_log_handle_write :: "log_conf \<Rightarrow> 'cb lthread \<Rightarrow> (log_io \<times> 'cb lthread) io" where
  "pfs_log_handle_write lc th =
     assertW (log_state (th_log th) = LOGST_SERVING)
       (if has_flag LOGF_REPLAY_WAIT th then
          bindW (pfs_log_reply_queue lc LOG_WRITE (- EAGAIN) th) (\<lambda>th1. ret (LOG_IO_CONT, th1))
        else
          let th1 = upd_log pfs_log_paxos_try_acquire th;
              lr = log_leader (th_log th1); latest = log_leader_latest (th_log th1) in
          if tail_txid lr < tail_txid latest then
            ret (LOG_IO_BACK, set_work LOG_TRIM (th_work th1 LOG_TRIM @ [log_trimreq]) th1)
          else
            (case th_work th1 LOG_WRITE of
               [] \<Rightarrow> abrt
             | req # reqs \<Rightarrow>
                 assertW (head_txid lr \<le> head_txid latest)
                   (if head_txid lr < head_txid latest then
                      bindW (pfs_log_poll (lc_env lc) (lc_opts lc) (th_log th1) (Some latest)) (\<lambda>(rv, log2, otxq).
                        let th2 = (set_work LOG_WRITE (req\<lparr>r_otxq := r_otxq req @ otxq\<rparr> # reqs) th1)\<lparr>th_log := log2\<rparr> in
                        assertW (rv \<noteq> 0)
                          (if rv < 0 then
                             bindW (pfs_log_reply_queue lc LOG_WRITE rv th2) (\<lambda>th3. ret (LOG_IO_STOP, th3))
                           else
                             bindW (pfs_log_reply_queue lc LOG_WRITE (- EAGAIN) (set_flag LOGF_REPLAY_WAIT th2))
                               (\<lambda>th3. ret (LOG_IO_CONT,
                                  set_work LOG_POLL []
                                    (set_work LOG_REPLAY_WAIT (th_work th3 LOG_REPLAY_WAIT @ th_work th3 LOG_POLL) th3)))))
                    else
                      (case r_itx req of
                         None \<Rightarrow> abrt
                       | Some tx \<Rightarrow>
                           assertW (t_nops tx > 0 \<and> txspace tx \<le> log_size lr)
                             (bindW (liftW (pfs_log_space (th_log th1))) (\<lambda>space.
                                if txspace tx \<ge> space then
                                  ret (LOG_IO_BACK,
                                    set_work LOG_TRIM (th_work th1 LOG_TRIM @ [log_trimreq])
                                      (set_flag LOGF_SPACE_NEEDED th1))
                                else log_write_commit lc req reqs tx th1))))))"

text \<open>The last part of \<open>pfs_log_handle_trim\<close>: which kind of trim is due.\<close>

definition log_trim_due :: "log_conf \<Rightarrow> 'cb lthread \<Rightarrow> (int \<times> 'cb lthread) io" where
  "log_trim_due lc th =
     (let trim = (\<lambda>th. bindW (pfs_log_trim (lc_env lc) (th_log th)) (\<lambda>(rv, log). ret (rv, th\<lparr>th_log := log\<rparr>))) in
      if has_flag LOGF_TRIM_FORCED th then
        bindW (log_tryswap (lc_opts lc) (th_mem th) (th_log th) True LOG_TRIM) (\<lambda>(_, log1).
          trim (clear_flag LOGF_TRIM_FORCED (th\<lparr>th_log := log1\<rparr>)))
      else if has_flag LOGF_SPACE_NEEDED th then
        bindW (log_tryswap (lc_opts lc) (th_mem th) (th_log th) True LOG_WRITE) (\<lambda>(_, log1).
          trim (clear_flag LOGF_SPACE_NEEDED (th\<lparr>th_log := log1\<rparr>)))
      else
        bindW (liftW (pfs_log_need_trim (lc_opts lc) (th_log th))) (\<lambda>need.
          if need then trim th else ret (0, th)))"

definition pfs_log_handle_trim :: "log_conf \<Rightarrow> 'cb lthread \<Rightarrow> (log_io \<times> 'cb lthread) io" where
  "pfs_log_handle_trim lc th0 =
     assertW (log_state (th_log th0) = LOGST_SERVING)
       (bindW clock_sec (\<lambda>now.
          let th = upd_log (\<lambda>log. log\<lparr>log_trimts := now\<rparr>) th0 in
          if has_flag LOGF_REPLAY_WAIT th then ret (LOG_IO_CONT, th)
          else
            (case th_work th LOG_TRIM of
               [] \<Rightarrow> abrt
             | req # reqs \<Rightarrow>
                 let th1 = upd_log pfs_log_paxos_try_acquire (set_work LOG_TRIM reqs th);
                     lr = log_leader (th_log th1); latest = log_leader_latest (th_log th1) in
                 assertW (tail_txid latest \<le> head_txid lr)
                   (let th2 = (if tail_txid lr < tail_txid latest
                               then upd_log (\<lambda>log. (pfs_log_del_trimentry log (sint (tail_txid latest)))
                                      \<lparr>log_leader := lr\<lparr>tail_txid := tail_txid latest,
                                                        tail_offset := tail_offset latest\<rparr>\<rparr>) th1
                               else th1)
                    in assertW (head_txid (log_leader (th_log th2)) \<le> head_txid latest)
                         (if head_txid (log_leader (th_log th2)) < head_txid latest
                          then ret (LOG_IO_CONT, th2\<lparr>th_sync_signalled := True\<rparr>)
                          else
                            bindW (log_trim_due lc th2) (\<lambda>(rv, th3).
                              ret (if rv < 0 then LOG_IO_STOP else LOG_IO_CONT, th3)))))))"

definition pfs_log_handle_flush :: "log_conf \<Rightarrow> 'cb lthread \<Rightarrow> (log_io \<times> 'cb lthread) io" where
  "pfs_log_handle_flush lc th =
     assertW (log_state (th_log th) = LOGST_SERVING)
       (if has_flag LOGF_REPLAY_WAIT th then ret (LOG_IO_CONT, th)
        else
          (case th_work th LOG_FLUSH of
             [] \<Rightarrow> abrt
           | req # reqs \<Rightarrow>
               let th1 = set_work LOG_FLUSH reqs th; lr = log_leader (th_log th) in
               if tail_txid lr = head_txid lr then
                 bindW (pfs_log_reply lc req (- ENODATA) th1) (\<lambda>th2. ret (LOG_IO_CONT, th2))
               else
                 bindW (pfs_log_reply lc req (- EAGAIN)
                          (set_work LOG_TRIM (log_trimreq # th_work th1 LOG_TRIM) (set_flag LOGF_TRIM_FORCED th1)))
                   (\<lambda>th2. ret (LOG_IO_BACK, th2))))"

definition pfs_log_handle_replaydone :: "log_conf \<Rightarrow> 'cb lthread \<Rightarrow> (log_io \<times> 'cb lthread) io" where
  "pfs_log_handle_replaydone lc th =
     assertW (has_flag LOGF_REPLAY_WAIT th)
       (case th_work th LOG_REPLAYDONE of
          [] \<Rightarrow> abrt
        | req # reqs \<Rightarrow>
            assertW (reqs = [])
              (bindW (pfs_log_replaytx_put lc (r_otxq req) True (set_work LOG_REPLAYDONE [] th)) (\<lambda>th1.
                 let th2 = (if log_state (th_log th1) = LOGST_NOTLOADED
                            then upd_log (\<lambda>log. (pfs_log_del_trimentry log (sint (tail_txid (log_leader log))))
                                   \<lparr>log_state := LOGST_SERVING\<rparr>) th1
                            else th1)
                 in assertW (g_rtxid (log_workgrp (th_log th2)) = sint (head_txid (log_leader (th_log th2))) \<and>
                             g_roffset (log_workgrp (th_log th2)) = head_offset (log_leader (th_log th2)))
                      (bindW (pfs_log_reply_queue lc LOG_REPLAY_WAIT 0 (clear_flag LOGF_REPLAY_WAIT th2)) (\<lambda>th3.
                         bindW (pfs_log_reply lc (req\<lparr>r_otxq := []\<rparr>) 0 th3) (\<lambda>th4. ret (LOG_IO_CONT, th4)))))))"

definition pfs_log_handle_stop :: "log_conf \<Rightarrow> 'cb lthread \<Rightarrow> (log_io \<times> 'cb lthread) io" where
  "pfs_log_handle_stop lc th =
     bindW (pfs_log_reply_queue lc LOG_STOP 0 (upd_log (\<lambda>log. log\<lparr>log_state := LOGST_STOP\<rparr>) th))
       (\<lambda>th1. ret (LOG_IO_CONT, th1))"

definition pfs_log_handle_suspend :: "log_conf \<Rightarrow> 'cb lthread \<Rightarrow> (log_io \<times> 'cb lthread) io" where
  "pfs_log_handle_suspend lc th =
     assertW (log_state (th_log th) = LOGST_SERVING)
       (bindW (pfs_log_reply_queue lc LOG_SUSPEND 0 (upd_log (\<lambda>log. log\<lparr>log_state := LOGST_SUSPENDED\<rparr>) th))
          (\<lambda>th1. ret (LOG_IO_CONT, th1)))"

definition pfs_log_handle_resume :: "log_conf \<Rightarrow> 'cb lthread \<Rightarrow> (log_io \<times> 'cb lthread) io" where
  "pfs_log_handle_resume lc th =
     assertW (log_state (th_log th) = LOGST_SUSPENDED)
       (let th1 = upd_log (\<lambda>log. log\<lparr>log_state := LOGST_SERVING\<rparr>) th in
        bindW (log_tryswap (lc_opts lc) (th_mem th1) (th_log th1) True LOG_RESUME) (\<lambda>(_, log2).
          bindW (pfs_log_reply_queue lc LOG_RESUME 0 (th1\<lparr>th_log := log2\<rparr>)) (\<lambda>th2. ret (LOG_IO_CONT, th2))))"

section \<open>Dispatch\<close>

text \<open>\<open>log_req_handlers\<close>.\<close>

definition log_req_handler :: "nat \<Rightarrow> log_conf \<Rightarrow> 'cb lthread \<Rightarrow> (log_io \<times> 'cb lthread) io" where
  "log_req_handler i =
     (if i = LOG_LOAD then pfs_log_handle_load
      else if i = LOG_REPLAYDONE then pfs_log_handle_replaydone
      else if i = LOG_TRIM then pfs_log_handle_trim
      else if i = LOG_POLL then pfs_log_handle_poll
      else if i = LOG_TRY_RESET_LOCK then pfs_log_handle_try_reset_lock
      else if i = LOG_WRITE then pfs_log_handle_write
      else if i = LOG_FLUSH then pfs_log_handle_flush
      else if i = LOG_SUSPEND then pfs_log_handle_suspend
      else if i = LOG_RESUME then pfs_log_handle_resume
      else pfs_log_handle_stop)"

text \<open>The loop of \<open>pfs_log_handle_req\<close> at index \<open>i\<close>; \<open>None\<close> when the fuel is used up.\<close>

fun handle_req_loop :: "nat \<Rightarrow> log_conf \<Rightarrow> nat \<Rightarrow> 'cb lthread \<Rightarrow> 'cb lthread option io" where
  "handle_req_loop 0 lc i th = ret None"
| "handle_req_loop (Suc fuel) lc i th =
     (if i < LOG_NREQ then
        if \<not> bit (th_reqmask th) i \<or> th_work th i = [] then handle_req_loop fuel lc (Suc i) th
        else
          bindW (log_req_handler i lc th) (\<lambda>(rv, th1).
            case rv of
              LOG_IO_STOP \<Rightarrow> ret (Some th1)
            | LOG_IO_BACK \<Rightarrow> handle_req_loop fuel lc LOG_TRIM th1
            | LOG_IO_CONT \<Rightarrow> handle_req_loop fuel lc (Suc i) th1)
      else ret (Some th))"

definition pfs_log_handle_req :: "nat \<Rightarrow> log_conf \<Rightarrow> 'cb lthread \<Rightarrow> 'cb lthread option io" where
  "pfs_log_handle_req fuel lc th = handle_req_loop fuel lc 1 th"

text \<open>The \<open>switch\<close> over the log state: which requests are served.\<close>

definition log_reqmask :: "plog \<Rightarrow> u32 option" where
  "log_reqmask log =
     (if log_state log = LOGST_NOTLOADED then
        Some (push_bit LOG_LOAD 1 OR push_bit LOG_STOP 1 OR push_bit LOG_REPLAYDONE 1)
      else if log_state log = LOGST_SERVING then
        Some (let m = push_bit LOG_POLL 1 OR push_bit LOG_STOP 1 OR push_bit LOG_REPLAYDONE 1 OR
                      push_bit LOG_SUSPEND 1 OR push_bit LOG_TRY_RESET_LOCK 1
              in if pfs_writable (log_mount log)
                 then m OR push_bit LOG_TRIM 1 OR push_bit LOG_WRITE 1 OR push_bit LOG_FLUSH 1 else m)
      else if log_state log = LOGST_SUSPENDED then Some (push_bit LOG_RESUME 1)
      else None)"

text \<open>The swap checkpoint at the top of a round.\<close>

definition thread_swap :: "log_conf \<Rightarrow> int \<Rightarrow> 'cb lthread \<Rightarrow> 'cb lthread io" where
  "thread_swap lc ts th =
     (if bit (th_reqmask th) LOG_TRIM \<and> th_work th 0 = [] \<and> \<not> has_flag LOGF_REPLAY_WAIT th \<and>
         ts - th_swap_ts th \<ge> 1
      then bindW (log_tryswap (lc_opts lc) (th_mem th) (th_log th) False LOG_NREQ) (\<lambda>(rv, log1).
             ret (th\<lparr>th_log := log1, th_swap_ts := (if rv \<ge> 0 then ts else th_swap_ts th)\<rparr>))
      else ret th)"

text \<open>The requests of \<open>work_req[0]\<close> and the new ones, each to the queue of its type.\<close>

definition thread_enqueue :: "'cb log_req list \<Rightarrow> 'cb lthread \<Rightarrow> 'cb lthread" where
  "thread_enqueue reqs th =
     fold (\<lambda>req th. set_work (r_type req) (th_work th (r_type req) @ [req]) th)
       (th_work th 0 @ reqs) (set_work 0 [] th)"

definition thread_trim_due :: "log_conf \<Rightarrow> 'cb lthread \<Rightarrow> 'cb lthread io" where
  "thread_trim_due lc th =
     (if bit (th_reqmask th) LOG_TRIM \<and> th_work th LOG_TRIM = [] then
        bindW (liftW (pfs_log_need_trim (lc_opts lc) (th_log th))) (\<lambda>need.
          if \<not> need then ret th
          else
            bindW clock_sec (\<lambda>now.
              bindW (if now - log_trimts (th_log th) \<ge> log_trim_interval (lc_opts lc) then ret True
                     else liftW (pfs_log_need_trim_hard (lc_opts lc) (th_log th))) (\<lambda>due.
                ret (if due then set_work LOG_TRIM (th_work th LOG_TRIM @ [log_trimreq]) th else th))))
      else ret th)"

definition thread_requeue :: "'cb lthread \<Rightarrow> 'cb lthread" where
  "thread_requeue th =
     fold (\<lambda>i th. set_work i [] (set_work 0 (th_work th 0 @ th_work th i) th)) [1..<LOG_NREQ] th"

text \<open>One round of \<open>pfs_log_thread_entry\<close> that finds the requests \<open>reqs\<close> in \<open>log_reqhead\<close>.\<close>

definition log_thread_round ::
    "nat \<Rightarrow> log_conf \<Rightarrow> 'cb log_req list \<Rightarrow> 'cb lthread \<Rightarrow> 'cb lthread option io" where
  "log_thread_round fuel lc reqs th =
     bindW clock_sec (\<lambda>ts.
       bindW (thread_swap lc ts th) (\<lambda>th1.
         let th2 = thread_enqueue reqs th1 in
         bindW (liftW (log_reqmask (th_log th2))) (\<lambda>mask.
           bindW (thread_trim_due lc (th2\<lparr>th_reqmask := mask\<rparr>)) (\<lambda>th3.
             bindW (pfs_log_handle_req fuel lc th3) (\<lambda>r.
               ret (map_option thread_requeue r))))))"

end
