(* ===== verification/Journal_Spec.thy ===== *)
theory Journal_Spec
  imports Journal
begin

text \<open>
  What the journal promises, and the tools to prove it. The metadata is a store of sectors; a
  transaction is a list of objects to put at given places. \<open>holds\<close> says that the device
  carries a list of committed transactions in its journal on top of the metadata sectors in
  place: replaying them gives the committed store. \<open>safe\<close> is a Hoare triple for \<open>io\<close>
  computations with a condition for the device at a crash.
\<close>

section \<open>Stores and transactions\<close>

type_synonym store = "u64 \<Rightarrow> metaobj list"
type_synonym jop = "u64 \<times> nat \<times> metaobj"

definition apply_op :: "jop \<Rightarrow> store \<Rightarrow> store" where
  "apply_op = (\<lambda>(b, i, mo) m. m(b := (m b)[i := mo]))"

definition apply_ops :: "jop list \<Rightarrow> store \<Rightarrow> store" where
  "apply_ops ops m = fold apply_op ops m"

text \<open>The last object written to a place.\<close>

fun last_write :: "jop list \<Rightarrow> u64 \<Rightarrow> nat \<Rightarrow> metaobj option" where
  "last_write [] b i = None"
| "last_write ((b', i', mo) # ops) b i =
     (case last_write ops b i of
        Some x \<Rightarrow> Some x
      | None \<Rightarrow> if b' = b \<and> i' = i then Some mo else None)"

definition touched :: "jop list \<Rightarrow> u64 set" where
  "touched ops = fst ` set ops"

lemma apply_ops_simps [simp]:
  "apply_ops [] m = m"
  "apply_ops (x # ops) m = apply_ops ops (apply_op x m)"
  "apply_ops (as @ bs) m = apply_ops bs (apply_ops as m)"
  by (simp_all add: apply_ops_def)

lemma touched_simps [simp]:
  "touched [] = {}" "touched (x # ops) = insert (fst x) (touched ops)"
  "touched (as @ bs) = touched as \<union> touched bs"
  by (auto simp: touched_def)

lemma length_apply_op [simp]: "length (apply_op x m b) = length (m b)"
  by (cases x) (simp add: apply_op_def)

lemma length_apply_ops [simp]: "length (apply_ops ops m b) = length (m b)"
  by (induction ops arbitrary: m) auto

lemma last_write_append:
  "last_write (as @ bs) b i = (case last_write bs b i of Some x \<Rightarrow> Some x | None \<Rightarrow> last_write as b i)"
  by (induction as) (auto split: option.splits)

lemma last_write_untouched: "b \<notin> touched ops \<Longrightarrow> last_write ops b i = None"
  by (induction ops) auto

lemma apply_ops_nth:
  assumes "i < length (m b)"
  shows "apply_ops ops m b ! i = (case last_write ops b i of Some x \<Rightarrow> x | None \<Rightarrow> m b ! i)"
  using assms
proof (induction ops arbitrary: m)
  case (Cons x ops)
  obtain b' i' mo where x: "x = (b', i', mo)" by (cases x)
  have "apply_op x m b ! i = (if b' = b \<and> i' = i then mo else m b ! i)"
    using Cons.prems by (auto simp: x apply_op_def nth_list_update)
  then show ?case
    using Cons.IH [of "apply_op x m"] Cons.prems by (auto simp: x split: option.splits)
qed simp

lemma apply_ops_untouched: "b \<notin> touched ops \<Longrightarrow> apply_ops ops m b = m b"
  by (rule nth_equalityI) (auto simp: apply_ops_nth last_write_untouched)

text \<open>
  Replaying is insensitive to sectors that were already brought up to date by a prefix of the
  transactions: a trim that was cut off half way, or that failed, is harmless.
\<close>

lemma replay_idempotent:
  assumes "\<And>b. D' b = D b \<or> D' b = apply_ops as D b"
  shows "apply_ops (as @ bs) D' = apply_ops (as @ bs) D"
proof
  fix b
  have len: "length (D' b) = length (D b)"
    using assms [of b] by auto
  have "apply_ops (as @ bs) D' b ! i = apply_ops (as @ bs) D b ! i" if "i < length (D b)" for i
    using assms [of b] that len apply_ops_nth [of i D b as]
    by (auto simp: apply_ops_nth last_write_append simp del: apply_ops_simps split: option.splits)
  then show "apply_ops (as @ bs) D' b = apply_ops (as @ bs) D b"
    by (intro nth_equalityI) (simp_all add: len)
qed

section \<open>Log entries of transactions\<close>

definition mk_entry :: "lease_env \<Rightarrow> int \<Rightarrow> int \<Rightarrow> bool \<Rightarrow> jop \<Rightarrow> logentry" where
  "mk_entry env txid lsn has_next = (\<lambda>(b, i, mo).
     let le = \<lparr>le_obj_val = mo, le_lsn = lsn, le_sector_bda = b, le_txid = txid, le_obj_idx = of_nat i,
               le_checksum = 0, le_more = (if has_next then 1 else 0), le_pad = replicate 92 0\<rparr>
     in le\<lparr>le_checksum := logentry_crc (env_crc env) le\<rparr>)"

text \<open>The entries of one transaction, and of the transactions after \<open>txid\<close>.\<close>

fun tx_entries :: "lease_env \<Rightarrow> int \<Rightarrow> int \<Rightarrow> jop list \<Rightarrow> logentry list" where
  "tx_entries env txid lsn [] = []"
| "tx_entries env txid lsn (x # xs) =
     mk_entry env txid (lsn + 1) (xs \<noteq> []) x # tx_entries env txid (lsn + 1) xs"

fun txs_entries :: "lease_env \<Rightarrow> int \<Rightarrow> int \<Rightarrow> jop list list \<Rightarrow> logentry list" where
  "txs_entries env txid lsn [] = []"
| "txs_entries env txid lsn (t # ts) =
     tx_entries env (txid + 1) lsn t @ txs_entries env (txid + 1) (lsn + int (length t)) ts"

lemma length_tx_entries [simp]: "length (tx_entries env txid lsn t) = length t"
  by (induction t arbitrary: lsn) auto

lemma length_txs_entries [simp]: "length (txs_entries env txid lsn ts) = length (concat ts)"
  by (induction ts arbitrary: txid lsn) auto

lemma txs_entries_append:
  "txs_entries env txid lsn (as @ bs) =
     txs_entries env txid lsn as @
     txs_entries env (txid + int (length as)) (lsn + int (length (concat as))) bs"
  by (induction as arbitrary: txid lsn) (auto simp: algebra_simps)

section \<open>The ring\<close>

definition ring_at :: "'a list \<Rightarrow> nat \<Rightarrow> nat \<Rightarrow> 'a list" where
  "ring_at j start n = map (\<lambda>k. j ! ((start + k) mod length j)) [0..<n]"

lemma length_ring_at [simp]: "length (ring_at j s n) = n"
  by (simp add: ring_at_def)

lemma ring_at_nth: "k < n \<Longrightarrow> ring_at j s n ! k = j ! ((s + k) mod length j)"
  by (simp add: ring_at_def)

lemma ring_at_append:
  "ring_at j s (n + m) = ring_at j s n @ ring_at j ((s + n) mod length j) m"
proof (rule nth_equalityI)
  fix k assume "k < length (ring_at j s (n + m))"
  moreover have "(s + n + (k - n)) mod length j = ((s + n) mod length j + (k - n)) mod length j"
    by (simp add: mod_add_left_eq)
  ultimately show "ring_at j s (n + m) ! k = (ring_at j s n @ ring_at j ((s + n) mod length j) m) ! k"
    by (auto simp: ring_at_nth nth_append)
qed simp

text \<open>Slots that are not among the \<open>n\<close> from \<open>s\<close> on may change.\<close>

lemma ring_at_cong:
  assumes "length j' = length j" "\<And>k. k < n \<Longrightarrow> j' ! ((s + k) mod length j) = j ! ((s + k) mod length j)"
  shows "ring_at j' s n = ring_at j s n"
  using assms by (auto simp: ring_at_def)

section \<open>What the device holds\<close>

definition jop_ok :: "lease_env \<Rightarrow> jop \<Rightarrow> bool" where
  "jop_ok env = (\<lambda>(b, i, mo). i < 2 ^ 32 \<and> metaobj_typed mo \<and> pfs_metaobj_check_crc (env_crc env) mo)"

definition slot_ok :: "lease_env \<Rightarrow> logentry \<Rightarrow> bool" where
  "slot_ok env le \<longleftrightarrow> le_checksum le = 0 \<or> pfs_log_check_one env le"

text \<open>
  \<open>s\<close> is the slot of the tail. The counters stay below \<open>2 ^ 62\<close>: at one transaction per
  nanosecond that is a century. The ring is shorter than 2 GB.
\<close>

definition ring_ok :: "lease_env \<Rightarrow> leader_record \<Rightarrow> logentry list \<Rightarrow> nat \<Rightarrow> jop list list \<Rightarrow> bool" where
  "ring_ok env lr j s ts \<longleftrightarrow>
     length j < 2 ^ 23 \<and> unat (log_size lr) = LE_SIZE * length j \<and> s < length j \<and>
     unat (tail_offset lr) = LE_SIZE * s \<and>
     unat (head_offset lr) = LE_SIZE * ((s + length (concat ts)) mod length j) \<and>
     length (concat ts) < length j \<and> list_all (slot_ok env) j \<and>
     uint (head_txid lr) < 2 ^ 62 \<and> uint (head_lsn lr) < 2 ^ 62 \<and>
     uint (head_txid lr) = uint (tail_txid lr) + int (length ts) \<and>
     uint (head_lsn lr) \<ge> int (length (concat ts)) \<and>
     list_all (\<lambda>t. t \<noteq> []) ts \<and> list_all (list_all (jop_ok env)) ts \<and>
     ring_at j s (length (concat ts)) =
       txs_entries env (uint (tail_txid lr)) (uint (head_lsn lr) - int (length (concat ts))) ts"

definition leader_ok :: "lease_env \<Rightarrow> lease_mnt \<Rightarrow> leader_record \<Rightarrow> bool" where
  "leader_ok env mnt lr \<longleftrightarrow>
     verify_leader (mnt_sectsize mnt) (mnt_host_id mnt) lr (lr_checksum lr) = PFS_OK \<and> mnt_sectsize mnt \<noteq> 0"

definition sign_leader :: "lease_env \<Rightarrow> leader_record \<Rightarrow> leader_record" where
  "sign_leader env lr = lr\<lparr>lr_checksum := leader_checksum (env_crc env) lr\<rparr>"

definition holds :: "lease_env \<Rightarrow> lease_mnt \<Rightarrow> pbd \<Rightarrow> jop list list \<Rightarrow> bool" where
  "holds env mnt d ts \<longleftrightarrow>
     leader_ok env mnt (d_leader d) \<and> sign_leader env (d_leader d) = d_leader d \<and>
     (\<exists>s. ring_ok env (d_leader d) (d_journal d) s ts)"

text \<open>The store a device stands for: its sectors with the transactions of its journal.\<close>

definition committed :: "pbd \<Rightarrow> jop list list \<Rightarrow> store" where
  "committed d ts = apply_ops (concat ts) (d_sect d)"

section \<open>Triples\<close>

text \<open>A write of the leader record that reports an error has not reached the device.\<close>

definition clean :: "world \<Rightarrow> bool" where
  "clean w \<longleftrightarrow> list_all (\<lambda>r. case r of IoErr e fs \<Rightarrow> \<not> (fs \<noteq> [] \<and> hd fs) | _ \<Rightarrow> True) (w_lios w)"

definition safe :: "(pbd \<Rightarrow> bool) \<Rightarrow> 'a io \<Rightarrow> ('a \<Rightarrow> pbd \<Rightarrow> bool) \<Rightarrow> (pbd \<Rightarrow> bool) \<Rightarrow> bool" where
  "safe P m Q C \<longleftrightarrow>
     (\<forall>w. clean w \<longrightarrow> P (w_pbd w) \<longrightarrow>
        (case m w of
           (Val x, w') \<Rightarrow> clean w' \<and> Q x (w_pbd w')
         | (Abrt, w') \<Rightarrow> False
         | (Crash, w') \<Rightarrow> C (w_pbd w')))"

lemma clean_simps [simp]:
  "clean (w\<lparr>w_ios := x\<rparr>) = clean w" "clean (w\<lparr>w_pbd := d\<rparr>) = clean w"
  "clean (w\<lparr>w_trylock := y\<rparr>) = clean w" "clean (w\<lparr>w_clock := z\<rparr>) = clean w"
  by (simp_all add: clean_def)

lemma safe_ret: "(\<And>d. P d \<Longrightarrow> Q x d) \<Longrightarrow> safe P (ret x) Q C"
  by (simp add: safe_def ret_def)

lemma safe_False [simp]: "safe (\<lambda>d. False) m Q C"
  by (simp add: safe_def)

lemma safe_bind:
  assumes "safe P m R C" "\<And>x. safe (R x) (f x) Q C"
  shows "safe P (bindW m f) Q C"
proof -
  have "case bindW m f w of (Val x, w') \<Rightarrow> clean w' \<and> Q x (w_pbd w') | (Abrt, w') \<Rightarrow> False
        | (Crash, w') \<Rightarrow> C (w_pbd w')" if "clean w" "P (w_pbd w)" for w
  proof -
    have "case m w of (Val x, w') \<Rightarrow> clean w' \<and> R x (w_pbd w') | (Abrt, w') \<Rightarrow> False
        | (Crash, w') \<Rightarrow> C (w_pbd w')"
      using assms(1) that by (simp add: safe_def)
    then show ?thesis
      using assms(2) by (cases "m w", cases "fst (m w)") (auto simp: bindW_def safe_def)
  qed
  then show ?thesis by (simp add: safe_def)
qed

lemma safe_assert:
  assumes "\<And>d. P d \<Longrightarrow> c" "c \<Longrightarrow> safe P m Q C"
  shows "safe P (assertW c m) Q C"
  using assms by (cases c) (auto simp: safe_def)

text \<open>Facts about the device before may be assumed of a fixed device.\<close>

lemma safe_pre:
  assumes "\<And>d. P d \<Longrightarrow> safe ((=) d) m Q C"
  shows "safe P m Q C"
  unfolding safe_def
proof (intro allI impI)
  fix w assume "clean w" "P (w_pbd w)"
  then show "case m w of (Val x, w') \<Rightarrow> clean w' \<and> Q x (w_pbd w') | (Abrt, w') \<Rightarrow> False
        | (Crash, w') \<Rightarrow> C (w_pbd w')"
    using assms [of "w_pbd w"] by (simp add: safe_def)
qed

lemma safe_weaken:
  assumes "safe P m Q C" "\<And>d. P' d \<Longrightarrow> P d" "\<And>x d. Q x d \<Longrightarrow> Q' x d" "\<And>d. C d \<Longrightarrow> C' d"
  shows "safe P' m Q' C'"
proof -
  have "case m w of (Val x, w') \<Rightarrow> clean w' \<and> Q' x (w_pbd w') | (Abrt, w') \<Rightarrow> False
        | (Crash, w') \<Rightarrow> C' (w_pbd w')" if "clean w" "P' (w_pbd w)" for w
  proof -
    have "case m w of (Val x, w') \<Rightarrow> clean w' \<and> Q x (w_pbd w') | (Abrt, w') \<Rightarrow> False
        | (Crash, w') \<Rightarrow> C (w_pbd w')"
      using assms(1) assms(2) [OF that(2)] that(1) by (simp add: safe_def)
    then show ?thesis
      using assms(3,4) by (cases "m w", cases "fst (m w)") auto
  qed
  then show ?thesis by (simp add: safe_def)
qed

lemma safe_transfer:
  assumes "\<And>d. P d \<Longrightarrow> Q v (upd (replicate n True) d)"
    "\<And>d e fs. P d \<Longrightarrow> Q (- int e - 1) (upd fs d)" "\<And>d fs. P d \<Longrightarrow> C (upd fs d)"
  shows "safe P (transfer next_io n upd v) Q C"
proof -
  have "case transfer next_io n upd v w of (Val x, w') \<Rightarrow> clean w' \<and> Q x (w_pbd w') | (Abrt, w') \<Rightarrow> False
        | (Crash, w') \<Rightarrow> C (w_pbd w')" if "clean w" "P (w_pbd w)" for w
    using that assms by (auto simp: transfer_def next_io_def split: list.split io_res.split)
  then show ?thesis by (simp add: safe_def)
qed

end
