(* ===== verification/Trimgroup_Safe.thy ===== *)
theory Trimgroup_Safe
  imports Journal_Spec
begin

text \<open>
  The invariant of a trim group and its preservation. \<open>grp_ok m B l r grp\<close>: the group has a
  sectbuf for exactly the sectors \<open>B\<close>, last touched by transactions in \<open>(l, r]\<close>; the ones
  copied out of memory equal the store \<open>m\<close>; the counters count; and everything before
  \<open>g_sect_empty_first\<close> has been copied. \<open>groups_ok\<close> ties both groups to the journal.
\<close>

section \<open>The invariant\<close>

definition bdas :: "sectbuf list \<Rightarrow> u64 list" where
  "bdas sbs = map s_bda sbs"

definition empties :: "sectbuf list \<Rightarrow> int" where
  "empties sbs = int (length (filter (\<lambda>sb. s_buf sb = None) sbs))"

definition copied :: "sectbuf list \<Rightarrow> bool" where
  "copied sbs = list_all (\<lambda>sb. s_buf sb \<noteq> None) sbs"

definition sect_ok :: "store \<Rightarrow> int \<Rightarrow> int \<Rightarrow> sectbuf \<Rightarrow> bool" where
  "sect_ok m l r sb \<longleftrightarrow> s_metabuf sb = s_bda sb \<and> l < s_txid sb \<and> s_txid sb \<le> r \<and>
     (\<forall>c. s_buf sb = Some c \<longrightarrow> c = m (s_bda sb))"

definition grp_ok :: "store \<Rightarrow> u64 set \<Rightarrow> int \<Rightarrow> int \<Rightarrow> trimgroup \<Rightarrow> bool" where
  "grp_ok m B l r grp \<longleftrightarrow>
     (let sbs = g_sects grp in
      distinct (bdas sbs) \<and> set (bdas sbs) = B \<and> g_rootp grp = B \<and> g_nsects grp = int (length sbs) \<and>
      g_nsects_empty grp = empties sbs \<and> list_all (sect_ok m l r) sbs \<and>
      (case g_sect_empty_first grp of
         None \<Rightarrow> empties sbs = 0
       | Some p \<Rightarrow> p \<in> B \<and> empties sbs > 0 \<and> copied (before_sect p sbs)))"

text \<open>The transaction range and the end offset are fields of their own.\<close>

definition same_range :: "trimgroup \<Rightarrow> trimgroup \<Rightarrow> bool" where
  "same_range g g' \<longleftrightarrow> g_ltxid g' = g_ltxid g \<and> g_rtxid g' = g_rtxid g \<and> g_roffset g' = g_roffset g"

lemma grp_ok_range [simp]:
  "grp_ok m B l r (grp\<lparr>g_rtxid := x\<rparr>) = grp_ok m B l r grp"
  "grp_ok m B l r (grp\<lparr>g_ltxid := x\<rparr>) = grp_ok m B l r grp"
  "grp_ok m B l r (grp\<lparr>g_roffset := y\<rparr>) = grp_ok m B l r grp"
  by (cases grp; simp add: grp_ok_def)+

lemma bdas_simps [simp]:
  "bdas [] = []" "bdas (x # xs) = s_bda x # bdas xs" "bdas (xs @ ys) = bdas xs @ bdas ys"
  by (simp_all add: bdas_def)

lemma in_bdas: "sb \<in> set sbs \<Longrightarrow> s_bda sb \<in> set (bdas sbs)"
  by (simp add: bdas_def)

lemma empties_simps [simp]:
  "empties [] = 0" "empties (x # xs) = (if s_buf x = None then 1 else 0) + empties xs"
  "empties (xs @ ys) = empties xs + empties ys"
  by (simp_all add: empties_def)

lemma empties_nonneg [simp]: "empties sbs \<ge> 0"
  by (simp add: empties_def)

lemma empties_pos_iff: "0 < empties sbs \<longleftrightarrow> empties sbs \<noteq> 0"
  using empties_nonneg [of sbs] by linarith

lemma copied_simps [simp]:
  "copied []" "copied (x # xs) \<longleftrightarrow> s_buf x \<noteq> None \<and> copied xs" "copied (xs @ ys) \<longleftrightarrow> copied xs \<and> copied ys"
  by (simp_all add: copied_def)

lemma copied_iff: "copied sbs \<longleftrightarrow> empties sbs = 0"
  using empties_nonneg by (induction sbs) (auto simp: add_nonneg_eq_0_iff)

lemma before_sect_split:
  "p \<notin> set (bdas us) \<Longrightarrow> s_bda sb = p \<Longrightarrow> before_sect p (us @ sb # vs) = us"
  by (induction us) (auto simp: before_sect_def)

lemma from_sect_split:
  "p \<notin> set (bdas us) \<Longrightarrow> s_bda sb = p \<Longrightarrow> from_sect p (us @ sb # vs) = sb # vs"
  by (induction us) (auto simp: from_sect_def)

lemma split_at_bda:
  assumes "b \<in> set (bdas sbs)" "distinct (bdas sbs)"
  obtains us sb vs where "sbs = us @ sb # vs" "s_bda sb = b" "b \<notin> set (bdas us)" "b \<notin> set (bdas vs)"
  using assms by (auto simp: bdas_def in_set_conv_decomp)

lemma find_sect_split: "b \<notin> set (bdas us) \<Longrightarrow> s_bda sb = b \<Longrightarrow> find_sect b (us @ sb # vs) = Some sb"
  by (induction us) (auto simp: find_sect_def)

lemma filter_absent: "b \<notin> set (bdas xs) \<Longrightarrow> filter (\<lambda>sb. s_bda sb \<noteq> b) xs = xs"
  by (induction xs) auto

lemma remove_sect_split:
  "b \<notin> set (bdas us) \<Longrightarrow> b \<notin> set (bdas vs) \<Longrightarrow> s_bda sb = b \<Longrightarrow> remove_sect b (us @ sb # vs) = us @ vs"
  by (simp add: remove_sect_def filter_absent)

lemma tailq_next_split:
  "b \<notin> set (bdas us) \<Longrightarrow> s_bda sb = b \<Longrightarrow>
     tailq_next b (us @ sb # vs) = (case vs of [] \<Rightarrow> None | v # _ \<Rightarrow> Some (s_bda v))"
proof (induction us)
  case Nil
  then show ?case by (cases vs) auto
next
  case (Cons u us)
  then show ?case by (cases us) (auto split: list.splits)
qed

section \<open>Insertion\<close>

definition txop_jop :: "'cb txop \<Rightarrow> jop" where
  "txop_jop tp = (top_bda tp, top_idx tp, top_local tp)"

lemma sect_ok_apply_other:
  "sect_ok m l r sb \<Longrightarrow> s_bda sb \<noteq> b \<Longrightarrow> r \<le> r' \<Longrightarrow> sect_ok (apply_op (b, i, mo) m) l r' sb"
  by (auto simp: sect_ok_def apply_op_def)

lemma sect_ok_sync:
  "sect_ok m l r sb \<Longrightarrow> s_bda sb = top_bda tp \<Longrightarrow> l < txid \<Longrightarrow>
     sect_ok (apply_op (txop_jop tp) m) l txid (pfs_sectbuf_sync (sb\<lparr>s_txid := txid\<rparr>) tp)"
  by (auto simp: sect_ok_def pfs_sectbuf_sync_def apply_op_def txop_jop_def)

lemma insert_op_new:
  assumes g: "grp_ok m B l r grp" and b: "top_buf tp = Some (top_bda tp)" "top_bda tp \<notin> B"
    and t: "l < txid" "r \<le> txid"
  shows "\<exists>grp'. trimgroup_insert_op txid tp grp = Some grp' \<and>
     grp_ok (apply_op (txop_jop tp) m) (insert (top_bda tp) B) l txid grp' \<and>
     same_range grp grp'"
proof -
  let ?xs = "g_sects grp"
  let ?sb = "\<lparr>s_bda = top_bda tp, s_txid = txid, s_buf = None, s_metabuf = top_bda tp\<rparr>"
  have xs: "distinct (bdas ?xs)" "set (bdas ?xs) = B" "g_rootp grp = B" "g_nsects_empty grp = empties ?xs"
    "list_all (sect_ok m l r) ?xs" "g_nsects grp = int (length ?xs)"
    and ef: "case g_sect_empty_first grp of None \<Rightarrow> empties ?xs = 0
       | Some p \<Rightarrow> p \<in> B \<and> empties ?xs > 0 \<and> copied (before_sect p ?xs)"
    using g by (simp_all add: grp_ok_def Let_def)
  have ne: "s_bda sb \<noteq> top_bda tp" if "sb \<in> set ?xs" for sb
    using in_bdas [OF that] b(2) xs(2) by metis
  have ok: "list_all (sect_ok (apply_op (txop_jop tp) m) l txid) ?xs"
    using xs(5) ne t(2) by (auto simp: list_all_iff txop_jop_def intro!: sect_ok_apply_other)
  have bef: "before_sect (top_bda tp) (?xs @ [?sb]) = ?xs"
    by (rule before_sect_split) (use xs(2) b(2) in auto)
  have bef2: "before_sect p (?xs @ [?sb]) = before_sect p ?xs" if "p \<in> B" for p
    using that xs(1,2) by (elim split_at_bda [where sbs = "?xs" and b = p, rotated]) (auto simp: before_sect_split)
  show ?thesis
    using b xs t ok ef bef bef2 copied_iff [of ?xs] empties_nonneg [of ?xs]
    by (cases "g_sect_empty_first grp")
       (auto simp: trimgroup_insert_op_def pfs_sectbuf_bind_def grp_ok_def Let_def sect_ok_def same_range_def)
qed

lemma insert_op_again:
  assumes g: "grp_ok m B l r grp" and b: "top_buf tp = Some (top_bda tp)" "top_bda tp \<in> B"
    and t: "l < txid" "r \<le> txid"
  shows "\<exists>grp'. trimgroup_insert_op txid tp grp = Some grp' \<and>
     grp_ok (apply_op (txop_jop tp) m) (insert (top_bda tp) B) l txid grp' \<and>
     same_range grp grp'"
proof -
  let ?xs = "g_sects grp"
  have xs: "distinct (bdas ?xs)" "set (bdas ?xs) = B" "g_rootp grp = B" "g_nsects_empty grp = empties ?xs"
    "list_all (sect_ok m l r) ?xs" "g_nsects grp = int (length ?xs)"
    and ef: "case g_sect_empty_first grp of None \<Rightarrow> empties ?xs = 0
       | Some p \<Rightarrow> p \<in> B \<and> empties ?xs > 0 \<and> copied (before_sect p ?xs)"
    using g by (simp_all add: grp_ok_def Let_def)
  obtain us sb vs where s: "?xs = us @ sb # vs" "s_bda sb = top_bda tp" "top_bda tp \<notin> set (bdas us)"
    "top_bda tp \<notin> set (bdas vs)"
    using split_at_bda [OF _ xs(1)] b(2) xs(2) by metis
  define sb2 where "sb2 = pfs_sectbuf_sync (sb\<lparr>s_txid := txid\<rparr>) tp"
  have sb2: "s_bda sb2 = top_bda tp" "s_buf sb2 = None \<longleftrightarrow> s_buf sb = None"
    by (simp_all add: sb2_def pfs_sectbuf_sync_def s(2))
  define ys where "ys = us @ vs @ [sb2]"
  define ef' where "ef' = (if g_sect_empty_first grp = Some (top_bda tp) \<and> vs \<noteq> []
       then Some (s_bda (hd vs)) else g_sect_empty_first grp)"
  have e: "empties ys = empties ?xs"
    by (simp add: ys_def s(1) sb2(2))
  have ne: "s_bda x \<noteq> top_bda tp" if "x \<in> set (us @ vs)" for x
    using in_bdas [OF that] s(3,4) by auto
  have ok: "list_all (sect_ok (apply_op (txop_jop tp) m) l txid) ys"
  proof -
    have "sect_ok (apply_op (txop_jop tp) m) l txid x" if "x \<in> set (us @ vs)" for x
      using that xs(5) ne [OF that] t(2) unfolding s(1) txop_jop_def
      by (auto simp: list_all_iff intro!: sect_ok_apply_other)
    moreover have "sect_ok (apply_op (txop_jop tp) m) l txid sb2"
      unfolding sb2_def by (rule sect_ok_sync [OF _ s(2) t(1)]) (use xs(5) s(1) in auto)
    ultimately show ?thesis by (auto simp: ys_def list_all_iff)
  qed
  have dist: "distinct (bdas ys)" "set (bdas ys) = insert (top_bda tp) B" "length ys = length ?xs"
    using xs(1,2) sb2(1) s by (auto simp: ys_def)
  have sb: "s_txid sb \<le> r" "g_sect_empty_first grp \<noteq> None \<or> s_buf sb2 \<noteq> None"
    using xs(5) ef copied_iff [of ?xs] by (auto simp: s(1) sect_ok_def sb2(2) split: option.splits)
  have first: "case ef' of None \<Rightarrow> empties ys = 0
       | Some p \<Rightarrow> p \<in> insert (top_bda tp) B \<and> empties ys > 0 \<and> copied (before_sect p ys)"
  proof (cases "g_sect_empty_first grp")
    case None
    with ef e show ?thesis by (simp add: ef'_def)
  next
    case (Some p)
    have p: "p \<in> B" "empties ys > 0" "copied (before_sect p ?xs)" using ef Some e by auto
    have tgt: "copied (before_sect q ys)" if "q = (if p = top_bda tp \<and> vs \<noteq> [] then s_bda (hd vs) else p)" for q
    proof (cases "p = top_bda tp")
      case True
      then have "copied us" using p(3) s before_sect_split [OF s(3,2)] by simp
      moreover have "before_sect q ys = us"
      proof (cases vs)
        case Nil
        then show ?thesis using that True s(3) sb2(1) by (auto simp: ys_def intro!: before_sect_split)
      next
        case (Cons v vs')
        then have "s_bda v \<notin> set (bdas us)" using xs(1) s(1) by auto
        with Cons show ?thesis using that True by (auto simp: ys_def intro!: before_sect_split)
      qed
      ultimately show ?thesis by simp
    next
      case False
      with that have q: "q = p" by simp
      from p(1) False xs(2) s(1,2) consider "p \<in> set (bdas us)" | "p \<in> set (bdas vs)" "p \<notin> set (bdas us)" by auto
      then show ?thesis
      proof cases
        case 1
        then obtain u1 x u2 where u: "us = u1 @ x # u2" "s_bda x = p" "p \<notin> set (bdas u1)"
          using xs(1) s(1) by (elim split_at_bda) auto
        have "before_sect p ys = u1" "before_sect p ?xs = u1"
          using before_sect_split [OF u(3,2)] by (simp_all add: ys_def s(1) u(1))
        with p(3) q show ?thesis by simp
      next
        case 2
        then obtain v1 x v2 where v: "vs = v1 @ x # v2" "s_bda x = p" "p \<notin> set (bdas v1)"
          using xs(1) s(1) by (elim split_at_bda) auto
        have "before_sect p ys = us @ v1"
          using before_sect_split [of p "us @ v1" x "v2 @ [sb2]"] 2(2) v by (simp add: ys_def)
        moreover have "before_sect p ?xs = us @ sb # v1"
          using before_sect_split [of p "us @ sb # v1" x v2] 2(2) v False s(2) by (simp add: s(1))
        ultimately show ?thesis using p(3) q by simp
      qed
    qed
    have "s_bda (hd vs) \<in> B" if "vs \<noteq> []"
      using that xs(2) s(1) by (cases vs) auto
    with p tgt Some show ?thesis by (auto simp: ef'_def)
  qed
  have "trimgroup_insert_op txid tp grp = Some (grp\<lparr>g_sect_empty_first := ef', g_sects := ys\<rparr>)"
    using b xs(3) s sb t(2) find_sect_split [OF s(3,2)] remove_sect_split [OF s(3,4,2)]
      tailq_next_split [OF s(3,2)]
    by (auto simp: trimgroup_insert_op_def pfs_sectbuf_bind_def ef'_def ys_def sb2_def Let_def
        split: list.splits)
  with ok dist first [unfolded insert_absorb [OF b(2)]] e xs show ?thesis
    unfolding insert_absorb [OF b(2)] by (cases ef') (auto simp: grp_ok_def Let_def same_range_def)
qed

lemma insert_ops_ok:
  assumes "grp_ok m B l r grp" "list_all (\<lambda>tp. top_buf tp = Some (top_bda tp)) tps" "l < txid" "r \<le> txid"
  shows "\<exists>grp'. trimgroup_insert_ops txid tps grp = Some grp' \<and>
     grp_ok (apply_ops (map txop_jop tps) m) (B \<union> touched (map txop_jop tps)) l txid grp' \<and>
     same_range grp grp'"
  using assms
proof (induction tps arbitrary: m B r grp)
  case Nil
  then show ?case by (auto simp: grp_ok_def Let_def sect_ok_def list_all_iff same_range_def)
next
  case (Cons tp tps)
  obtain grp1 where g1: "trimgroup_insert_op txid tp grp = Some grp1"
    "grp_ok (apply_op (txop_jop tp) m) (insert (top_bda tp) B) l txid grp1"
    "same_range grp grp1"
    using insert_op_new [OF Cons.prems(1) _ _ Cons.prems(3,4), of tp]
      insert_op_again [OF Cons.prems(1) _ _ Cons.prems(3,4), of tp] Cons.prems(2)
    by (cases "top_bda tp \<in> B") auto
  then show ?case
    using Cons.IH [OF g1(2)] Cons.prems by (auto simp: txop_jop_def same_range_def)
qed

text \<open>Inserting a committed transaction brings the group up to the new store.\<close>

lemma trimgroup_insert_ok:
  assumes "grp_ok m B l r grp" "list_all (\<lambda>tp. top_buf tp = Some (top_bda tp)) tps"
    "g_rtxid grp = r" "l \<le> r"
  shows "\<exists>grp'. pfs_trimgroup_insert grp (r + 1) used tps logsize = Some grp' \<and>
     grp_ok (apply_ops (map txop_jop tps) m) (B \<union> touched (map txop_jop tps)) l (r + 1) grp' \<and>
     g_ltxid grp' = g_ltxid grp \<and> g_rtxid grp' = r + 1 \<and>
     g_roffset grp' = OFF_MODULAR_ADD (g_roffset grp) used logsize"
  using insert_ops_ok [OF assms(1,2), of "r + 1"] assms(3,4)
  by (auto simp: pfs_trimgroup_insert_def same_range_def)

section \<open>Copying and swapping\<close>

lemma swap_fill_ok:
  assumes "distinct (bdas ys)" "empties ys > 0" "list_all (sect_ok m l r) ys"
    "swap_fill m n (empties ys) ys = (ys', e, q)"
  shows "bdas ys' = bdas ys \<and> e = empties ys' \<and> list_all (sect_ok m l r) ys' \<and>
    (e \<noteq> 0 \<longrightarrow> (\<exists>p. q = Some p \<and> p \<in> set (bdas ys) \<and> copied (before_sect p ys'))) \<and>
    (n \<ge> empties ys \<longrightarrow> e = 0)"
  using assms
proof (induction ys arbitrary: n ys' e q)
  case (Cons sb sbs)
  show ?case
  proof (cases "s_buf sb")
    case None
    define sb1 where "sb1 = sb\<lparr>s_buf := Some (m (s_metabuf sb))\<rparr>"
    have sb1: "s_bda sb1 = s_bda sb" "s_buf sb1 \<noteq> None" "sect_ok m l r sb1"
      using Cons.prems(3) by (auto simp: sb1_def sect_ok_def)
    consider "empties sbs = 0" | "empties sbs \<noteq> 0" "n - 1 = 0" | "empties sbs \<noteq> 0" "n - 1 \<noteq> 0" by blast
    then show ?thesis
    proof cases
      case 1
      with Cons.prems None sb1 show ?thesis by (auto simp: sb1_def Let_def)
    next
      case 2
      then obtain x xs where sbs: "sbs = x # xs" by (cases sbs) auto
      have "before_sect (s_bda x) (sb1 # sbs) = [sb1]"
        using Cons.prems(1) sb1(1) by (auto simp: sbs before_sect_def)
      with 2 Cons.prems None sb1 show ?thesis
        by (auto simp: sb1_def [symmetric] Let_def sbs split: if_splits)
    next
      case 3
      obtain xs e1 p where r: "swap_fill m (n - 1) (empties sbs) sbs = (xs, e1, p)"
        by (metis prod_cases3)
      then have eq: "ys' = sb1 # xs" "e = e1" "q = p"
        using 3 Cons.prems(4) None by (auto simp: sb1_def Let_def)
      have "empties sbs > 0" using 3 empties_nonneg [of sbs] by linarith
      note IH = Cons.IH [OF _ this _ r]
      have "copied (before_sect x (sb1 # xs))" if "copied (before_sect x xs)" for x
        using that sb1(2) by (auto simp: before_sect_def)
      with IH Cons.prems(1-3) eq sb1 None show ?thesis by auto
    qed
  next
    case (Some c)
    obtain xs e1 p where r: "swap_fill m n (empties sbs) sbs = (xs, e1, p)"
      by (metis prod_cases3)
    have eq: "ys' = sb # xs" "e = e1" "q = p" and pos: "empties sbs > 0"
      using Cons.prems(2,4) Some r by (auto simp: Let_def)
    note IH = Cons.IH [OF _ pos _ r]
    have "copied (before_sect x (sb # xs))" if "copied (before_sect x xs)" for x
      using that Some by (auto simp: before_sect_def)
    with IH Cons.prems eq Some show ?thesis by auto
  qed
qed simp

lemma swap_copy_unfold:
  assumes "g_sect_empty_first wk = Some p" "before_sect p (g_sects wk) = us" "from_sect p (g_sects wk) = zs"
    "swap_fill m (if \<not> force \<and> \<not> over_threshold lo wk then trimgroup_nsects_swapinmax lo
                  else g_nsects_empty wk) (g_nsects_empty wk) zs = (ys, k, q)"
  shows "swap_copy lo m force wk wt =
    (let wk1 = wk\<lparr>g_sects := us @ ys, g_nsects_empty := k\<rparr> in
     if k \<noteq> 0 then (case q of None \<Rightarrow> None | Some p \<Rightarrow> Some (k, wk1\<lparr>g_sect_empty_first := Some p\<rparr>, wt))
     else Some (0, direct_swap lo force (wk1\<lparr>g_sect_empty_first := None\<rparr>) wt))"
  unfolding swap_copy_def Let_def assms(1) option.case assms(2,3) assms(4) prod.case
  by (simp add: split_beta)

text \<open>\<open>swap_copy\<close> leaves some sectbufs for the next time, unless forced, or copies all of them
  and goes on to the swap.\<close>

lemma swap_copy_cases:
  assumes g: "grp_ok m B l r wk" and e: "g_nsects_empty wk \<noteq> 0"
  shows "(\<exists>n wk'. n \<noteq> 0 \<and> \<not> force \<and> swap_copy lo m force wk wt = Some (n, wk', wt) \<and>
            same_range wk wk' \<and> grp_ok m B l r wk') \<or>
         (\<exists>wk'. grp_ok m B l r wk' \<and> g_nsects_empty wk' = 0 \<and> same_range wk wk' \<and>
            swap_copy lo m force wk wt = Some (0, direct_swap lo force wk' wt))"
proof -
  let ?xs = "g_sects wk"
  have xs: "distinct (bdas ?xs)" "set (bdas ?xs) = B" "g_rootp wk = B" "g_nsects_empty wk = empties ?xs"
    "list_all (sect_ok m l r) ?xs" "g_nsects wk = int (length ?xs)"
    using g by (simp_all add: grp_ok_def Let_def)
  obtain p where p: "g_sect_empty_first wk = Some p" "p \<in> B" "copied (before_sect p ?xs)"
    using g e by (auto simp: grp_ok_def Let_def split: option.splits)
  obtain us sb vs where s: "?xs = us @ sb # vs" "s_bda sb = p" "p \<notin> set (bdas us)"
    using split_at_bda [OF _ xs(1), of p] p(2) xs(2) by metis
  have bf: "before_sect p ?xs = us" "from_sect p ?xs = sb # vs"
    using before_sect_split [OF s(3,2)] from_sect_split [OF s(3,2)] s(1) by simp_all
  have us: "empties us = 0" using p(3) bf(1) by (simp add: copied_iff)
  have eq: "empties (sb # vs) = empties ?xs" using us by (simp add: s(1))
  define n where "n = (if \<not> force \<and> \<not> over_threshold lo wk then trimgroup_nsects_swapinmax lo else empties ?xs)"
  obtain ys k q where f: "swap_fill m n (empties (sb # vs)) (sb # vs) = (ys, k, q)" by (metis prod_cases3)
  have pos: "empties (sb # vs) > 0" using e xs(4) eq empties_nonneg [of ?xs] by linarith
  have y: "bdas ys = bdas (sb # vs)" "k = empties ys" "list_all (sect_ok m l r) ys"
      "k \<noteq> 0 \<longrightarrow> (\<exists>p. q = Some p \<and> p \<in> set (bdas (sb # vs)) \<and> copied (before_sect p ys))"
      "n \<ge> empties (sb # vs) \<longrightarrow> k = 0"
  proof -
    have "distinct (bdas (sb # vs))" "list_all (sect_ok m l r) (sb # vs)"
      using xs(1,5) by (simp_all add: s(1))
    from swap_fill_ok [OF this(1) pos this(2) f]
    show "bdas ys = bdas (sb # vs)" "k = empties ys" "list_all (sect_ok m l r) ys"
      "k \<noteq> 0 \<longrightarrow> (\<exists>p. q = Some p \<and> p \<in> set (bdas (sb # vs)) \<and> copied (before_sect p ys))"
      "n \<ge> empties (sb # vs) \<longrightarrow> k = 0" by blast+
  qed
  define wk1 where "wk1 = wk\<lparr>g_sects := us @ ys, g_nsects_empty := k\<rparr>"
  have sw: "swap_copy lo m force wk wt =
      (if k \<noteq> 0 then (case q of None \<Rightarrow> None | Some p \<Rightarrow> Some (k, wk1\<lparr>g_sect_empty_first := Some p\<rparr>, wt))
       else Some (0, direct_swap lo force (wk1\<lparr>g_sect_empty_first := None\<rparr>) wt))"
  proof -
    show ?thesis
      unfolding wk1_def 
      by (rule swap_copy_unfold [OF p(1) bf, unfolded Let_def]) (simp only: xs(4) n_def [symmetric] f [unfolded eq])
  qed
  have ln: "length ys = length (sb # vs)" using y(1) by (metis bdas_def length_map)
  have ok: "grp_ok m B l r (wk1\<lparr>g_sect_empty_first := x\<rparr>)"
    if "x = None \<and> k = 0 \<or> (\<exists>p. x = Some p \<and> p \<in> B \<and> k \<noteq> 0 \<and> copied (before_sect p (us @ ys)))" for x
    using that xs(1,2,3,5,6) y(1,2,3) us ln empties_nonneg [of ys]
    by (cases x) (auto simp: grp_ok_def wk1_def s(1) empties_pos_iff)
  show ?thesis
  proof (cases "k = 0")
    case True
    then show ?thesis
      using sw ok [of None] by (auto simp: same_range_def wk1_def)
  next
    case False
    then obtain p' where p': "q = Some p'" "p' \<in> set (bdas (sb # vs))" "copied (before_sect p' ys)"
      using y(4) by blast
    have "p' \<notin> set (bdas us)" using p'(2) xs(1) s(1) by auto
    then have "before_sect p' (us @ ys) = us @ before_sect p' ys"
      by (induction us) (auto simp: before_sect_def)
    then have "grp_ok m B l r (wk1\<lparr>g_sect_empty_first := Some p'\<rparr>)"
      using ok [of "Some p'"] p' us False xs(2) s(1) by (auto simp: copied_iff)
    moreover have "\<not> force" using False y(5) eq by (auto simp: n_def)
    ultimately show ?thesis
      using sw False p'(1) by (auto simp: same_range_def wk1_def)
  qed
qed

section \<open>Deletion and flush\<close>

text \<open>Nothing to delete: the group starts after \<open>to_txid\<close>.\<close>

lemma trimgroup_delete_none: "to_txid \<le> g_ltxid grp \<Longrightarrow> pfs_trimgroup_delete grp to_txid = grp"
  by (simp add: pfs_trimgroup_delete_def)

lemma delete_loop_all:
  assumes "list_all (\<lambda>sb. s_txid sb \<le> t) sbs" "g_rootp grp = set (bdas sbs)" "distinct (bdas sbs)"
    "g_nsects grp = int (length sbs)" "g_nsects_empty grp = empties sbs" "g_sect_empty_first grp = None"
  shows "trimgroup_delete_loop t sbs grp =
    grp\<lparr>g_sects := [], g_rootp := {}, g_nsects := 0, g_nsects_empty := 0, g_sect_empty_first := None\<rparr>"
  using assms
proof (induction sbs arbitrary: grp)
  case (Cons sb sbs)
  then show ?case by (auto simp: insert_Diff_if)
qed simp

text \<open>A group that is copied completely is emptied by deleting up to its end.\<close>

lemma trimgroup_delete_all:
  assumes "grp_ok m B l r grp" "g_nsects_empty grp = 0" "g_rtxid grp = r" "g_ltxid grp < r"
  shows "grp_ok m' {} l' r' (pfs_trimgroup_delete grp r) \<and> g_nsects_empty (pfs_trimgroup_delete grp r) = 0 \<and>
    g_ltxid (pfs_trimgroup_delete grp r) = r \<and> g_rtxid (pfs_trimgroup_delete grp r) = r"
proof -
  have "g_sect_empty_first grp = None"
    using assms(1,2) by (auto simp: grp_ok_def Let_def split: option.splits)
  moreover have "list_all (\<lambda>sb. s_txid sb \<le> r) (g_sects grp)"
    using assms(1) by (auto simp: grp_ok_def Let_def sect_ok_def list_all_iff)
  ultimately show ?thesis
    using assms by (simp add: pfs_trimgroup_delete_def delete_loop_all grp_ok_def Let_def)
qed

text \<open>Flushing brings the sectors of the group to the group's store \<open>S\<close>, one at a time: any
  sector may have been written, those in \<open>F\<close> have.\<close>

definition flushed :: "pbd \<Rightarrow> store \<Rightarrow> u64 set \<Rightarrow> pbd \<Rightarrow> bool" where
  "flushed d0 S F d \<longleftrightarrow> d = d0\<lparr>d_sect := d_sect d\<rparr> \<and>
     (\<forall>b. d_sect d b = d_sect d0 b \<or> d_sect d b = S b) \<and> (\<forall>b\<in>F. d_sect d b = S b)"

lemma flushed_step:
  "flushed d0 S F d \<Longrightarrow> flushed d0 S (insert b F) (d\<lparr>d_sect := (d_sect d)(b := S b)\<rparr>)"
  "flushed d0 S F d \<Longrightarrow> flushed d0 S F (d\<lparr>d_sect := (d_sect d)(b := S b)\<rparr>)"
  by (cases d0; cases d; auto simp: flushed_def)+

lemma flushed_mono: "flushed d0 S F d \<Longrightarrow> G \<subseteq> F \<Longrightarrow> flushed d0 S G d"
  by (auto simp: flushed_def)

lemma sect_write_flushes:
  "safe (flushed d0 S F) (sect_write b (S b))
     (\<lambda>rv d. if rv < 0 then flushed d0 S F d else flushed d0 S (insert b F) d) (flushed d0 S {})"
  unfolding sect_write_def
  by (rule safe_transfer) (auto simp: flushed_step intro: flushed_step flushed_mono)

lemma flush_loop_safe:
  assumes "list_all (sect_ok S (g_ltxid grp) (g_rtxid grp)) sbs" "copied sbs" "n \<ge> 0"
  shows "safe (flushed d0 S F) (trimgroup_flush_loop grp sbs n)
    (\<lambda>rv d. flushed d0 S {} d \<and>
       (rv \<ge> 0 \<longrightarrow> rv = n + int (length sbs) \<and> flushed d0 S (F \<union> set (bdas sbs)) d))
    (flushed d0 S {})"
  using assms
proof (induction sbs arbitrary: n F)
  case Nil
  then show ?case by (auto intro!: safe_ret intro: flushed_mono)
next
  case (Cons sb sbs)
  then have sb: "s_buf sb = Some (S (s_bda sb))" "s_txid sb > g_ltxid grp \<and> s_txid sb \<le> g_rtxid grp"
    by (auto simp: sect_ok_def)
  let ?Q = "\<lambda>rv d. flushed d0 S {} d \<and>
       (rv \<ge> 0 \<longrightarrow> rv = n + int (length (sb # sbs)) \<and> flushed d0 S (F \<union> set (bdas (sb # sbs))) d)"
  have IH: "safe (flushed d0 S (insert (s_bda sb) F)) (trimgroup_flush_loop grp sbs (n + 1)) ?Q (flushed d0 S {})"
  proof (rule safe_weaken [OF Cons.IH [of "n + 1" "insert (s_bda sb) F"]])
    show "list_all (sect_ok S (g_ltxid grp) (g_rtxid grp)) sbs" "copied sbs" "0 \<le> n + 1"
      using Cons.prems by auto
  qed (auto simp: Un_insert_right)
  have "safe (\<lambda>d. if rv < 0 then flushed d0 S F d else flushed d0 S (insert (s_bda sb) F) d)
      (if rv < 0 then ret rv else trimgroup_flush_loop grp sbs (n + 1)) ?Q (flushed d0 S {})" for rv
    using IH by (auto intro!: safe_ret intro: flushed_mono)
  then show ?case
    using sb by (auto intro!: safe_bind [OF sect_write_flushes])
qed

lemma trimgroup_flush_safe:
  assumes "grp_ok S B (g_ltxid grp) (g_rtxid grp) grp" "g_nsects_empty grp = 0"
  shows "safe ((=) d0) (pfs_trimgroup_flush grp)
    (\<lambda>rv d. flushed d0 S {} d \<and> (rv \<ge> 0 \<longrightarrow> rv = g_nsects grp \<and> flushed d0 S B d))
    (flushed d0 S {})"
proof -
  have g: "list_all (sect_ok S (g_ltxid grp) (g_rtxid grp)) (g_sects grp)" "copied (g_sects grp)"
    "set (bdas (g_sects grp)) = B" "g_nsects grp = int (length (g_sects grp))"
    using assms by (auto simp: grp_ok_def Let_def copied_iff)
  show ?thesis
    unfolding pfs_trimgroup_flush_def
    by (rule safe_weaken [OF flush_loop_safe [OF g(1,2), of 0 d0 "{}"]])
       (auto simp: g(3,4) flushed_def)
qed

end
