(* ===== verification/Journal_Ring.thy ===== *)
theory Journal_Ring
  imports Trimgroup_Safe
begin

text \<open>
  The ring in terms of slots: the offset arithmetic of \<open>pfs_log.cc\<close>, what a write of log
  entries does to the ring, and what a scan reads back.
\<close>

section \<open>Offsets\<close>

definition ring_size :: "leader_record \<Rightarrow> nat \<Rightarrow> bool" where
  "ring_size lr N \<longleftrightarrow> N < 2 ^ 23 \<and> unat (log_size lr) = LE_SIZE * N \<and> N > 0"

lemma sint_small: "uint (w :: u64) < 2 ^ 63 \<Longrightarrow> sint w = uint w"
proof -
  assume "uint w < 2 ^ 63"
  moreover have "- (2 ^ 63) \<le> uint w" by (rule order_trans [OF _ uint_ge_0]) simp
  ultimately show "sint w = uint w"
    by (simp add: sint_uint signed_take_bit_int_eq_self)
qed

lemma sint_offset: "unat (w :: u64) = LE_SIZE * k \<Longrightarrow> k < 2 ^ 23 \<Longrightarrow> sint w = int (LE_SIZE * k)"
  by (subst sint_small) (simp_all add: uint_nat)

lemma uint_word_small: "0 \<le> x \<Longrightarrow> x < 2 ^ 63 \<Longrightarrow> uint (word_of_int x :: u64) = x"
  by (simp add: unsigned_of_int take_bit_int_eq_self)

lemma sint_word_small: "0 \<le> x \<Longrightarrow> x < 2 ^ 63 \<Longrightarrow> sint (word_of_int x :: u64) = x"
  using uint_word_small [of x] sint_small [of "word_of_int x"] by simp

lemma word_bytes:
  assumes "k < 2 ^ 24"
  shows "unat (of_nat (LE_SIZE * k) :: u64) = LE_SIZE * k"
    "uint (word_of_int (int (LE_SIZE * k)) :: u64) = int (LE_SIZE * k)"
    "sint (word_of_int (int (LE_SIZE * k)) :: u64) = int (LE_SIZE * k)"
proof -
  have b: "int (LE_SIZE * k) < 2 ^ 63" using assms by simp
  show "unat (of_nat (LE_SIZE * k) :: u64) = LE_SIZE * k"
    using assms by (simp add: unat_of_nat del: of_nat_mult)
  show "uint (word_of_int (int (LE_SIZE * k)) :: u64) = int (LE_SIZE * k)"
    by (rule uint_word_small [OF _ b]) simp
  show "sint (word_of_int (int (LE_SIZE * k)) :: u64) = int (LE_SIZE * k)"
    by (rule sint_word_small [OF _ b]) simp
qed

lemma off_modular_add:
  assumes "unat L = LE_SIZE * N" "N < 2 ^ 23" "unat off = LE_SIZE * a" "a < N"
    "unat len = LE_SIZE * k" "k \<le> N"
  shows "unat (OFF_MODULAR_ADD off len L) = LE_SIZE * ((a + k) mod N)"
proof -
  have sum: "unat (off + len) = LE_SIZE * (a + k)"
    using assms by (subst unat_plus_simple [THEN iffD1]) (auto simp: no_olen_add_nat)
  show ?thesis
  proof (cases "a + k < N")
    case True
    then show ?thesis
      using sum assms by (simp add: OFF_MODULAR_ADD_def word_le_nat_alt Let_def)
  next
    case False
    then have "L \<le> off + len" using sum assms by (simp add: word_le_nat_alt)
    then have "unat (off + len - L) = LE_SIZE * (a + k - N)"
      using sum assms(1) by (simp add: unat_sub right_diff_distrib')
    moreover have "(a + k) mod N = a + k - N"
      using False assms(4,6) by (subst le_mod_geq) auto
    ultimately show ?thesis
      using \<open>L \<le> off + len\<close> by (simp add: OFF_MODULAR_ADD_def Let_def)
  qed
qed

lemma len_modular_cut:
  assumes "unat L = LE_SIZE * N" "N < 2 ^ 23" "unat off = LE_SIZE * a" "a < N" "k \<le> 2 ^ 23"
  shows "LEN_MODULAR_CUT (LE_SIZE * k) off L = LE_SIZE * min k (N - a)"
proof -
  have k: "unat (of_nat (LE_SIZE * k) :: u64) = LE_SIZE * k"
    using assms(5) by (simp add: unat_of_nat del: of_nat_mult)
  then have sum: "unat (of_nat (LE_SIZE * k) + off) = LE_SIZE * (k + a)"
    using assms by (subst unat_plus_simple [THEN iffD1]) (auto simp: no_olen_add_nat)
  have "off \<le> L" using assms by (simp add: word_le_nat_alt)
  then have "unat (L - off) = LE_SIZE * (N - a)"
    using assms by (simp add: unat_sub right_diff_distrib')
  then show ?thesis
    using sum assms(1,4) by (auto simp: LEN_MODULAR_CUT_def word_less_nat_alt min_def)
qed

section \<open>Writing\<close>

text \<open>Some, or all, of the entries \<open>les\<close> have been written from slot \<open>a\<close> on.\<close>

definition part_written :: "'a list \<Rightarrow> nat \<Rightarrow> 'a list \<Rightarrow> 'a list \<Rightarrow> bool" where
  "part_written j a les j' \<longleftrightarrow> length j' = length j \<and>
     (\<forall>x<length j. j' ! x = j ! x \<or> (\<exists>k<length les. x = (a + k) mod length j \<and> j' ! x = les ! k))"

definition full_written :: "'a list \<Rightarrow> nat \<Rightarrow> 'a list \<Rightarrow> 'a list \<Rightarrow> bool" where
  "full_written j a les j' \<longleftrightarrow> part_written j a les j' \<and>
     (\<forall>k<length les. j' ! ((a + k) mod length j) = les ! k)"

lemma part_written_refl [simp]: "part_written j a les j"
  by (simp add: part_written_def)

lemma full_written_Nil [simp]: "full_written j a [] j' \<longleftrightarrow> j' = j"
  by (auto simp: full_written_def part_written_def intro: nth_equalityI)

lemma overwrite_nth:
  assumes "x < length ys"
  shows "overwrite fs xs ys i ! x =
    (if i \<le> x \<and> x - i < length fs \<and> x - i < length xs \<and> fs ! (x - i) then xs ! (x - i) else ys ! x)"
  using assms
proof (induction fs xs ys i rule: overwrite.induct)
  case (1 f fs y xs ys i)
  consider "x < i" | "x = i" | d where "x = Suc (i + d)"
    by (metis less_imp_Suc_add linorder_neqE_nat)
  then show ?case using 1 by cases (auto simp: nth_list_update)
qed auto

lemma overwrite_part:
  assumes "a + length les \<le> length j"
  shows "part_written j a les (overwrite fs les j a)"
  unfolding part_written_def
proof (intro conjI allI impI)
  fix x assume x: "x < length j"
  show "overwrite fs les j a ! x = j ! x \<or>
      (\<exists>k<length les. x = (a + k) mod length j \<and> overwrite fs les j a ! x = les ! k)"
    using x by (auto simp: overwrite_nth intro!: exI [of _ "x - a"])
qed simp

lemma overwrite_full:
  assumes "a + length les \<le> length j"
  shows "full_written j a les (overwrite (replicate (length les) True) les j a)"
  unfolding full_written_def
  using assms by (auto simp: overwrite_part overwrite_nth)

lemma part_written_append:
  assumes "part_written j a xs j1" "part_written j1 (a + length xs) ys j2"
  shows "part_written j a (xs @ ys) j2"
  unfolding part_written_def
proof (intro conjI allI impI)
  have len: "length j1 = length j" "length j2 = length j"
    using assms by (auto simp: part_written_def)
  then show "length j2 = length j" by simp
  fix x assume x: "x < length j"
  show "j2 ! x = j ! x \<or> (\<exists>k<length (xs @ ys). x = (a + k) mod length j \<and> j2 ! x = (xs @ ys) ! k)"
  proof (cases "j2 ! x = j1 ! x")
    case True
    then show ?thesis
      using assms(1) x by (force simp: part_written_def nth_append)
  next
    case False
    then obtain k where "k < length ys" "x = (a + length xs + k) mod length j" "j2 ! x = ys ! k"
      using assms(2) x len by (auto simp: part_written_def)
    then show ?thesis
      by (intro disjI2 exI [of _ "length xs + k"]) (auto simp: nth_append algebra_simps)
  qed
qed

lemma ring_slots_distinct:
  assumes "k < N" "l < N" "(a + k) mod N = (a + l) mod N"
  shows "k = (l::nat)"
proof -
  have "y = x" if "x \<le> y" "y < N" "(a + y) mod N = (a + x) mod N" for x y
    using that mod_eq_dvd_iff_nat [of "a + x" "a + y" N] by (cases "y = x") (auto dest: dvd_imp_le)
  then show ?thesis using assms by (metis nat_le_linear)
qed

lemma part_written_outside:
  assumes "part_written j a les j'" "x < length j" "\<And>k. k < length les \<Longrightarrow> x \<noteq> (a + k) mod length j"
  shows "j' ! x = j ! x"
  using assms unfolding part_written_def by blast

lemma full_written_append:
  assumes "full_written j a xs j1" "full_written j1 (a + length xs) ys j2"
    "length xs + length ys \<le> length j"
  shows "full_written j a (xs @ ys) j2"
proof -
  have len: "length j1 = length j" using assms(1) by (simp add: full_written_def part_written_def)
  have "j2 ! ((a + k) mod length j) = (xs @ ys) ! k" if k: "k < length (xs @ ys)" for k
  proof (cases "k < length xs")
    case True
    have pos: "length j > 0" using k assms(3) by auto
    have ne: "(a + k) mod length j \<noteq> (a + length xs + l) mod length j" if "l < length ys" for l
      using ring_slots_distinct [of k "length j" "length xs + l" a] that True assms(3)
      by (auto simp: add.assoc)
    have "j2 ! ((a + k) mod length j) = j1 ! ((a + k) mod length j)"
      by (rule part_written_outside [of _ "a + length xs" ys])
         (use assms(2) pos ne len in \<open>auto simp: full_written_def\<close>)
    then show ?thesis using assms(1) True by (simp add: full_written_def nth_append)
  next
    case False
    then have "j2 ! ((a + length xs + (k - length xs)) mod length j) = ys ! (k - length xs)"
      using assms(2) k len False unfolding full_written_def by (metis length_append less_diff_conv2 not_less add.commute)
    then show ?thesis using False by (simp add: nth_append)
  qed
  then show ?thesis
    using assms part_written_append by (auto simp: full_written_def)
qed

lemma part_written_mod:
  "part_written j (a mod length j) les j' = part_written j a les j'"
  "full_written j (a mod length j) les j' = full_written j a les j'"
  by (simp_all add: full_written_def part_written_def mod_add_left_eq)

text \<open>The device after a write into the journal that may have been cut off.\<close>

definition jpart :: "pbd \<Rightarrow> nat \<Rightarrow> logentry list \<Rightarrow> pbd \<Rightarrow> bool" where
  "jpart d0 a les d \<longleftrightarrow> d = d0\<lparr>d_journal := d_journal d\<rparr> \<and> part_written (d_journal d0) a les (d_journal d)"

definition jfull :: "pbd \<Rightarrow> nat \<Rightarrow> logentry list \<Rightarrow> pbd \<Rightarrow> bool" where
  "jfull d0 a les d \<longleftrightarrow> d = d0\<lparr>d_journal := d_journal d\<rparr> \<and> full_written (d_journal d0) a les (d_journal d)"

lemma jfull_part: "jfull d0 a les d \<Longrightarrow> jpart d0 a les d"
  by (simp add: jfull_def jpart_def full_written_def)

lemma jfull_Nil [simp]: "jfull d0 a [] d \<longleftrightarrow> d = d0"
  by (auto simp: jfull_def)

lemma jfull_Nil_eq: "jfull d0 a [] = (=) d0"
  by auto

lemma jfull_len: "jfull d0 a les d \<Longrightarrow> length (d_journal d) = length (d_journal d0)"
  by (auto simp: jfull_def full_written_def part_written_def)

lemma jpart_trans:
  "jfull d0 a xs d1 \<Longrightarrow> jpart d1 (a + length xs) ys d \<Longrightarrow> jpart d0 a (xs @ ys) d"
  unfolding jfull_def jpart_def full_written_def
  by (metis (no_types, lifting) part_written_append pbd.surjective pbd.update_convs(2))

lemma jpart_prefix: "jpart d0 a xs d \<Longrightarrow> jpart d0 a (xs @ ys) d"
  unfolding jpart_def part_written_def
  by (metis (no_types, lifting) length_append nth_append trans_less_add1)

lemma jfull_trans:
  "jfull d0 a xs d1 \<Longrightarrow> jfull d1 (a + length xs) ys d \<Longrightarrow> length xs + length ys \<le> length (d_journal d0) \<Longrightarrow>
     jfull d0 a (xs @ ys) d"
  unfolding jfull_def
  by (metis (no_types, lifting) full_written_append pbd.surjective pbd.update_convs(2))

lemma jmod: "jpart d (a mod length (d_journal d)) les d' = jpart d a les d'"
  "jfull d (a mod length (d_journal d)) les d' = jfull d a les d'"
  by (simp_all add: jpart_def jfull_def part_written_mod)

text \<open>An outcome of a write of \<open>les\<close> at slot \<open>a\<close>: a negative code or the number of bytes.\<close>

definition jwrites :: "pbd \<Rightarrow> nat \<Rightarrow> logentry list \<Rightarrow> int \<Rightarrow> pbd \<Rightarrow> bool" where
  "jwrites d0 a les rv d \<longleftrightarrow> (if rv < 0 then jpart d0 a les d else rv = int (LE_SIZE * length les) \<and> jfull d0 a les d)"

lemma journal_pwrite_safe:
  assumes "a + n \<le> length (d_journal d)" "n \<le> length buf"
  shows "safe ((=) d) (journal_pwrite buf (LE_SIZE * n) (LE_SIZE * a))
    (jwrites d a (take n buf)) (jpart d a (take n buf))"
  using assms overwrite_part [of a "take n buf" "d_journal d"] overwrite_full [of a "take n buf" "d_journal d"]
  unfolding journal_pwrite_def Let_def
  by (intro safe_transfer) (auto simp: jwrites_def jpart_def jfull_def min_def)

lemma journal_pwrite_cong:
  assumes "\<And>rv. rv < 0 \<or> rv = int len \<Longrightarrow> f rv = g rv"
  shows "bindW (journal_pwrite buf len off) f = bindW (journal_pwrite buf len off) g"
  using assms by (auto simp: fun_eq_iff bindW_def journal_pwrite_def transfer_def Let_def split: io_res.split prod.split)

lemma log_write_loop_0 [simp]: "log_write_loop fuel L buf 0 off = ret 0"
  by (cases fuel) auto

text \<open>One write when the entries fit before the end of the ring, else two.\<close>

lemma log_write_loop_fits:
  assumes "unat L = LE_SIZE * N" "N < 2 ^ 23" "unat off = LE_SIZE * a" "a < N" "a + length buf \<le> N"
  shows "log_write_loop (Suc fuel) L buf (LE_SIZE * length buf) off =
    (if buf = [] then ret 0
     else bindW (journal_pwrite buf (LE_SIZE * length buf) (LE_SIZE * a)) (\<lambda>rv. ret (min rv 0)))"
proof (cases "buf = []")
  case False
  have "LEN_MODULAR_CUT (LE_SIZE * length buf) off L = LE_SIZE * length buf"
    using len_modular_cut [OF assms(1-4), of "length buf"] assms(2,5) by auto
  with False show ?thesis
    by (auto simp: assms(3) intro!: journal_pwrite_cong)
qed simp

lemma log_write_loop_wraps:
  assumes "unat L = LE_SIZE * N" "N < 2 ^ 23" "unat off = LE_SIZE * a" "a < N" "a + length buf > N"
    "length buf \<le> N"
  shows "log_write_loop 2 L buf (LE_SIZE * length buf) off =
    bindW (journal_pwrite buf (LE_SIZE * (N - a)) (LE_SIZE * a)) (\<lambda>rv.
      if rv < 0 then ret rv
      else bindW (journal_pwrite (drop (N - a) buf) (LE_SIZE * length (drop (N - a) buf)) 0) (\<lambda>rv. ret (min rv 0)))"
proof -
  have cut: "LEN_MODULAR_CUT (LE_SIZE * length buf) off L = LE_SIZE * (N - a)"
    using len_modular_cut [OF assms(1-4), of "length buf"] assms(2,5,6) by auto
  have w: "unat (word_of_int (int (LE_SIZE * (N - a))) :: u64) = LE_SIZE * (N - a)"
    using assms(2) by (simp add: unat_of_nat flip: of_nat_mult)
  have "unat (OFF_MODULAR_ADD off (word_of_int (int (LE_SIZE * (N - a)))) L) = LE_SIZE * ((a + (N - a)) mod N)"
    using assms(4) by (intro off_modular_add [OF assms(1-4) w]) auto
  then have off: "OFF_MODULAR_ADD off (word_of_int (int (LE_SIZE * (N - a)))) L = 0"
    using assms(4) by (simp add: unat_eq_zero)
  have len: "LE_SIZE * length buf - LE_SIZE * (N - a) = LE_SIZE * length (drop (N - a) buf)"
    by (simp add: right_diff_distrib')
  have ne: "drop (N - a) buf \<noteq> []" "LE_SIZE * length buf > 0" using assms(4,5) by auto
  have nxt: "log_write_loop 1 L (drop (N - a) buf) (LE_SIZE * length buf - LE_SIZE * (N - a)) 0 =
      bindW (journal_pwrite (drop (N - a) buf) (LE_SIZE * length (drop (N - a) buf)) 0) (\<lambda>rv. ret (min rv 0))"
    using log_write_loop_fits [OF assms(1,2), of 0 0 "drop (N - a) buf" 0] ne assms(4,5,6)
    unfolding len One_nat_def by simp
  let ?g = "\<lambda>rv. if rv < 0 then ret rv
      else bindW (journal_pwrite (drop (N - a) buf) (LE_SIZE * length (drop (N - a) buf)) 0) (\<lambda>rv. ret (min rv 0))"
  have "log_write_loop (Suc 1) L buf (LE_SIZE * length buf) off =
      bindW (journal_pwrite buf (LE_SIZE * (N - a)) (LE_SIZE * a)) (\<lambda>wlen.
        if wlen < 0 then ret wlen
        else log_write_loop 1 L (drop (nat wlen div LE_SIZE) buf) (LE_SIZE * length buf - nat wlen)
               (OFF_MODULAR_ADD off (word_of_int wlen) L))"
    using ne(2) unfolding log_write_loop.simps(2) cut assms(3) by simp
  also have "\<dots> = bindW (journal_pwrite buf (LE_SIZE * (N - a)) (LE_SIZE * a)) ?g"
  proof (rule journal_pwrite_cong)
    fix rv assume "rv < 0 \<or> rv = int (LE_SIZE * (N - a))"
    moreover have "nat (int (LE_SIZE * (N - a))) = LE_SIZE * (N - a)" by (rule nat_int)
    ultimately show "(if rv < 0 then ret rv
        else log_write_loop 1 L (drop (nat rv div LE_SIZE) buf) (LE_SIZE * length buf - nat rv)
               (OFF_MODULAR_ADD off (word_of_int rv) L)) = ?g rv"
      using nxt off by (auto simp only: nat_int nonzero_mult_div_cancel_left of_nat_less_0_iff if_False if_True)
  qed
  finally show ?thesis by (simp only: numeral_2_eq_2 One_nat_def)
qed

lemma jwrites_min: "jwrites d a les rv d' \<Longrightarrow> if min rv 0 < 0 then jpart d a les d' else jfull d a les d'"
  by (auto simp: jwrites_def min_def split: if_splits)

lemma log_write_loop_safe:
  assumes L: "unat L = LE_SIZE * N" "N < 2 ^ 23" "unat off = LE_SIZE * a" "a < N"
    and N: "N = length (d_journal d)" "length buf \<le> N"
  shows "safe ((=) d) (log_write_loop 2 L buf (LE_SIZE * length buf) off)
    (\<lambda>rv d'. rv \<le> 0 \<and> (if rv < 0 then jpart d a buf d' else jfull d a buf d')) (jpart d a buf)"
    (is "safe _ _ ?Q ?C")
proof (cases "a + length buf \<le> N")
  case True
  have "safe ((=) d) (journal_pwrite buf (LE_SIZE * length buf) (LE_SIZE * a)) (jwrites d a buf) ?C"
    using journal_pwrite_safe [of a "length buf" d buf] True N by simp
  then show ?thesis
    unfolding numeral_2_eq_2 log_write_loop_fits [OF L True]
    by (auto intro!: safe_ret safe_bind [where R = "jwrites d a buf"] simp: jwrites_min)
next
  case False
  let ?b = "take (N - a) buf" and ?r = "drop (N - a) buf"
  have lb: "length ?b = N - a" "a + length ?b = N" using False L(4) by auto
  have w1: "safe ((=) d) (journal_pwrite buf (LE_SIZE * (N - a)) (LE_SIZE * a)) (jwrites d a ?b) (jpart d a ?b)"
    using journal_pwrite_safe [of a "N - a" d buf] False L(4) N by simp
  have pre: "jpart d a buf d'" if "jpart d a ?b d'" for d'
    using jpart_prefix [OF that, of ?r] by simp
  have w2: "safe ((=) d1) (bindW (journal_pwrite ?r (LE_SIZE * length ?r) 0) (\<lambda>rv. ret (min rv 0))) ?Q ?C"
    if d1: "jfull d a ?b d1" for d1
  proof -
    have z: "jpart d1 0 ?r d2 = jpart d1 (a + length ?b) ?r d2" "jfull d1 0 ?r d2 = jfull d1 (a + length ?b) ?r d2" for d2
      using jmod [of d1 "a + length ?b" ?r d2] jfull_len [OF d1] lb N(1) by simp_all
    have tr: "jpart d a buf d2" if "jpart d1 0 ?r d2" for d2
      using jpart_trans [OF d1, of ?r d2] that z(1) by simp
    have tr2: "jfull d a buf d2" if "jfull d1 0 ?r d2" for d2
      using jfull_trans [OF d1, of ?r d2] that z(2) N by simp
    have "safe ((=) d1) (journal_pwrite ?r (LE_SIZE * length ?r) 0) (jwrites d1 0 ?r) ?C"
    proof (rule safe_weaken)
      show "safe ((=) d1) (journal_pwrite ?r (LE_SIZE * length ?r) 0) (jwrites d1 0 ?r) (jpart d1 0 ?r)"
        using journal_pwrite_safe [of 0 "length ?r" d1 ?r] jfull_len [OF d1] N by simp
    qed (auto intro: tr)
    then show ?thesis
      using tr tr2 by (auto intro!: safe_ret safe_bind [where R = "jwrites d1 0 ?r"] dest!: jwrites_min split: if_splits)
  qed
  show ?thesis
    unfolding log_write_loop_wraps [OF L False [unfolded not_le] N(2)]
  proof (rule safe_bind)
    show "safe ((=) d) (journal_pwrite buf (LE_SIZE * (N - a)) (LE_SIZE * a)) (jwrites d a ?b) ?C"
      by (rule safe_weaken [OF w1]) (auto intro: pre)
    show "safe (jwrites d a ?b rv) (if rv < 0 then ret rv
        else bindW (journal_pwrite ?r (LE_SIZE * length ?r) 0) (\<lambda>rv. ret (min rv 0))) ?Q ?C" for rv
    proof (cases "rv < 0")
      case True
      then show ?thesis using pre by (auto simp: jwrites_def intro!: safe_ret)
    next
      case False
      then show ?thesis by (simp only: if_False) (rule safe_pre, rule w2, simp add: jwrites_def)
    qed
  qed
qed

section \<open>Space\<close>

text \<open>The live part of the ring: \<open>n\<close> entries from slot \<open>s\<close> on.\<close>

definition ring_live :: "leader_record \<Rightarrow> nat \<Rightarrow> nat \<Rightarrow> nat \<Rightarrow> bool" where
  "ring_live lr N s n \<longleftrightarrow> N < 2 ^ 23 \<and> unat (log_size lr) = LE_SIZE * N \<and> s < N \<and> n < N \<and>
     unat (tail_offset lr) = LE_SIZE * s \<and> unat (head_offset lr) = LE_SIZE * ((s + n) mod N)"

lemma ring_ok_live: "ring_ok env lr j s ts \<Longrightarrow> ring_live lr (length j) s (length (concat ts))"
  by (simp add: ring_ok_def ring_live_def)

lemma log_space_live:
  assumes "ring_live (log_leader log) N s n"
  shows "\<exists>sp. pfs_log_space log = Some sp \<and> unat sp = LE_SIZE * (N - n)"
proof -
  let ?lr = "log_leader log"
  have N: "N < 2 ^ 23" "s < N" "n < N" "unat (log_size ?lr) = LE_SIZE * N"
    and o: "unat (tail_offset ?lr) = LE_SIZE * s" "unat (head_offset ?lr) = LE_SIZE * ((s + n) mod N)"
    using assms by (auto simp: ring_live_def)
  have m: "(s + n) mod N < N" using N by simp
  have si: "sint (tail_offset ?lr) = int (LE_SIZE * s)" "sint (head_offset ?lr) = int (LE_SIZE * ((s + n) mod N))"
    using sint_offset [OF o(1)] sint_offset [OF o(2)] N m by linarith+
  have L: "log_size ?lr = word_of_int (int (LE_SIZE * N))"
    by (simp flip: N(4) of_nat_mult)
  have used: "pfs_log_usedspace (log_size ?lr) (tail_offset ?lr) (head_offset ?lr) = Some (int (LE_SIZE * n))"
  proof (cases "s + n < N")
    case True
    then show ?thesis by (simp add: pfs_log_usedspace_def si Let_def)
  next
    case False
    then have mm: "(s + n) mod N = s + n - N" using N(2,3) by (subst le_mod_geq) auto
    have "sint (word_of_int (int (LE_SIZE * n)) :: u64) = int (LE_SIZE * n)"
      using N(1,3) by (intro word_bytes) simp
    moreover have "int (LE_SIZE * (s + n - N)) - int (LE_SIZE * s) + int (LE_SIZE * N) = int (LE_SIZE * n)"
      using False by (simp add: of_nat_diff)
    then have "(word_of_int (int (LE_SIZE * (s + n - N)) - int (LE_SIZE * s)) + log_size ?lr) =
        (word_of_int (int (LE_SIZE * n)) :: u64)"
      unfolding L by (simp only: wi_hom_add)
    moreover have "int (LE_SIZE * (s + n - N)) - int (LE_SIZE * s) < 0"
      using False N(3) by (simp add: of_nat_diff)
    ultimately show ?thesis
      unfolding pfs_log_usedspace_def si mm Let_def by simp
  qed
  have "unat (log_size ?lr - word_of_int (int (LE_SIZE * n))) = LE_SIZE * (N - n)"
  proof -
    have w: "unat (word_of_int (int (LE_SIZE * n)) :: u64) = LE_SIZE * n"
      using N(1,3) by (simp add: unat_of_nat flip: of_nat_mult)
    then have "word_of_int (int (LE_SIZE * n)) \<le> log_size ?lr"
      using N(3,4) by (simp add: word_le_nat_alt)
    with w N(4) show ?thesis by (simp add: unat_sub right_diff_distrib')
  qed
  with used show ?thesis by (simp add: pfs_log_space_def Let_def)
qed

lemma log_write_safe:
  assumes live: "ring_live (log_leader log) N s n" and N: "N = length (d_journal d)"
    and len: "m + length buf < N - n"
  shows "safe ((=) d)
    (pfs_log_write log buf (LE_SIZE * length buf) (head_offset (log_leader log) + of_nat (LE_SIZE * m)))
    (jwrites d (s + n + m) buf) (jpart d (s + n + m) buf)"
proof -
  let ?lr = "log_leader log" let ?L = "log_size ?lr" let ?a = "(s + n) mod N"
  let ?off = "OFF_MODULAR_ADD (head_offset ?lr + of_nat (LE_SIZE * m)) 0 ?L"
  have l: "N < 2 ^ 23" "s < N" "n < N" "unat ?L = LE_SIZE * N" "unat (head_offset ?lr) = LE_SIZE * ?a" "?a < N"
    using live by (auto simp: ring_live_def)
  obtain sp where sp: "pfs_log_space log = Some sp" "unat sp = LE_SIZE * (N - n)"
    using log_space_live [OF live] by blast
  have w: "unat (of_nat (LE_SIZE * k) :: u64) = LE_SIZE * k" if "k < N" for k
    using that l(1) by (simp add: unat_of_nat del: of_nat_mult)
  have asrt: "of_nat (LE_SIZE * length buf) < sp"
    using w [of "length buf"] len sp(2) by (simp add: word_less_nat_alt)
  have "?off = OFF_MODULAR_ADD (head_offset ?lr) (of_nat (LE_SIZE * m)) ?L"
    by (simp add: OFF_MODULAR_ADD_def Let_def)
  then have off: "unat ?off = LE_SIZE * ((?a + m) mod N)"
    using off_modular_add [OF l(4,1,5,6) w [of m]] len by simp
  have md: "(?a + m) mod N = (s + n + m) mod N" by (simp add: mod_add_left_eq)
  have md2: "jpart d ((?a + m) mod N) buf d' = jpart d (s + n + m) buf d'"
    "jfull d ((?a + m) mod N) buf d' = jfull d (s + n + m) buf d'" for d'
    using jmod [of d "s + n + m" buf d'] unfolding N [symmetric] md by auto
  have "safe ((=) d) (log_write_loop 2 ?L buf (LE_SIZE * length buf) ?off)
      (\<lambda>rv d'. rv \<le> 0 \<and> (if rv < 0 then jpart d (s + n + m) buf d' else jfull d (s + n + m) buf d'))
      (jpart d (s + n + m) buf)"
    by (rule safe_weaken [OF log_write_loop_safe [OF l(4,1) off _ N, of buf]])
       (use l(2,6) len md2 in auto)
  then show ?thesis
    using asrt sp(1) by (auto simp: pfs_log_write_def Let_def jwrites_def
        intro!: safe_bind [where m = "log_write_loop _ _ _ _ _"] safe_ret)
qed

section \<open>Logging a transaction\<close>

text \<open>An operation that is ready to be logged, and the same of the operations of a committed
  transaction.\<close>

definition txop_ready :: "lease_env \<Rightarrow> 'cb txop \<Rightarrow> bool" where
  "txop_ready env tp \<longleftrightarrow> top_flags tp AND TOP_FLG_DONE \<noteq> 0 \<and> top_buf tp = Some (top_bda tp) \<and>
     jop_ok env (txop_jop tp)"

lemma typed_not_none: "metaobj_typed mo \<Longrightarrow> mo_type mo \<noteq> MT_NONE"
  by (auto simp: metaobj_typed.simps split: modata.splits)

lemma txop_log_ready:
  fixes lsn :: u64
  assumes "txop_ready env tp" "uint lsn + int k < 2 ^ 63"
  shows "pfs_txop_log (env_crc env) txid tp (sint (lsn + of_nat k)) nx =
    Some (mk_entry env txid (uint lsn + int k) nx (txop_jop tp))"
proof -
  have "lsn + of_nat k = word_of_int (uint lsn + int k)" by simp
  then have "sint (lsn + of_nat k) = uint lsn + int k"
    using sint_word_small [of "uint lsn + int k"] assms(2) by simp
  then show ?thesis
    using assms(1) typed_not_none
    by (auto simp: pfs_txop_log_def txop_ready_def jop_ok_def txop_jop_def mk_entry_def Let_def)
qed

lemma log_write_after:
  assumes live: "ring_live (log_leader log) N s n" and N: "N = length (d_journal d0)"
    and len: "length wr + length buf < N - n"
  shows "safe (jfull d0 (s + n) wr)
    (pfs_log_write log buf (LE_SIZE * length buf) (head_offset (log_leader log) + of_nat (LE_SIZE * length wr)))
    (\<lambda>rv d. if rv < 0 then jpart d0 (s + n) (wr @ buf) d
       else rv = int (LE_SIZE * length buf) \<and> jfull d0 (s + n) (wr @ buf) d)
    (jpart d0 (s + n) (wr @ buf))"
proof (rule safe_pre)
  fix d assume d: "jfull d0 (s + n) wr d"
  have N': "N = length (d_journal d)" using jfull_len [OF d] N by simp
  have l2: "length wr + length buf \<le> length (d_journal d0)" using len N by simp
  show "safe ((=) d)
    (pfs_log_write log buf (LE_SIZE * length buf) (head_offset (log_leader log) + of_nat (LE_SIZE * length wr)))
    (\<lambda>rv d. if rv < 0 then jpart d0 (s + n) (wr @ buf) d
       else rv = int (LE_SIZE * length buf) \<and> jfull d0 (s + n) (wr @ buf) d)
    (jpart d0 (s + n) (wr @ buf))"
    by (rule safe_weaken [OF log_write_safe [OF live N' len]])
       (auto simp: jwrites_def jpart_trans [OF d] jfull_trans [OF d _ l2] split: if_splits)
qed

text \<open>\<open>wr\<close> are the entries already in the ring, \<open>buf\<close> those waiting in the buffer.\<close>

lemma tx_log_loop_safe:
  fixes lsn :: u64
  assumes live: "ring_live (log_leader log) N s n" and N: "N = length (d_journal d0)"
    and sz: "log_workbufsz log = PFS_FRAG_SIZE"
    and ready: "list_all (txop_ready env) tps"
    and len: "length wr + length buf + length tps < N - n" "length buf * LE_SIZE < PFS_FRAG_SIZE"
    and nle: "nle = length wr + length buf" and lsn: "uint lsn + int (nle + length tps) < 2 ^ 63"
    and all: "all = wr @ buf @ tx_entries env txid (uint lsn + int nle) (map txop_jop tps)"
  shows "safe (jfull d0 (s + n) wr)
    (tx_log_loop env log txid tps lsn nle buf (head_offset (log_leader log) + of_nat (LE_SIZE * length wr)))
    (\<lambda>r d. case r of Inl rv \<Rightarrow> rv < 0 \<and> jpart d0 (s + n) all d
       | Inr (off, k) \<Rightarrow> off = head_offset (log_leader log) + of_nat (LE_SIZE * length all) \<and>
           k = length all \<and> jfull d0 (s + n) all d)
    (jpart d0 (s + n) all)"
  using ready len nle lsn all
proof (induction tps arbitrary: wr buf nle)
  case Nil
  then have all: "all = wr @ buf" "length wr + length buf < N - n" by simp_all
  show ?case
  proof (cases "buf = []")
    case True
    with Nil all show ?thesis by (auto intro!: safe_ret)
  next
    case False
    let ?h = "head_offset (log_leader log)"
    have "safe (\<lambda>d. if rv < 0 then jpart d0 (s + n) all d
         else rv = int (LE_SIZE * length buf) \<and> jfull d0 (s + n) all d)
      (ret (if rv < 0 then Inl rv else Inr (?h + of_nat (LE_SIZE * length wr) + word_of_int rv, nle)))
      (\<lambda>r d. case r of Inl rv \<Rightarrow> rv < 0 \<and> jpart d0 (s + n) all d
       | Inr (off, k) \<Rightarrow> off = ?h + of_nat (LE_SIZE * length all) \<and> k = length all \<and> jfull d0 (s + n) all d)
      (jpart d0 (s + n) all)" for rv
      using Nil(4) by (auto intro!: safe_ret simp: all(1) distrib_left)
    from safe_bind [OF log_write_after [OF live N all(2), folded all(1)] this] False
    show ?thesis by (simp add: mult.commute [of "length buf"] del: of_nat_mult)
  qed
next
  case (Cons tp tps)
  let ?h = "head_offset (log_leader log)"
  define le where "le = mk_entry env txid (uint lsn + int (Suc nle)) (tps \<noteq> []) (txop_jop tp)"
  have log: "pfs_txop_log (env_crc env) txid tp (sint (lsn + of_nat (Suc nle))) (tps \<noteq> []) = Some le"
    unfolding le_def using Cons.prems by (intro txop_log_ready) auto
  have all: "all = (wr @ buf @ [le]) @ tx_entries env txid (uint lsn + int (Suc nle)) (map txop_jop tps)"
    using Cons.prems(6) by (simp add: le_def algebra_simps)
  show ?case
  proof (cases "length (buf @ [le]) * LE_SIZE \<ge> PFS_FRAG_SIZE")
    case False
    have "safe (jfull d0 (s + n) wr)
      (tx_log_loop env log txid tps lsn (Suc nle) (buf @ [le]) (?h + of_nat (LE_SIZE * length wr)))
      (\<lambda>r d. case r of Inl rv \<Rightarrow> rv < 0 \<and> jpart d0 (s + n) all d
       | Inr (off, k) \<Rightarrow> off = ?h + of_nat (LE_SIZE * length all) \<and> k = length all \<and> jfull d0 (s + n) all d)
      (jpart d0 (s + n) all)"
      by (rule Cons.IH) (use Cons.prems False all in auto)
    with False show ?thesis by (simp add: log sz Let_def del: of_nat_Suc)
  next
    case True
    then have full: "length (buf @ [le]) * LE_SIZE = PFS_FRAG_SIZE"
      using Cons.prems(3) by simp
    let ?w = "wr @ buf @ [le]"
    have IH: "safe (jfull d0 (s + n) ?w)
      (tx_log_loop env log txid tps lsn (Suc nle) [] (?h + of_nat (LE_SIZE * length ?w)))
      (\<lambda>r d. case r of Inl rv \<Rightarrow> rv < 0 \<and> jpart d0 (s + n) all d
       | Inr (off, k) \<Rightarrow> off = ?h + of_nat (LE_SIZE * length all) \<and> k = length all \<and> jfull d0 (s + n) all d)
      (jpart d0 (s + n) all)"
      by (rule Cons.IH) (use Cons.prems all in auto)
    have pre: "jpart d0 (s + n) all d" if "jpart d0 (s + n) ?w d" for d
      unfolding all by (rule jpart_prefix [OF that])
    have cont: "safe (\<lambda>d. if rv < 0 then jpart d0 (s + n) ?w d
         else rv = int (LE_SIZE * length (buf @ [le])) \<and> jfull d0 (s + n) ?w d)
      (if rv < 0 then ret (Inl rv)
       else tx_log_loop env log txid tps lsn (Suc nle) [] (?h + of_nat (LE_SIZE * length wr) + word_of_int rv))
      (\<lambda>r d. case r of Inl rv \<Rightarrow> rv < 0 \<and> jpart d0 (s + n) all d
       | Inr (off, k) \<Rightarrow> off = ?h + of_nat (LE_SIZE * length all) \<and> k = length all \<and> jfull d0 (s + n) all d)
      (jpart d0 (s + n) all)" for rv
    proof (cases "rv = int (LE_SIZE * length (buf @ [le]))")
      case rv: True
      have eq: "?h + of_nat (LE_SIZE * length wr) + word_of_int rv = ?h + of_nat (LE_SIZE * length ?w)"
        unfolding rv by (simp add: distrib_left add.assoc)
      have np: "\<not> rv < 0" by (simp add: rv)
      show ?thesis
        unfolding if_not_P [OF np] by (rule safe_weaken [OF IH [folded eq]]) auto
    next
      case False
      then show ?thesis using pre by (cases "rv < 0") (auto intro!: safe_ret)
    qed
    have ln: "length wr + length (buf @ [le]) < N - n" using Cons.prems(2) by simp
    have w: "safe (jfull d0 (s + n) wr)
      (pfs_log_write log (buf @ [le]) (LE_SIZE * length (buf @ [le])) (?h + of_nat (LE_SIZE * length wr)))
      (\<lambda>rv d. if rv < 0 then jpart d0 (s + n) ?w d
        else rv = int (LE_SIZE * length (buf @ [le])) \<and> jfull d0 (s + n) ?w d)
      (jpart d0 (s + n) all)"
      by (rule safe_weaken [OF log_write_after [OF live N ln]]) (auto simp: pre)
    show ?thesis
      using safe_bind [OF w cont] full 
      by (simp add: log sz Let_def mult.commute [of _ LE_SIZE] del: of_nat_Suc of_nat_mult mult_Suc_right mult_Suc)
  qed
qed

lemma sint_u32_bytes: "k < 2 ^ 23 \<Longrightarrow> sint (ucast (of_nat (LE_SIZE * k) :: u64) :: u32) = int (LE_SIZE * k)"
proof -
  assume k: "k < 2 ^ 23"
  have "ucast (of_nat (LE_SIZE * k) :: u64) = (word_of_int (int (LE_SIZE * k)) :: u32)"
    using k by (simp add: unsigned_of_nat take_bit_nat_eq_self del: of_nat_mult)
  moreover have "sint (word_of_int x :: u32) = x" if "0 \<le> x" "x < 2 ^ 31" for x
    using that by (simp add: signed_of_int signed_take_bit_int_eq_self)
  then have "sint (word_of_int (int (LE_SIZE * k)) :: u32) = int (LE_SIZE * k)"
    by (rule, use k in simp_all)
  ultimately show ?thesis by (simp only:)
qed

lemma tx_log_safe:
  fixes hlsn :: u64
  assumes live: "ring_live (log_leader log) N s n" and N: "N = length (d_journal d0)"
    and sz: "log_workbufsz log = PFS_FRAG_SIZE"
    and tx: "list_all (txop_ready env) (t_ops tx)" "t_ops tx \<noteq> []" "t_nops tx = int (length (t_ops tx))"
    and len: "length (t_ops tx) < N - n" and lsn: "uint hlsn + int (length (t_ops tx)) < 2 ^ 63"
    and es: "es = tx_entries env (sint (htxid + 1)) (uint hlsn) (map txop_jop (t_ops tx))"
  shows "safe ((=) d0) (pfs_tx_log env log tx htxid hlsn (head_offset (log_leader log)))
    (\<lambda>(rv, tx') d. tx' = tx\<lparr>t_id := sint (htxid + 1)\<rparr> \<and>
       (if rv < 0 then jpart d0 (s + n) es d
        else rv = int (LE_SIZE * length (t_ops tx)) \<and> jfull d0 (s + n) es d))
    (jpart d0 (s + n) es)"
proof -
  let ?h = "head_offset (log_leader log)"
  have k: "length (t_ops tx) < 2 ^ 23" using len live unfolding ring_live_def by linarith
  have b: "safe ((=) d0) (tx_log_loop env log (sint (htxid + 1)) (t_ops tx) hlsn 0 [] ?h)
    (\<lambda>r d. case r of Inl rv \<Rightarrow> rv < 0 \<and> jpart d0 (s + n) es d
       | Inr (off, k) \<Rightarrow> off = ?h + of_nat (LE_SIZE * length es) \<and> k = length es \<and> jfull d0 (s + n) es d)
    (jpart d0 (s + n) es)"
    using tx_log_loop_safe [OF live N sz tx(1), of "[]" "[]" 0 hlsn es "sint (htxid + 1)"] len lsn es
    by (simp add: jfull_Nil_eq)
  have "safe (\<lambda>d. case r of Inl rv \<Rightarrow> rv < 0 \<and> jpart d0 (s + n) es d
       | Inr (off, k) \<Rightarrow> off = ?h + of_nat (LE_SIZE * length es) \<and> k = length es \<and> jfull d0 (s + n) es d)
     (case r of Inl rv \<Rightarrow> ret (rv, tx\<lparr>t_id := sint (htxid + 1)\<rparr>)
      | Inr (off, nle) \<Rightarrow> assertW (int nle = t_nops tx)
          (ret (sint (ucast (off - ?h) :: u32), tx\<lparr>t_id := sint (htxid + 1)\<rparr>)))
    (\<lambda>(rv, tx') d. tx' = tx\<lparr>t_id := sint (htxid + 1)\<rparr> \<and>
       (if rv < 0 then jpart d0 (s + n) es d
        else rv = int (LE_SIZE * length (t_ops tx)) \<and> jfull d0 (s + n) es d))
    (jpart d0 (s + n) es)" for r
  proof (cases r)
    case (Inl rv)
    then show ?thesis by (auto intro!: safe_ret)
  next
    case (Inr p)
    obtain off nle where p: "p = (off, nle)" by (cases p)
    show ?thesis
      unfolding Inr p sum.case prod.case
      using tx(3) es sint_u32_bytes [OF k]
      by (intro safe_assert safe_ret) (auto simp del: of_nat_mult)
  qed
  from safe_bind [OF b this] tx(2) show ?thesis
    by (simp add: pfs_tx_log_def Let_def)
qed

end
