(* ===== verification/Journal_Scan.thy ===== *)
theory Journal_Scan
  imports Journal_Ring
begin

text \<open>
  Reading the journal back. When the ring holds the entries of some transactions from a slot
  on, \<open>pfs_log_scan\<close> from there returns exactly those transactions: logging and scanning are
  a round trip, chunked reads, wrap-around and the loop's fuel included.
\<close>

section \<open>Replay transactions\<close>

definition replay_op :: "nat \<Rightarrow> jop \<Rightarrow> 'cb txop" where
  "replay_op a = (\<lambda>(b, i, mo). (pfs_txop_create a TOP_FLG_RECREATE)\<lparr>top_idx := i, top_bda := b, top_local := mo\<rparr>)"

definition add_replay :: "jop \<Rightarrow> 'cb tx \<Rightarrow> 'cb tx" where
  "add_replay x tx = tx\<lparr>t_ops := t_ops tx @ [replay_op (t_addr tx) x], t_nops := t_nops tx + 1,
     t_addr := Suc (t_addr tx)\<rparr>"

text \<open>What the scan makes of a transaction, and of those after \<open>txid\<close>.\<close>

definition replay_tx :: "int \<Rightarrow> jop list \<Rightarrow> 'cb tx" where
  "replay_tx txid t = fold add_replay t ((pfs_tx_get TXT_REPLAY False)\<lparr>t_id := txid\<rparr>)"

fun replay_txs :: "int \<Rightarrow> jop list list \<Rightarrow> 'cb tx list" where
  "replay_txs txid [] = []"
| "replay_txs txid (t # ts) = replay_tx (txid + 1) t # replay_txs (txid + 1) ts"

lemma fold_add_replay:
  "t_id (fold add_replay t tx) = t_id tx"
  "t_type (fold add_replay t tx) = t_type tx"
  "t_nops (fold add_replay t tx) = t_nops tx + int (length t)"
  "length (t_ops (fold add_replay t tx)) = length (t_ops tx) + length t"
  "map txop_jop (t_ops (fold add_replay t tx)) = map txop_jop (t_ops tx) @ t"
  "t_cbs (fold add_replay t tx) = t_cbs tx" "t_ncbs (fold add_replay t tx) = t_ncbs tx"
  by (induction t arbitrary: tx)
     (auto simp: add_replay_def replay_op_def txop_jop_def pfs_txop_create_def)

lemma replay_tx_fields [simp]:
  "t_id (replay_tx txid t) = txid" "t_type (replay_tx txid t) = TXT_REPLAY"
  "t_nops (replay_tx txid t) = int (length t)" "map txop_jop (t_ops (replay_tx txid t)) = t"
  "length (t_ops (replay_tx txid t)) = length t" "t_cbs (replay_tx txid t) = []" "t_ncbs (replay_tx txid t) = 0"
  by (simp_all add: replay_tx_def fold_add_replay pfs_tx_get_def)

lemma replay_txs_append:
  "replay_txs txid (as @ bs) = replay_txs txid as @ replay_txs (txid + int (length as)) bs"
  by (induction as arbitrary: txid) (auto simp: algebra_simps)

section \<open>The loop over entries\<close>

text \<open>One round, without the reading: the transactions after an entry.\<close>

definition scan_step :: "logentry \<Rightarrow> 'cb tx list \<Rightarrow> 'cb tx list" where
  "scan_step le q =
     (let q1 = (if q = [] \<or> t_id (last q) \<noteq> le_txid le
                then q @ [(pfs_tx_get TXT_REPLAY False)\<lparr>t_id := le_txid le\<rparr>] else q)
      in butlast q1 @ [add_replay (le_sector_bda le, unat (le_obj_idx le), le_obj_val le) (last q1)])"

text \<open>The entries pass the assertions of the loop, which ends exactly at the last one.\<close>

fun scan_chain :: "lease_env \<Rightarrow> int \<Rightarrow> int \<Rightarrow> int \<Rightarrow> int \<Rightarrow> logentry list \<Rightarrow> bool" where
  "scan_chain env start stop ll lt [] = False"
| "scan_chain env start stop ll lt (le # es) \<longleftrightarrow>
     (ll < 0 \<or> le_lsn le - ll = 1) \<and> (le_txid le = lt \<or> le_txid le = lt + 1) \<and>
     start < le_txid le \<and> le_txid le \<le> stop \<and>
     pfs_metaobj_check_crc (env_crc env) (le_obj_val le) \<and> mo_type (le_obj_val le) \<noteq> MT_NONE \<and>
     (if le_txid le = stop \<and> le_more le = 0 then es = []
      else scan_chain env start stop (le_lsn le) (le_txid le) es)"

lemma mk_entry_fields [simp]:
  "le_obj_val (mk_entry env txid lsn nx x) = snd (snd x)" "le_lsn (mk_entry env txid lsn nx x) = lsn"
  "le_txid (mk_entry env txid lsn nx x) = txid" "le_sector_bda (mk_entry env txid lsn nx x) = fst x"
  "le_obj_idx (mk_entry env txid lsn nx x) = of_nat (fst (snd x))"
  "le_more (mk_entry env txid lsn nx x) = (if nx then 1 else 0)"
  by (simp_all add: mk_entry_def Let_def split_beta)

lemma jop_ok_D:
  "jop_ok env x \<Longrightarrow> pfs_metaobj_check_crc (env_crc env) (snd (snd x)) \<and> mo_type (snd (snd x)) \<noteq> MT_NONE \<and>
     fst (snd x) < 2 ^ 32"
  using typed_not_none by (auto simp: jop_ok_def split_beta)

lemma scan_chain_tx:
  assumes "t \<noteq> []" "list_all (jop_ok env) t" "ll < 0 \<or> ll = lsn" "lsn \<ge> 0" "lt = txid \<or> lt = txid - 1"
    "start < txid" "txid \<le> stop"
    "txid = stop \<Longrightarrow> es = []" "txid \<noteq> stop \<Longrightarrow> scan_chain env start stop (lsn + int (length t)) txid es"
  shows "scan_chain env start stop ll lt (tx_entries env txid lsn t @ es)"
  using assms
proof (induction t arbitrary: ll lt lsn)
  case (Cons x xs)
  show ?case
  proof (cases "xs = []")
    case True
    with Cons.prems show ?thesis by (auto dest: jop_ok_D)
  next
    case False
    have "scan_chain env start stop (lsn + 1) txid (tx_entries env txid (lsn + 1) xs @ es)"
      by (rule Cons.IH) (use Cons.prems False in \<open>auto simp: algebra_simps\<close>)
    with Cons.prems False show ?thesis by (auto dest: jop_ok_D)
  qed
qed simp

lemma scan_chain_txs:
  assumes "ts \<noteq> []" "list_all (\<lambda>t. t \<noteq> []) ts" "list_all (list_all (jop_ok env)) ts"
    "ll < 0 \<or> ll = lsn" "lsn \<ge> 0" "start \<le> txid" "stop = txid + int (length ts)"
  shows "scan_chain env start stop ll txid (txs_entries env txid lsn ts)"
  using assms
proof (induction ts arbitrary: ll lsn txid)
  case (Cons t ts)
  have "scan_chain env start stop ll txid
      (tx_entries env (txid + 1) lsn t @ txs_entries env (txid + 1) (lsn + int (length t)) ts)"
  proof (rule scan_chain_tx)
    assume "txid + 1 \<noteq> stop"
    then show "scan_chain env start stop (lsn + int (length t)) (txid + 1)
        (txs_entries env (txid + 1) (lsn + int (length t)) ts)"
      using Cons.prems by (intro Cons.IH) auto
  qed (use Cons.prems in auto)
  then show ?case by simp
qed simp

lemma scan_steps_tx:
  assumes "list_all (jop_ok env) t" "q \<noteq> []" "t_id (last q) = txid"
  shows "fold scan_step (tx_entries env txid lsn t) q = butlast q @ [fold add_replay t (last q)]"
  using assms
proof (induction t arbitrary: q lsn)
  case (Cons x xs)
  have "scan_step (mk_entry env txid (lsn + 1) nx x) q = butlast q @ [add_replay x (last q)]" for nx
    using Cons.prems jop_ok_D [of env x]
    by (simp add: scan_step_def Let_def unat_of_nat take_bit_nat_eq_self unsigned_of_nat)
  moreover have "t_id (add_replay x (last q)) = txid" using Cons.prems by (simp add: add_replay_def)
  ultimately show ?case using Cons.IH [of "butlast q @ [add_replay x (last q)]"] Cons.prems by simp
qed simp

lemma scan_steps_txs:
  assumes "list_all (\<lambda>t. t \<noteq> []) ts" "list_all (list_all (jop_ok env)) ts" "q = [] \<or> t_id (last q) < txid + 1"
  shows "fold scan_step (txs_entries env txid lsn ts) q = q @ replay_txs txid ts"
  using assms
proof (induction ts arbitrary: q txid lsn)
  case (Cons t ts)
  obtain x xs where t: "t = x # xs" using Cons.prems(1) by (cases t) auto
  let ?new = "(pfs_tx_get TXT_REPLAY False)\<lparr>t_id := txid + 1\<rparr> :: 'a tx"
  have first: "scan_step (mk_entry env (txid + 1) (lsn + 1) nx x) q = q @ [add_replay x ?new]" for nx
    using Cons.prems jop_ok_D [of env x] unfolding t
    by (auto simp: scan_step_def Let_def unat_of_nat take_bit_nat_eq_self unsigned_of_nat)
  have "fold scan_step (tx_entries env (txid + 1) lsn t) q =
      butlast (q @ [add_replay x ?new]) @ [fold add_replay xs (last (q @ [add_replay x ?new]))]"
    unfolding t tx_entries.simps fold_simps comp_def first
    by (rule scan_steps_tx) (use Cons.prems t in \<open>auto simp: add_replay_def\<close>)
  then have "fold scan_step (tx_entries env (txid + 1) lsn t) q = q @ [replay_tx (txid + 1) t]"
    by (simp add: replay_tx_def t)
  with Cons.IH [of "q @ [replay_tx (txid + 1) t]" "txid + 1"] Cons.prems show ?case by simp
qed simp

section \<open>Reading\<close>

text \<open>\<open>w_ios w = []\<close>: the I/Os succeed.\<close>

lemma log_read_unfold:
  assumes L: "unat (log_size (log_leader log)) = LE_SIZE * N" "N < 2 ^ 23" "unat off = LE_SIZE * a" "a < N"
    and len: "len = LE_SIZE * l" "l > 0"
  shows "\<exists>r. r > 0 \<and> a + r \<le> N \<and>
    pfs_log_read env log len off = bindW (journal_pread (LE_SIZE * r) (LE_SIZE * a)) (\<lambda>(rv, les).
      if rv > 0 then assertW (rv mod int LE_SIZE = 0 \<and> pfs_log_check env les) (ret (rv, les)) else ret (rv, les))"
proof -
  let ?L = "log_size (log_leader log)"
  have lt: "off < ?L" using L by (simp add: word_less_nat_alt)
  then have off: "OFF_MODULAR_ADD off 0 ?L = off" by (auto simp: OFF_MODULAR_ADD_def Let_def dest: leD)
  have m: "(of_nat PFS_FRAG_SIZE - 1 :: u64) = mask 14" by (simp add: mask_eq_exp_minus_1)
  have "unat (off AND (of_nat PFS_FRAG_SIZE - 1)) = unat off mod 2 ^ 14"
    unfolding m take_bit_eq_mask [symmetric] unsigned_take_bit_eq by (simp add: take_bit_eq_mod)
  then have msk: "unat (off AND (of_nat PFS_FRAG_SIZE - 1)) = LE_SIZE * (a mod 64)"
    using mult_mod_right [of LE_SIZE a 64] L(3) by simp
  define k where "k = 64 - a mod 64"
  have k: "PFS_FRAG_SIZE - LE_SIZE * (a mod 64) = LE_SIZE * k" "k > 0" "k \<le> 64"
    by (auto simp: k_def right_diff_distrib')
  have cut: "LEN_MODULAR_CUT (LE_SIZE * k) off ?L = LE_SIZE * min k (N - a)"
    using len_modular_cut [OF L, of k] k by simp
  define r where "r = min (min k (N - a)) l"
  have r: "r > 0" "a + r \<le> N" using k L(4) len(2) by (auto simp: r_def)
  have rl: "(if LE_SIZE * min k (N - a) > len then len else LE_SIZE * min k (N - a)) = LE_SIZE * r"
    by (auto simp: r_def len(1) min_def)
  have "pfs_log_read env log len off = bindW (journal_pread (LE_SIZE * r) (LE_SIZE * a)) (\<lambda>(rv, les).
      if rv > 0 then assertW (rv mod int LE_SIZE = 0 \<and> pfs_log_check env les) (ret (rv, les)) else ret (rv, les))"
    unfolding pfs_log_read_def off msk k(1) cut rl Let_def L(3)
    using lt r(1) by simp
  with r show ?thesis by blast
qed

lemma slots_check: "list_all (slot_ok env) j \<Longrightarrow> pfs_log_check env (take r (drop a j))"
  unfolding pfs_log_check_def slot_ok_def list_all_iff by (auto dest: in_set_takeD in_set_dropD)

lemma log_read_ok:
  assumes L: "unat (log_size (log_leader log)) = LE_SIZE * N" "N < 2 ^ 23" "unat off = LE_SIZE * a" "a < N"
    and j: "N = length (d_journal (w_pbd w))" "list_all (slot_ok env) (d_journal (w_pbd w))"
    and w: "w_ios w = []" and len: "len = LE_SIZE * l" "l > 0"
  shows "\<exists>r. r > 0 \<and> a + r \<le> N \<and>
    pfs_log_read env log len off w = (Val (int (LE_SIZE * r), take r (drop a (d_journal (w_pbd w)))), w)"
proof -
  obtain r where r: "r > 0" "a + r \<le> N"
    "pfs_log_read env log len off = bindW (journal_pread (LE_SIZE * r) (LE_SIZE * a)) (\<lambda>(rv, les).
      if rv > 0 then assertW (rv mod int LE_SIZE = 0 \<and> pfs_log_check env les) (ret (rv, les)) else ret (rv, les))"
    using log_read_unfold [OF L len] by blast
  have "journal_pread (LE_SIZE * r) (LE_SIZE * a) w = (Val (int (LE_SIZE * r), take r (drop a (d_journal (w_pbd w)))), w)"
    by (simp add: journal_pread_def next_io_def w)
  then have "pfs_log_read env log len off w = (Val (int (LE_SIZE * r), take r (drop a (d_journal (w_pbd w)))), w)"
    unfolding r(3) using r(1) slots_check [OF j(2)] by (simp add: bindW_def ret_def)
  with r show ?thesis by blast
qed

text \<open>Whatever the device answers, a read returns no more than entries of the ring, and at
  least one.\<close>

lemma log_read_safe:
  assumes L: "unat (log_size (log_leader log)) = LE_SIZE * N" "N < 2 ^ 23" "unat off = LE_SIZE * a" "a < N"
    and j: "N = length (d_journal d)" "list_all (slot_ok env) (d_journal d)"
    and len: "len = LE_SIZE * l" "l > 0"
  shows "safe ((=) d) (pfs_log_read env log len off)
    (\<lambda>(rv, les) d'. d' = d \<and> (rv < 0 \<or> les \<noteq> [])) ((=) d)"
proof -
  obtain r where r: "r > 0" "a + r \<le> N"
    "pfs_log_read env log len off = bindW (journal_pread (LE_SIZE * r) (LE_SIZE * a)) (\<lambda>(rv, les).
      if rv > 0 then assertW (rv mod int LE_SIZE = 0 \<and> pfs_log_check env les) (ret (rv, les)) else ret (rv, les))"
    using log_read_unfold [OF L len] by blast
  have "case pfs_log_read env log len off w of (Val x, w') \<Rightarrow> clean w' \<and> (case x of (rv, les) \<Rightarrow> \<lambda>d'.
        d' = d \<and> (rv < 0 \<or> les \<noteq> [])) (w_pbd w')
      | (Abrt, w') \<Rightarrow> False | (Crash, w') \<Rightarrow> d = w_pbd w'" if "clean w" "d = w_pbd w" for w
    unfolding r(3) using that r(1,2) slots_check [OF j(2), of r a] j(1)
    by (auto simp: bindW_def journal_pread_def next_io_def ret_def split: list.split io_res.split)
  then show ?thesis by (simp add: safe_def)
qed

lemma ring_at_Suc: "j \<noteq> [] \<Longrightarrow> ring_at j a (Suc n) = j ! (a mod length j) # ring_at j (Suc a mod length j) n"
  by (rule nth_equalityI) (auto simp: ring_at_nth nth_Cons mod_simps split: nat.split)

lemma scan_loop_run:
  fixes q :: "'cb tx list"
  assumes L: "unat (log_size (log_leader log)) = LE_SIZE * N" "N < 2 ^ 23"
    and j: "N = length (d_journal (w_pbd w))" "list_all (slot_ok env) (d_journal (w_pbd w))"
    and w: "w_ios w = []" and sz: "log_workbufsz log = PFS_FRAG_SIZE"
    and es: "scan_chain env start stop ll lt es" "es = ring_at (d_journal (w_pbd w)) (c mod N) (length es)"
      "length es \<le> fuel"
    and cur: "rest = take (length rest) (drop c (d_journal (w_pbd w)))" "c + length rest = a + r" "a + r \<le> N"
      "unat off = LE_SIZE * a" "a < N"
  shows "scan_loop fuel env log start stop off (int (LE_SIZE * r)) rest ll lt n q w =
    (Val (int ((n + length es) * LE_SIZE), fold scan_step es q), w)"
  using es cur
proof (induction es arbitrary: fuel ll lt n q off r rest c a)
  case (Cons le es)
  obtain f where f: "fuel = Suc f" using Cons.prems(3) by (cases fuel) auto
  let ?j = "d_journal (w_pbd w)"
  have ne: "?j \<noteq> []" using Cons.prems(8) j(1) by auto
  have hd: "le = ?j ! (c mod N)" and tl: "es = ring_at ?j (Suc c mod N) (length es)"
    using Cons.prems(2) ring_at_Suc [OF ne, of "c mod N" "length es"] unfolding j(1) by (auto simp: mod_Suc_eq)
  text \<open>After the read, if one was due: \<open>off1\<close>, \<open>r1\<close> describe the buffer, \<open>le # les\<close> is left of it.\<close>
  have "\<exists>off1 r1 a1 les. (if rest = [] then
          let offset1 = OFF_MODULAR_ADD off (word_of_int (int (LE_SIZE * r))) (log_size (log_leader log))
          in assertW (off < log_size (log_leader log))
               (bindW (pfs_log_read env log (log_workbufsz log) offset1) (\<lambda>(readlen1, les).
                  if readlen1 > 0 then ret (offset1, readlen1, les) else abrt))
        else ret (off, int (LE_SIZE * r), rest)) w = (Val (off1, int (LE_SIZE * r1), le # les), w) \<and>
      les = take (length les) (drop (Suc (c mod N)) ?j) \<and> Suc (c mod N) + length les = a1 + r1 \<and> a1 + r1 \<le> N \<and>
      unat off1 = LE_SIZE * a1 \<and> a1 < N"
  proof (cases "rest = []")
    case True
    then have c: "c = a + r" using Cons.prems(5) by simp
    let ?off1 = "OFF_MODULAR_ADD off (word_of_int (int (LE_SIZE * r))) (log_size (log_leader log))"
    have wr: "unat (word_of_int (int (LE_SIZE * r)) :: u64) = LE_SIZE * r"
      using word_bytes(1) [of r] Cons.prems(6) L(2) by simp
    have off1: "unat ?off1 = LE_SIZE * (c mod N)"
      unfolding c by (rule off_modular_add [OF L Cons.prems(7,8) wr]) (use Cons.prems(6) in simp)
    have cm: "c mod N < N" using Cons.prems(8) by simp
    obtain r1 where r1: "r1 > 0" "c mod N + r1 \<le> N"
      "pfs_log_read env log PFS_FRAG_SIZE ?off1 w = (Val (int (LE_SIZE * r1), take r1 (drop (c mod N) ?j)), w)"
      using log_read_ok [OF L off1 cm j w, of PFS_FRAG_SIZE 64] by auto
    have les: "take r1 (drop (c mod N) ?j) = le # take (r1 - 1) (drop (Suc (c mod N)) ?j)"
      using r1(1) cm j(1) hd by (cases r1) (auto simp: Cons_nth_drop_Suc [symmetric])
    have lt: "off < log_size (log_leader log)" using Cons.prems(7,8) L by (simp add: word_less_nat_alt)
    show ?thesis
      using True r1 les lt off1 cm j(1)
      by (intro exI [of _ ?off1] exI [of _ r1] exI [of _ "c mod N"] exI [of _ "take (r1 - 1) (drop (Suc (c mod N)) ?j)"])
         (auto simp: sz bindW_def ret_def Let_def)
  next
    case False
    then have cN: "c < N" using Cons.prems(5,6) by (cases rest) auto
    obtain x les where rest: "rest = x # les" using False by (cases rest) auto
    then have les: "x = le" "les = take (length les) (drop (Suc c) ?j)"
      using Cons.prems(4) hd cN j(1) by (auto simp: Cons_nth_drop_Suc [symmetric])
    show ?thesis
      by (rule exI [of _ off], rule exI [of _ r], rule exI [of _ a], rule exI [of _ les])
         (use rest les Cons.prems(5-8) cN in \<open>auto simp: ret_def\<close>)
  qed
  then obtain off1 r1 a1 les where step: "(if rest = [] then
          let offset1 = OFF_MODULAR_ADD off (word_of_int (int (LE_SIZE * r))) (log_size (log_leader log))
          in assertW (off < log_size (log_leader log))
               (bindW (pfs_log_read env log (log_workbufsz log) offset1) (\<lambda>(readlen1, les).
                  if readlen1 > 0 then ret (offset1, readlen1, les) else abrt))
        else ret (off, int (LE_SIZE * r), rest)) w = (Val (off1, int (LE_SIZE * r1), le # les), w)"
    and nxt: "les = take (length les) (drop (Suc (c mod N)) ?j)" "Suc (c mod N) + length les = a1 + r1"
      "a1 + r1 \<le> N" "unat off1 = LE_SIZE * a1" "a1 < N" by blast
  have rc: "pfs_tx_recreate_op (env_crc env) True tx le =
      Some (Inr (add_replay (le_sector_bda le, unat (le_obj_idx le), le_obj_val le) tx))" for tx :: "'cb tx"
    using Cons.prems(1)
    by (simp add: pfs_tx_recreate_op_def pfs_txop_recreate_def add_replay_def replay_op_def Let_def)
  let ?q = "scan_step le q"
  have chain: "(ll < 0 \<or> le_lsn le - ll = 1) \<and> (le_txid le - lt = 0 \<or> le_txid le - lt = 1) \<and>
      le_txid le - start > 0 \<and> le_txid le - stop \<le> 0"
    using Cons.prems(1) by auto
  have unf: "scan_loop fuel env log start stop off (int (LE_SIZE * r)) rest ll lt n q w =
      (if le_txid le = stop \<and> le_more le = 0 then (Val (int (Suc n * LE_SIZE), ?q), w)
       else scan_loop f env log start stop off1 (int (LE_SIZE * r1)) les (le_lsn le) (le_txid le) (Suc n) ?q w)"
    unfolding f scan_loop.simps(2) bindW_def [of "if _ then _ else _"] step prod.case outcome.case list.case
    using chain by (simp add: rc scan_step_def Let_def ret_def)
  show ?case
  proof (cases "le_txid le = stop \<and> le_more le = 0")
    case True
    with Cons.prems(1) show ?thesis unfolding unf by simp
  next
    case False
    have "scan_loop f env log start stop off1 (int (LE_SIZE * r1)) les (le_lsn le) (le_txid le) (Suc n) ?q w =
        (Val (int ((Suc n + length es) * LE_SIZE), fold scan_step es ?q), w)"
    proof (rule Cons.IH)
      show "es = ring_at ?j (Suc (c mod N) mod N) (length es)" using tl by (simp add: mod_Suc_eq)
    qed (use Cons.prems(1,3) False f nxt in auto)
    then show ?thesis unfolding unf if_not_P [OF False] by simp
  qed
qed simp

text \<open>The round trip: a scan returns the transactions whose entries the ring holds.\<close>

lemma log_scan_run:
  assumes L: "unat (log_size (log_leader log)) = LE_SIZE * N" "N < 2 ^ 23"
    and j: "N = length (d_journal (w_pbd w))" "list_all (slot_ok env) (d_journal (w_pbd w))"
    and w: "w_ios w = []" and sz: "log_workbufsz log = PFS_FRAG_SIZE"
    and off: "unat off = LE_SIZE * a" "a < N"
    and ts: "list_all (\<lambda>t. t \<noteq> []) ts" "list_all (list_all (jop_ok env)) ts" "lsn \<ge> 0"
      "ring_at (d_journal (w_pbd w)) a (length (concat ts)) = txs_entries env txid lsn ts"
      "length (concat ts) \<le> N"
  shows "pfs_log_scan env log off txid (txid + int (length ts)) w =
    (Val (int (length (concat ts) * LE_SIZE), replay_txs txid ts :: 'cb tx list), w)"
proof (cases "ts = []")
  case True
  have "off < log_size (log_leader log)" using off L by (simp add: word_less_nat_alt)
  with True show ?thesis by (simp add: pfs_log_scan_def ret_def)
next
  case False
  let ?es = "txs_entries env txid lsn ts"
  have lt: "off < log_size (log_leader log)" using off L by (simp add: word_less_nat_alt)
  have fuel: "unat (log_size (log_leader log)) div LE_SIZE = N" using L by simp
  have chain: "scan_chain env txid (txid + int (length ts)) (- 1) txid ?es"
    by (rule scan_chain_txs) (use False ts in auto)
  have "scan_loop N env log txid (txid + int (length ts)) off (int (LE_SIZE * 0)) [] (- 1) txid 0 ([] :: 'cb tx list) w =
      (Val (int ((0 + length ?es) * LE_SIZE), fold scan_step ?es []), w)"
    by (rule scan_loop_run [OF L j w sz chain, where c = a and a = a]) (use ts off in auto)
  then show ?thesis
    using lt False fuel scan_steps_txs [OF ts(1,2), of "[] :: 'cb tx list" txid lsn]
    by (simp add: pfs_log_scan_def)
qed

end
