(* ===== verification/Journal_Safe.thy ===== *)
theory Journal_Safe
  imports Journal_Scan
begin

text \<open>
  The journal's operations keep its promise: \<open>log_inv\<close> relates \<open>pfs_log_t\<close> and the device to
  the transactions \<open>T1\<close> of the wait group and \<open>T2\<close> of the work group; commit appends a
  transaction, trim drops \<open>T1\<close> after writing it in place, the swap regroups. At every crash in
  between the device recovers to the committed store, or to the one with the transaction
  being committed.
\<close>

section \<open>Invariants\<close>

definition groups_ok ::
    "leader_record \<Rightarrow> store \<Rightarrow> nat \<Rightarrow> nat \<Rightarrow> jop list list \<Rightarrow> jop list list \<Rightarrow> trimgroup \<Rightarrow> trimgroup \<Rightarrow> bool" where
  "groups_ok lr D N s T1 T2 wk wt \<longleftrightarrow>
     (let t = uint (tail_txid lr); m = t + int (length T1); h = m + int (length T2);
          S = apply_ops (concat T1) D; M = apply_ops (concat T2) S in
      g_ltxid wk = m \<and> g_rtxid wk = h \<and> g_roffset wk = head_offset lr \<and>
      grp_ok M (touched (concat T2)) m h wk \<and>
      grp_ok S (touched (concat T1)) t m wt \<and> g_nsects_empty wt = 0 \<and>
      (if T1 = [] then g_ltxid wt = g_rtxid wt
       else g_ltxid wt = t \<and> g_rtxid wt = m \<and>
            unat (g_roffset wt) = LE_SIZE * ((s + length (concat T1)) mod N)))"

definition log_inv :: "lease_env \<Rightarrow> plog \<Rightarrow> pbd \<Rightarrow> jop list list \<Rightarrow> jop list list \<Rightarrow> bool" where
  "log_inv env log d T1 T2 \<longleftrightarrow>
     leader_ok env (log_mount log) (log_leader log) \<and> d_leader d = sign_leader env (log_leader log) \<and>
     pfs_writable (log_mount log) \<and> log_workbufsz log = PFS_FRAG_SIZE \<and>
     (\<exists>s. ring_ok env (log_leader log) (d_journal d) s (T1 @ T2) \<and>
          groups_ok (log_leader log) (d_sect d) (length (d_journal d)) s T1 T2 (log_workgrp log) (log_waitgrp log))"

text \<open>The store the device recovers to.\<close>

definition recovers :: "lease_env \<Rightarrow> lease_mnt \<Rightarrow> store \<Rightarrow> pbd \<Rightarrow> bool" where
  "recovers env mnt M d \<longleftrightarrow> (\<exists>ts. holds env mnt d ts \<and> committed d ts = M)"

section \<open>The leader record\<close>

lemma sign_leader_simps [simp]:
  "tail_txid (sign_leader env lr) = tail_txid lr" "head_txid (sign_leader env lr) = head_txid lr"
  "tail_offset (sign_leader env lr) = tail_offset lr" "head_offset (sign_leader env lr) = head_offset lr"
  "log_size (sign_leader env lr) = log_size lr" "head_lsn (sign_leader env lr) = head_lsn lr"
  "sign_leader env (sign_leader env lr) = sign_leader env lr"
  "lr_num_hosts (sign_leader env lr) = lr_num_hosts lr"
  by (simp_all add: sign_leader_def)

lemma leader_ok_sign [simp]: "leader_ok env mnt (sign_leader env lr) = leader_ok env mnt lr"
  by (simp add: leader_ok_def sign_leader_def verify_leader_def)

lemma ring_ok_sign [simp]: "ring_ok env (sign_leader env lr) j s ts = ring_ok env lr j s ts"
  by (simp add: ring_ok_def)

lemma log_inv_holds: "log_inv env log d T1 T2 \<Longrightarrow> holds env (log_mount log) d (T1 @ T2)"
  by (auto simp: log_inv_def holds_def)

lemma log_inv_recovers: "log_inv env log d T1 T2 \<Longrightarrow> recovers env (log_mount log) (committed d (T1 @ T2)) d"
  unfolding recovers_def using log_inv_holds by blast

text \<open>The anchors of a leader record replaced.\<close>

definition set_anchors :: "leader_record \<Rightarrow> leader_record \<Rightarrow> leader_record" where
  "set_anchors latest lr = latest\<lparr>tail_txid := tail_txid lr, head_txid := head_txid lr,
     tail_offset := tail_offset lr, head_offset := head_offset lr, log_size := log_size lr, head_lsn := head_lsn lr\<rparr>"

lemma write_leader_run:
  assumes "mnt_sectsize mnt \<noteq> 0"
  shows "safe ((=) d) (run_prog (uint (mnt_sectsize mnt)) (pfs_leader_write env mnt lr))
    (\<lambda>(rv, lr') d'. if rv < 0 then d' = d else rv = PFS_OK \<and> lr' = sign_leader env lr \<and>
       d' = d\<lparr>d_leader := sign_leader env lr\<rparr>)
    (\<lambda>d'. d' = d \<or> d' = d\<lparr>d_leader := sign_leader env lr\<rparr>)"
  unfolding safe_def
proof (intro allI impI)
  fix w assume w: "clean w" "d = w_pbd w"
  have nz: "uint (mnt_sectsize mnt) \<ge> 0" by simp
  show "case run_prog (uint (mnt_sectsize mnt)) (pfs_leader_write env mnt lr) w of
      (Val x, w') \<Rightarrow> clean w' \<and> (case x of (rv, lr') \<Rightarrow> \<lambda>d'. if rv < 0 then d' = d
        else rv = PFS_OK \<and> lr' = sign_leader env lr \<and> d' = d\<lparr>d_leader := sign_leader env lr\<rparr>) (w_pbd w')
    | (Abrt, w') \<Rightarrow> False
    | (Crash, w') \<Rightarrow> w_pbd w' = d \<or> w_pbd w' = d\<lparr>d_leader := sign_leader env lr\<rparr>"
  proof (cases "w_lios w")
    case Nil
    then show ?thesis
      using w nz by (simp add: pfs_leader_write_def write_leader_def Let_def bindW_def leader_pwrite_def
          transfer_def next_lio_def ret_def write_code_def sign_leader_def)
  next
    case (Cons r rs)
    have c: "clean (w\<lparr>w_lios := rs\<rparr>)" "\<And>e fs. r = IoErr e fs \<Longrightarrow> \<not> (fs \<noteq> [] \<and> hd fs)"
      using w(1) Cons by (auto simp: clean_def)
    show ?thesis
      using w(2) nz Cons c
      by (cases r) (auto simp: pfs_leader_write_def write_leader_def Let_def bindW_def leader_pwrite_def
          transfer_def next_lio_def ret_def write_code_def sign_leader_def)
  qed
qed

lemma forward_leader_safe:
  assumes sz: "mnt_sectsize (log_mount log) \<noteq> 0"
    and a: "set_anchors (log_leader_latest log) (log_leader log) = log_leader log"
    and m: "tail_txid (log_leader log) \<ge> tail_txid (log_leader_latest log)"
      "head_txid (log_leader log) \<ge> head_txid (log_leader_latest log)"
      "head_lsn (log_leader log) \<ge> head_lsn (log_leader_latest log)"
      "tail_txid (log_leader log) > tail_txid (log_leader_latest log) \<or>
       head_txid (log_leader log) > head_txid (log_leader_latest log) \<and>
       head_lsn (log_leader log) > head_lsn (log_leader_latest log)"
  shows "safe ((=) d) (pfs_log_paxos_forward_leader env log)
    (\<lambda>(rv, log') d'. if rv < 0 then d' = d \<and> log' = log
       else rv = 0 \<and> d' = d\<lparr>d_leader := sign_leader env (log_leader log)\<rparr> \<and>
            log' = log\<lparr>log_leader_latest := sign_leader env (log_leader log)\<rparr>)
    (\<lambda>d'. d' = d \<or> d' = d\<lparr>d_leader := sign_leader env (log_leader log)\<rparr>)"
proof -
  let ?lr = "log_leader log"
  let ?R = "\<lambda>(rv, lr') d'. if rv < 0 then d' = d else rv = PFS_OK \<and> lr' = sign_leader env ?lr \<and>
       d' = d\<lparr>d_leader := sign_leader env ?lr\<rparr>"
  have cont: "safe (?R (rv, lr'))
      (if rv < 0 then ret (if rv = PFS_AIO_TIMEOUT then - ETIMEDOUT else rv, log)
       else assertW (rv = PFS_OK) (ret (0, log\<lparr>log_leader_latest := lr'\<rparr>)))
    (\<lambda>(rv, log') d'. if rv < 0 then d' = d \<and> log' = log
       else rv = 0 \<and> d' = d\<lparr>d_leader := sign_leader env ?lr\<rparr> \<and>
            log' = log\<lparr>log_leader_latest := sign_leader env ?lr\<rparr>)
    (\<lambda>d'. d' = d \<or> d' = d\<lparr>d_leader := sign_leader env ?lr\<rparr>)" for rv lr'
    by (cases "rv < 0") (auto intro!: safe_ret safe_assert)
  show ?thesis
    unfolding pfs_log_paxos_forward_leader_def Let_def set_anchors_def [symmetric] a
  proof (rule safe_assert, goal_cases)
    case 2
    show ?case
    proof (rule safe_bind [OF write_leader_run [OF sz]], goal_cases)
      case (1 x)
      show ?case using cont [of "fst x" "snd x"] by (cases x) (simp only: prod.case fst_conv snd_conv)
    qed
  qed (use m in simp)
qed

section \<open>The ring under writes\<close>

lemma logentry_crc_checksum [simp]:
  assumes "metaobj_typed (le_obj_val le)"
  shows "logentry_crc crc (le\<lparr>le_checksum := c\<rparr>) = logentry_crc crc le"
  using length_metaobj_bytes [OF assms]
  by (simp add: logentry_crc_def crc32c_compute_def logentry_bytes_def)

lemma mk_entry_slot_ok: "jop_ok env x \<Longrightarrow> slot_ok env (mk_entry env txid lsn nx x)"
proof -
  assume x: "jop_ok env x"
  obtain b i mo where bi: "x = (b, i, mo)" by (cases x)
  define le where "le = \<lparr>le_obj_val = mo, le_lsn = lsn, le_sector_bda = b, le_txid = txid,
    le_obj_idx = of_nat i, le_checksum = 0, le_more = (if nx then 1 else 0), le_pad = replicate 92 0\<rparr>"
  have eq: "mk_entry env txid lsn nx x = le\<lparr>le_checksum := logentry_crc (env_crc env) le\<rparr>"
    by (simp add: mk_entry_def bi le_def)
  have "metaobj_typed (le_obj_val le)" using x bi by (simp add: jop_ok_def le_def)
  then show ?thesis
    unfolding eq by (simp add: slot_ok_def pfs_log_check_one_def)
qed

lemma tx_entries_slot_ok:
  "list_all (jop_ok env) t \<Longrightarrow> list_all (slot_ok env) (tx_entries env txid lsn t)"
  by (induction t arbitrary: lsn) (auto intro: mk_entry_slot_ok)

lemma part_written_slots:
  assumes "part_written j a es j'" "list_all (slot_ok env) j" "list_all (slot_ok env) es"
  shows "list_all (slot_ok env) j'"
  using assms unfolding list_all_length part_written_def by metis

lemma ring_live_kept:
  assumes "part_written j (s + n) es j'" "n + length es \<le> length j" "s < length j"
  shows "ring_at j' s n = ring_at j s n"
proof (rule ring_at_cong)
  fix k assume k: "k < n"
  have pos: "length j > 0" using assms(3) by linarith
  show "j' ! ((s + k) mod length j) = j ! ((s + k) mod length j)"
  proof (rule part_written_outside [OF assms(1)])
    fix l assume l: "l < length es"
    show "(s + k) mod length j \<noteq> (s + n + l) mod length j"
      using ring_slots_distinct [of k "length j" "n + l" s] k l assms(2) by (auto simp: add.assoc)
  qed (use pos in simp)
qed (use assms(1) in \<open>simp add: part_written_def\<close>)

lemma ring_ok_part:
  assumes r: "ring_ok env lr j s ts" and p: "part_written j (s + length (concat ts)) es j'"
    and es: "list_all (slot_ok env) es" "length (concat ts) + length es \<le> length j"
  shows "ring_ok env lr j' s ts"
proof -
  have "length j' = length j" using p by (simp add: part_written_def)
  moreover have "ring_at j' s (length (concat ts)) = ring_at j s (length (concat ts))"
    by (rule ring_live_kept [OF p es(2)]) (use r in \<open>simp add: ring_ok_def\<close>)
  moreover have "list_all (slot_ok env) j'"
    by (rule part_written_slots [OF p _ es(1)]) (use r in \<open>simp add: ring_ok_def\<close>)
  ultimately show ?thesis using r by (simp add: ring_ok_def)
qed

text \<open>The leader record after a commit of \<open>n\<close> entries.\<close>

definition commit_leader :: "leader_record \<Rightarrow> nat \<Rightarrow> leader_record" where
  "commit_leader lr n = lr\<lparr>head_txid := head_txid lr + 1, head_lsn := head_lsn lr + of_nat n,
     head_offset := OFF_MODULAR_ADD (head_offset lr) (of_nat (LE_SIZE * n)) (log_size lr)\<rparr>"

lemma uint_add_small:
  fixes w :: u64
  assumes "uint w + int k < 2 ^ 63"
  shows "uint (w + of_nat k) = uint w + int k"
proof -
  have "w + of_nat k = word_of_int (uint w + int k)" by simp
  then show ?thesis using uint_word_small [of "uint w + int k"] assms by simp
qed

lemma ring_ok_commit:
  assumes r: "ring_ok env lr j s ts"
    and w: "full_written j (s + length (concat ts)) (tx_entries env (uint (head_txid lr) + 1) (uint (head_lsn lr)) t) j'"
    and t: "t \<noteq> []" "list_all (jop_ok env) t" "length (concat ts) + length t < length j"
    and b: "uint (head_txid lr) + 1 < 2 ^ 62" "uint (head_lsn lr) + int (length t) < 2 ^ 62"
  shows "ring_ok env (commit_leader lr (length t)) j' s (ts @ [t])"
proof -
  let ?n = "length (concat ts)" and ?es = "tx_entries env (uint (head_txid lr) + 1) (uint (head_lsn lr)) t"
  have p: "part_written j (s + ?n) ?es j'" using w by (simp add: full_written_def)
  have ro: "ring_ok env lr j' s ts"
    by (rule ring_ok_part [OF r p]) (use t in \<open>auto simp: tx_entries_slot_ok\<close>)
  have len: "length j' = length j" using p by (simp add: part_written_def)
  have u: "uint (head_txid lr + 1) = uint (head_txid lr) + 1"
    "uint (head_lsn lr + of_nat (length t)) = uint (head_lsn lr) + int (length t)"
    using uint_add_small [of "head_txid lr" 1] uint_add_small [of "head_lsn lr" "length t"] b by simp_all
  have k: "length t < 2 ^ 23" using t(3) r unfolding ring_ok_def by linarith
  have off: "unat (OFF_MODULAR_ADD (head_offset lr) (of_nat (LE_SIZE * length t)) (log_size lr)) =
      LE_SIZE * (((s + ?n) mod length j + length t) mod length j)"
  proof (rule off_modular_add)
    have "length j > 0" using t(3) by linarith
    then show "(s + ?n) mod length j < length j" by simp
  qed (use r t(3) k word_bytes(1) [of "length t"] in \<open>auto simp: ring_ok_def\<close>)
  have tail: "ring_at j' ((s + ?n) mod length j') (length t) = ?es"
    using w by (intro nth_equalityI) (auto simp: ring_at_nth full_written_def len mod_add_left_eq)
  show ?thesis
    using ro off len u b t r tail
    by (simp add: ring_ok_def commit_leader_def mod_add_left_eq add.assoc ring_at_append txs_entries_append)
qed

section \<open>Commit\<close>

text \<open>A transaction that fits the store it will be applied to.\<close>

definition tx_ready :: "lease_env \<Rightarrow> store \<Rightarrow> 'cb tx \<Rightarrow> bool" where
  "tx_ready env M tx \<longleftrightarrow> t_ops tx \<noteq> [] \<and> t_nops tx = int (length (t_ops tx)) \<and>
     list_all (txop_ready env) (t_ops tx) \<and>
     list_all (\<lambda>tp. top_idx tp < length (M (top_bda tp)) \<and>
        same_shape (top_local tp) (M (top_bda tp) ! top_idx tp)) (t_ops tx)"

definition tx_jops :: "'cb tx \<Rightarrow> jop list" where
  "tx_jops tx = map txop_jop (t_ops tx)"

lemma shape_apply_op:
  assumes "same_shape mo (m b ! i)" "same_shape mo' (m b' ! i')" "i' < length (m b')" "i < length (m b)"
  shows "same_shape mo' (apply_op (b, i, mo) m b' ! i')"
  using assms by (auto simp: apply_op_def nth_list_update same_shape_def)

lemma tx_apply_ready:
  assumes "list_all (txop_ready env) tps"
    "list_all (\<lambda>tp. top_idx tp < length (m (top_bda tp)) \<and> same_shape (top_local tp) (m (top_bda tp) ! top_idx tp)) tps"
  shows "pfs_tx_apply tps m = Some (apply_ops (map txop_jop tps) m)"
  using assms
proof (induction tps arbitrary: m)
  case (Cons tp tps)
  let ?m = "apply_op (txop_jop tp) m"
  have tp: "top_buf tp = Some (top_bda tp)" "top_idx tp < length (m (top_bda tp))"
    "same_shape (top_local tp) (m (top_bda tp) ! top_idx tp)"
    using Cons.prems by (auto simp: txop_ready_def)
  have "list_all (\<lambda>x. top_idx x < length (?m (top_bda x)) \<and> same_shape (top_local x) (?m (top_bda x) ! top_idx x)) tps"
    using Cons.prems(2) tp unfolding list_all_iff txop_jop_def
    by (auto intro!: shape_apply_op)
  then have "pfs_tx_apply tps ?m = Some (apply_ops (map txop_jop tps) ?m)"
    using Cons by simp
  with tp show ?case
    by (simp add: pfs_metaobj_cp_eq) (simp add: apply_op_def txop_jop_def)
qed simp

lemma groups_commit:
  assumes g: "groups_ok lr D N s T1 T2 wk wt"
    and t: "list_all (txop_ready env) tps"
    and h: "h = uint (tail_txid lr) + int (length T1) + int (length T2)"
  shows "\<exists>wk'. pfs_trimgroup_insert wk (h + 1) (of_nat (LE_SIZE * length tps)) tps (log_size lr) = Some wk' \<and>
    groups_ok (commit_leader lr (length tps)) D N s T1 (T2 @ [map txop_jop tps]) wk' wt"
proof -
  let ?m = "uint (tail_txid lr) + int (length T1)"
  let ?M = "apply_ops (concat T2) (apply_ops (concat T1) D)"
  have wk: "grp_ok ?M (touched (concat T2)) ?m h wk" "g_rtxid wk = h" "g_roffset wk = head_offset lr"
    "g_ltxid wk = ?m" "?m \<le> h"
    using g h by (simp_all add: groups_ok_def Let_def)
  have b: "list_all (\<lambda>tp. top_buf tp = Some (top_bda tp)) tps"
    using t by (auto simp: list_all_iff txop_ready_def)
  obtain wk' where "pfs_trimgroup_insert wk (h + 1) (of_nat (LE_SIZE * length tps)) tps (log_size lr) = Some wk'"
    "grp_ok (apply_ops (map txop_jop tps) ?M) (touched (concat T2) \<union> touched (map txop_jop tps)) ?m (h + 1) wk'"
    "g_ltxid wk' = ?m" "g_rtxid wk' = h + 1"
    "g_roffset wk' = OFF_MODULAR_ADD (head_offset lr) (of_nat (LE_SIZE * length tps)) (log_size lr)"
    using trimgroup_insert_ok [OF wk(1) b wk(2,5), of "of_nat (LE_SIZE * length tps)" "log_size lr"] wk by auto
  then show ?thesis
    using g h by (auto simp: groups_ok_def Let_def commit_leader_def algebra_simps)
qed

lemma commit_anchors:
  assumes "uint (head_txid lr) + 1 < 2 ^ 62" "uint (head_lsn lr) + int n < 2 ^ 62" "n > 0"
  shows "set_anchors lr (commit_leader lr n) = commit_leader lr n"
    "head_txid lr < head_txid (commit_leader lr n)" "head_lsn lr < head_lsn (commit_leader lr n)"
    "tail_txid (commit_leader lr n) = tail_txid lr"
  using uint_add_small [of "head_txid lr" 1] uint_add_small [of "head_lsn lr" n] assms
  by (simp_all add: set_anchors_def commit_leader_def word_less_alt)

lemma leader_ok_commit [simp]: "leader_ok env mnt (commit_leader lr n) = leader_ok env mnt lr"
  by (simp add: leader_ok_def verify_leader_def commit_leader_def)

lemma recovers_holds:
  assumes "leader_ok env mnt lr" "ring_ok env lr (d_journal d) s ts" "d_leader d = sign_leader env lr"
  shows "recovers env mnt (committed d ts) d"
  unfolding recovers_def holds_def using assms by auto

lemma commit_safe:
  fixes tx :: "'cb tx"
  assumes inv: "leader_ok env (log_mount log) (log_leader log)" "d_leader d = sign_leader env (log_leader log)"
      "log_workbufsz log = PFS_FRAG_SIZE" "ring_ok env (log_leader log) (d_journal d) s ts"
    and latest: "log_leader_latest log = log_leader log"
    and tx: "t_ops tx \<noteq> []" "t_nops tx = int (length (t_ops tx))" "list_all (txop_ready env) (t_ops tx)"
    and space: "length (concat ts) + length (t_ops tx) < length (d_journal d)"
    and b: "uint (head_txid (log_leader log)) + 1 < 2 ^ 62"
      "uint (head_lsn (log_leader log)) + int (length (t_ops tx)) < 2 ^ 62"
    and lr': "lr' = commit_leader (log_leader log) (length (t_ops tx))"
  shows "safe ((=) d) (pfs_log_commit env log tx (log_leader log))
    (\<lambda>(rv, log', tx') d'. tx' = tx\<lparr>t_id := uint (head_txid (log_leader log)) + 1\<rparr> \<and> d_sect d' = d_sect d \<and>
       length (d_journal d') = length (d_journal d) \<and>
       (if rv < 0 then log' = log \<and> d_leader d' = d_leader d \<and> ring_ok env (log_leader log) (d_journal d') s ts
        else rv = 0 \<and> log' = log\<lparr>log_leader := lr', log_leader_latest := sign_leader env lr'\<rparr> \<and>
             d_leader d' = sign_leader env lr' \<and> ring_ok env lr' (d_journal d') s (ts @ [tx_jops tx])))
    (\<lambda>d'. recovers env (log_mount log) (committed d ts) d' \<or>
          recovers env (log_mount log) (committed d (ts @ [tx_jops tx])) d')"
proof -
  let ?lr = "log_leader log" and ?n = "length (concat ts)" and ?k = "length (t_ops tx)"
  define es where "es = tx_entries env (uint (head_txid ?lr) + 1) (uint (head_lsn ?lr)) (tx_jops tx)"
  have live: "ring_live ?lr (length (d_journal d)) s ?n" by (rule ring_ok_live [OF inv(4)])
  have hid: "sint (head_txid ?lr + 1) = uint (head_txid ?lr) + 1"
    using uint_add_small [of "head_txid ?lr" 1] b(1) sint_small [of "head_txid ?lr + 1"] by simp
  have jok: "list_all (jop_ok env) (tx_jops tx)"
    using tx(3) by (auto simp: tx_jops_def list_all_iff txop_ready_def)
  have len: "length es = ?k" "length (tx_jops tx) = ?k" by (simp_all add: es_def tx_jops_def)
  have k: "?k > 0" "?k < 2 ^ 23" using tx(1) space live unfolding ring_live_def by (simp, linarith)
  have mnt: "mnt_sectsize (log_mount log) \<noteq> 0" using inv(1) by (simp add: leader_ok_def)
  note anch = commit_anchors [OF b k(1)]
  have part: "ring_ok env ?lr (d_journal d') s ts \<and> d_sect d' = d_sect d \<and> d_leader d' = d_leader d \<and>
      length (d_journal d') = length (d_journal d)" if "jpart d (s + ?n) es d'" for d'
  proof -
    have "part_written (d_journal d) (s + ?n) es (d_journal d')" using that by (simp add: jpart_def)
    then have "ring_ok env ?lr (d_journal d') s ts" "length (d_journal d') = length (d_journal d)"
      using ring_ok_part [OF inv(4), of es] tx_entries_slot_ok [OF jok] space len
      by (auto simp: es_def part_written_def)
    moreover have "d_sect d' = d_sect d" "d_leader d' = d_leader d"
      using that by (simp_all add: jpart_def) (metis pbd.select_convs pbd.surjective pbd.update_convs(2))+
    ultimately show ?thesis by simp
  qed
  have full: "ring_ok env lr' (d_journal d') s (ts @ [tx_jops tx])" if "jfull d (s + ?n) es d'" for d'
    unfolding lr' len(2) [symmetric]
    using that ring_ok_commit [OF inv(4), of "tx_jops tx" "d_journal d'"] jok space b len tx(1)
    by (simp add: jfull_def es_def tx_jops_def)
  have c: "recovers env (log_mount log) (committed d ts) d' \<or>
          recovers env (log_mount log) (committed d (ts @ [tx_jops tx])) d'"
    if "jpart d (s + ?n) es d'" for d'
    using part [OF that] recovers_holds [of env "log_mount log" ?lr d' s ts] inv by (simp add: committed_def)
  have c': "recovers env (log_mount log) (committed d ts) d' \<or>
          recovers env (log_mount log) (committed d (ts @ [tx_jops tx])) d'"
    if "jfull d (s + ?n) es d1" "d' = d1 \<or> d' = d1\<lparr>d_leader := sign_leader env lr'\<rparr>" for d' d1
    using that c [of d1] jfull_part [OF that(1)] part [OF jfull_part [OF that(1)]] full [OF that(1)]
      recovers_holds [of env "log_mount log" lr' d' s "ts @ [tx_jops tx]"] inv(1)
    by (auto simp: committed_def lr')
  let ?log = "log\<lparr>log_leader := lr'\<rparr>"
  have fwd: "safe ((=) d1) (bindW (pfs_log_paxos_forward_leader env ?log) (\<lambda>(rv2, log2).
                 ret (rv2, if rv2 < 0 then log2\<lparr>log_leader := ?lr\<rparr> else log2, tx1)))
    (\<lambda>(rv, log', tx') d'. tx' = tx1 \<and> (if rv < 0 then log' = log \<and> d' = d1
        else rv = 0 \<and> log' = log\<lparr>log_leader := lr', log_leader_latest := sign_leader env lr'\<rparr> \<and>
             d' = d1\<lparr>d_leader := sign_leader env lr'\<rparr>))
    (\<lambda>d'. d' = d1 \<or> d' = d1\<lparr>d_leader := sign_leader env lr'\<rparr>)" for d1 and tx1 :: "'cb tx"
    by (rule safe_bind [OF forward_leader_safe [of ?log d1 env, simplified]])
      (use mnt anch latest in \<open>auto simp: lr' intro!: safe_ret\<close>)
  let ?Q = "\<lambda>(rv, log', tx') d'. tx' = tx\<lparr>t_id := uint (head_txid ?lr) + 1\<rparr> \<and> d_sect d' = d_sect d \<and>
       length (d_journal d') = length (d_journal d) \<and>
       (if rv < 0 then log' = log \<and> d_leader d' = d_leader d \<and> ring_ok env ?lr (d_journal d') s ts
        else rv = 0 \<and> log' = log\<lparr>log_leader := lr', log_leader_latest := sign_leader env lr'\<rparr> \<and>
             d_leader d' = sign_leader env lr' \<and> ring_ok env lr' (d_journal d') s (ts @ [tx_jops tx]))"
  have lg: "safe ((=) d) (pfs_tx_log env log tx (head_txid ?lr) (head_lsn ?lr) (head_offset ?lr))
    (\<lambda>(rv, tx') d'. tx' = tx\<lparr>t_id := uint (head_txid ?lr) + 1\<rparr> \<and>
       (if rv < 0 then jpart d (s + ?n) es d' else rv = int (LE_SIZE * ?k) \<and> jfull d (s + ?n) es d'))
    (\<lambda>d'. recovers env (log_mount log) (committed d ts) d' \<or>
          recovers env (log_mount log) (committed d (ts @ [tx_jops tx])) d')"
    by (rule safe_weaken [OF tx_log_safe [OF live refl inv(3) tx(3,1,2), of "head_lsn ?lr" es "head_txid ?lr", unfolded hid]])
      (use space b(2) c in \<open>auto simp: es_def tx_jops_def\<close>)
  have lr1: "?lr\<lparr>head_txid := head_txid ?lr + 1, head_lsn := head_lsn ?lr + word_of_int (int (LE_SIZE * ?k) div int LE_SIZE),
      head_offset := OFF_MODULAR_ADD (head_offset ?lr) (word_of_int (int (LE_SIZE * ?k))) (log_size ?lr)\<rparr> = lr'"
    by (simp add: lr' commit_leader_def)
  show ?thesis
    unfolding pfs_log_commit_def Let_def latest
    apply (simp only: diff_self signed_0 less_irrefl if_False)
    apply (rule safe_bind [OF lg])
    subgoal for x
    proof (cases x)
      case (Pair rv tx1)
      show ?thesis
      proof (cases "rv < 0")
        case True
        then show ?thesis using part by (simp add: Pair) (rule safe_ret, auto)
      next
        case False
        show ?thesis
        proof (rule safe_pre, goal_cases)
          case (1 d1)
          then have d1: "rv = int (LE_SIZE * ?k)" "jfull d (s + ?n) es d1" "tx1 = tx\<lparr>t_id := uint (head_txid ?lr) + 1\<rparr>"
            using False by (simp_all add: Pair)
          have "safe ((=) d1) (bindW (pfs_log_paxos_forward_leader env ?log) (\<lambda>(rv2, log2).
                 ret (rv2, if rv2 < 0 then log2\<lparr>log_leader := ?lr\<rparr> else log2, tx1))) ?Q
            (\<lambda>d'. recovers env (log_mount log) (committed d ts) d' \<or>
              recovers env (log_mount log) (committed d (ts @ [tx_jops tx])) d')"
          proof (rule safe_weaken [OF fwd [of d1]], goal_cases)
            case (2 x d')
            then show ?case
              using part [OF jfull_part [OF d1(2)]] full [OF d1(2)] d1(3) by (cases x) (simp split: if_splits)
          qed (use c' [OF d1(2)] in blast)+
          then show ?case
            unfolding Pair prod.case using False by (simp only: d1(1) lr1 if_False)
        qed
      qed
    qed
    done
qed

section \<open>Swap\<close>

lemma groups_facts:
  assumes "groups_ok lr D N s T1 T2 wk wt"
  shows "g_ltxid wk = uint (tail_txid lr) + int (length T1)"
    "g_rtxid wk = uint (tail_txid lr) + int (length T1) + int (length T2)"
    "g_roffset wk = head_offset lr"
    "grp_ok (apply_ops (concat T2) (apply_ops (concat T1) D)) (touched (concat T2))
       (uint (tail_txid lr) + int (length T1)) (uint (tail_txid lr) + int (length T1) + int (length T2)) wk"
    "grp_ok (apply_ops (concat T1) D) (touched (concat T1)) (uint (tail_txid lr))
       (uint (tail_txid lr) + int (length T1)) wt"
    "g_nsects_empty wt = 0" "T1 = [] \<Longrightarrow> g_ltxid wt = g_rtxid wt"
    "T1 \<noteq> [] \<Longrightarrow> g_ltxid wt = uint (tail_txid lr)"
    "T1 \<noteq> [] \<Longrightarrow> g_rtxid wt = uint (tail_txid lr) + int (length T1)"
    "T1 \<noteq> [] \<Longrightarrow> unat (g_roffset wt) = LE_SIZE * ((s + length (concat T1)) mod N)"
  using assms by (auto simp: groups_ok_def Let_def)

lemma groups_work_grp:
  assumes "groups_ok lr D N s T1 T2 wk wt" "same_range wk wk'"
    "grp_ok (apply_ops (concat T2) (apply_ops (concat T1) D)) (touched (concat T2)) (g_ltxid wk) (g_rtxid wk) wk'"
  shows "groups_ok lr D N s T1 T2 wk' wt"
  using assms groups_facts(1,2) [OF assms(1)] by (auto simp: groups_ok_def Let_def same_range_def)

lemma grp_ok_none: "grp_ok m {} l r grp \<Longrightarrow> grp_ok m' {} l' r' grp"
  by (auto simp: grp_ok_def Let_def bdas_def split: option.splits)

lemma to_int32_small: "0 \<le> x \<Longrightarrow> x < 2 ^ 31 \<Longrightarrow> to_int32 x = x"
  by (simp add: to_int32_def signed_of_int signed_take_bit_int_eq_self)

text \<open>The work group becomes the wait group, if that is empty.\<close>

definition regrouped :: "'a list \<Rightarrow> 'a list \<Rightarrow> 'a list \<Rightarrow> 'a list \<Rightarrow> bool" where
  "regrouped T1 T2 T1' T2' \<longleftrightarrow> T1' = T1 \<and> T2' = T2 \<or> T1 = [] \<and> T1' = T2 \<and> T2' = []"

lemma regrouped_refl [simp, intro]: "regrouped T1 T2 T1 T2"
  by (simp add: regrouped_def)

lemma regrouped_append: "regrouped T1 T2 T1' T2' \<Longrightarrow> T1' @ T2' = T1 @ T2"
  by (auto simp: regrouped_def)

lemma direct_swap_groups:
  assumes g: "groups_ok lr D N s T1 T2 wk wt" and e: "g_nsects_empty wk = 0"
    and h: "unat (head_offset lr) = LE_SIZE * ((s + length (concat (T1 @ T2))) mod N)"
    and n: "length T1 < 2 ^ 31" and sw: "direct_swap lo force wk wt = (wk', wt')"
  shows "\<exists>T1' T2'. regrouped T1 T2 T1' T2' \<and> groups_ok lr D N s T1' T2' wk' wt' \<and> (force \<longrightarrow> T1' = [] \<longrightarrow> T2' = [])"
proof (cases "T1 = []")
  case False
  have "int (length T1) < 2 ^ 31" using n by simp
  then have "pfs_trimgroup_ntx wt > 0"
    using False groups_facts(8,9) [OF g False] to_int32_small [of "int (length T1)"]
    by (simp add: pfs_trimgroup_ntx_def)
  then show ?thesis
    using g sw False by - (rule exI [of _ T1], rule exI [of _ T2], auto simp: direct_swap_def)
next
  case True
  note f = groups_facts [OF g]
  show ?thesis
  proof (cases "wk' = wk \<and> wt' = wt \<and> \<not> force")
    case True
    then show ?thesis using g regrouped_refl [of T1 T2] by blast
  next
    case F: False
    have "pfs_trimgroup_ntx wt = 0" using f(7) [OF True] by (simp add: pfs_trimgroup_ntx_def to_int32_def)
    then have s: "wk' = wt\<lparr>g_ltxid := g_rtxid wk, g_rtxid := g_rtxid wk, g_roffset := g_roffset wk\<rparr>" "wt' = wk"
      using sw F by (auto simp: direct_swap_def split: if_splits)
    have "grp_ok m {} l r wt" for m l r
      using f(5) True grp_ok_none by simp
    then have "groups_ok lr D N s T2 [] wk' wt'"
      using f True s h e by (auto simp: groups_ok_def Let_def)
    then show ?thesis using True by - (rule exI [of _ T2], rule exI [of _ "[]"], simp add: regrouped_def)
  qed
qed

lemma trylock_safe: "safe P trylock (\<lambda>_. P) C"
  unfolding safe_def trylock_def by (auto split: list.splits)

lemma tryswap_safe:
  assumes g: "groups_ok lr D N s T1 T2 wk wt"
    and h: "unat (head_offset lr) = LE_SIZE * ((s + length (concat (T1 @ T2))) mod N)" "length T1 < 2 ^ 31"
    and m: "m = apply_ops (concat (T1 @ T2)) D"
  shows "safe P (pfs_log_tryswap_trimgroup lo m w force ht wk wt)
    (\<lambda>(rv, wk', wt') d. P d \<and> (\<exists>T1' T2'. regrouped T1 T2 T1' T2' \<and> groups_ok lr D N s T1' T2' wk' wt' \<and>
       (w \<and> force \<and> ht = LOG_WRITE \<longrightarrow> T1' = [] \<longrightarrow> T2' = []))) C"
    (is "safe P _ ?Q C")
proof -
  note f = groups_facts [OF g]
  have stay: "safe P (ret (rv, wk, wt)) ?Q C" if "\<not> (w \<and> force \<and> ht = LOG_WRITE)" for rv
    using g that by (intro safe_ret) auto
  have dsw: "safe P (ret (rv, direct_swap lo force wk1 wt)) ?Q C"
    if "groups_ok lr D N s T1 T2 wk1 wt" "g_nsects_empty wk1 = 0" for rv wk1
  proof (cases "direct_swap lo force wk1 wt")
    case (Pair wk' wt')
    show ?thesis
      using direct_swap_groups [OF that h Pair] unfolding Pair
      by (intro safe_ret) (simp only: prod.case, blast)
  qed
  have M: "m = apply_ops (concat T2) (apply_ops (concat T1) D)" by (simp add: m)
  have cp: "safe P (liftW (swap_copy lo m force wk wt)) ?Q C" if e: "g_nsects_empty wk \<noteq> 0"
    using swap_copy_cases [OF f(4) e, of force lo wt]
  proof (elim disjE exE conjE, goal_cases)
    case (1 n wk')
    then show ?thesis
      using groups_work_grp [OF g, of wk'] f(1,2) by (auto simp: M intro!: safe_ret)
  next
    case (2 wk')
    then show ?thesis
      using dsw [of wk' 0] groups_work_grp [OF g, of wk'] f(1,2) by (simp add: M)
  qed
  have fst: "g_sect_empty_first wk \<noteq> None" if "g_nsects_empty wk \<noteq> 0"
    using f(4) that by (auto simp: grp_ok_def Let_def split: option.splits)
  have lk: "safe P (bindW (if ht \<noteq> LOG_WRITE then trylock else ret True) (\<lambda>locked.
             if \<not> locked then ret (- nswapin, wk, wt) else liftW (swap_copy lo m force wk wt))) ?Q C"
    if "g_nsects_empty wk \<noteq> 0" for nswapin
  proof (cases "ht = LOG_WRITE")
    case False
    show ?thesis using stay cp [OF that] False by (auto intro!: safe_bind [OF trylock_safe])
  qed (use cp that in simp)
  show ?thesis
    unfolding pfs_log_tryswap_trimgroup_def Let_def
    using stay dsw [OF g] lk fst by (auto simp: split_beta intro!: safe_assert)
qed

section \<open>Trim\<close>

text \<open>A flush that was cut off, or failed, leaves the groups as they are.\<close>

lemma groups_flushed:
  assumes g: "groups_ok lr D N s T1 T2 wk wt" and D': "\<And>b. D' b = D b \<or> D' b = apply_ops (concat T1) D b"
  shows "groups_ok lr D' N s T1 T2 wk wt" "apply_ops (concat (T1 @ T2)) D' = apply_ops (concat (T1 @ T2)) D"
proof -
  have "apply_ops (concat T1) D' = apply_ops (concat T1) D"
    using replay_idempotent [of D' D "concat T1" "[]"] D' by simp
  then show "groups_ok lr D' N s T1 T2 wk wt" "apply_ops (concat (T1 @ T2)) D' = apply_ops (concat (T1 @ T2)) D"
    using g by (simp_all add: groups_ok_def Let_def)
qed

definition trim_leader :: "leader_record \<Rightarrow> nat \<Rightarrow> u64 \<Rightarrow> leader_record" where
  "trim_leader lr n off = lr\<lparr>tail_txid := word_of_int (uint (tail_txid lr) + int n), tail_offset := off\<rparr>"

lemma length_le_concat: "list_all (\<lambda>t. t \<noteq> []) ts \<Longrightarrow> length ts \<le> length (concat ts)"
  by (induction ts) (auto simp: Suc_le_eq add_mono neq_Nil_conv)

lemma ring_ok_trim:
  assumes r: "ring_ok env lr j s (T1 @ T2)"
    and off: "unat off = LE_SIZE * ((s + length (concat T1)) mod length j)"
  shows "ring_ok env (trim_leader lr (length T1) off) j ((s + length (concat T1)) mod length j) T2"
    "uint (tail_txid (trim_leader lr (length T1) off)) = uint (tail_txid lr) + int (length T1)"
proof -
  let ?s = "(s + length (concat T1)) mod length j"
  have u: "uint (word_of_int (uint (tail_txid lr) + int (length T1)) :: u64) = uint (tail_txid lr) + int (length T1)"
    using r by (intro uint_word_small) (auto simp: ring_ok_def)
  then show "uint (tail_txid (trim_leader lr (length T1) off)) = uint (tail_txid lr) + int (length T1)"
    by (simp add: trim_leader_def)
  have "s < length j" using r by (simp add: ring_ok_def)
  then have s: "?s < length j" by (intro mod_less_divisor) linarith
  have "ring_at j s (length (concat T1)) @ ring_at j ?s (length (concat T2)) =
      txs_entries env (uint (tail_txid lr)) (uint (head_lsn lr) - int (length (concat T1) + length (concat T2))) T1 @
      txs_entries env (uint (tail_txid lr) + int (length T1)) (uint (head_lsn lr) - int (length (concat T2))) T2"
    using r by (simp add: ring_ok_def ring_at_append txs_entries_append algebra_simps)
  then have "ring_at j ?s (length (concat T2)) =
      txs_entries env (uint (tail_txid lr) + int (length T1)) (uint (head_lsn lr) - int (length (concat T2))) T2"
    by (auto dest: append_eq_append_conv [THEN iffD1, rotated])
  then show "ring_ok env (trim_leader lr (length T1) off) j ?s T2"
    using r s off u by (simp add: ring_ok_def trim_leader_def mod_add_left_eq mod_add_right_eq algebra_simps)
qed

lemma leader_ok_trim [simp]: "leader_ok env mnt (trim_leader lr n off) = leader_ok env mnt lr"
  by (simp add: leader_ok_def verify_leader_def trim_leader_def)

lemma trim_anchors:
  "set_anchors lr (trim_leader lr n off) = trim_leader lr n off"
  "head_txid (trim_leader lr n off) = head_txid lr" "head_lsn (trim_leader lr n off) = head_lsn lr"
  "lr_num_hosts (trim_leader lr n off) = lr_num_hosts lr"
  by (simp_all add: set_anchors_def trim_leader_def)

lemma flushed_committed:
  assumes "flushed d (apply_ops (concat T1) (d_sect d)) F d'"
  shows "committed d' (T1 @ T2) = committed d (T1 @ T2)" "d_leader d' = d_leader d" "d_journal d' = d_journal d"
proof -
  have e: "d' = d\<lparr>d_sect := d_sect d'\<rparr>"
    "\<And>b. d_sect d' b = d_sect d b \<or> d_sect d' b = apply_ops (concat T1) (d_sect d) b"
    using assms unfolding flushed_def by blast+
  show "committed d' (T1 @ T2) = committed d (T1 @ T2)"
    unfolding committed_def using replay_idempotent [of "d_sect d'" "d_sect d" "concat T1" "concat T2"] e(2) by simp
  show "d_leader d' = d_leader d" "d_journal d' = d_journal d" by (subst e(1), simp)+
qed

lemma log_inv_flushed:
  assumes "log_inv env log d T1 T2" "flushed d (apply_ops (concat T1) (d_sect d)) F d'"
  shows "log_inv env log d' T1 T2"
  using assms flushed_committed [OF assms(2)] groups_flushed(1) [of "log_leader log" "d_sect d" _ _ T1 T2 _ _ "d_sect d'"]
  unfolding log_inv_def flushed_def by auto

lemma flushed_full:
  assumes "flushed d (apply_ops (concat T1) (d_sect d)) (touched (concat T1)) d'"
  shows "d_sect d' = apply_ops (concat T1) (d_sect d)"
proof
  fix b
  show "d_sect d' b = apply_ops (concat T1) (d_sect d) b"
    using assms apply_ops_untouched [of b "concat T1" "d_sect d"] unfolding flushed_def by metis
qed

text \<open>The wait group is dropped once its sectors are written and the tail is moved.\<close>

lemma groups_trim:
  assumes g: "groups_ok lr D N s T1 T2 wk wt" and t: "T1 \<noteq> []"
    and u: "uint (tail_txid (trim_leader lr (length T1) off)) = uint (tail_txid lr) + int (length T1)"
  shows "groups_ok (trim_leader lr (length T1) off) (apply_ops (concat T1) D) N s' [] T2 wk
      (pfs_trimgroup_delete wt (g_rtxid wt))"
    "g_ltxid (pfs_trimgroup_delete wt (g_rtxid wt)) = g_rtxid (pfs_trimgroup_delete wt (g_rtxid wt))"
    "pfs_trimgroup_delete wk (g_rtxid wt) = wk"
proof -
  note f = groups_facts [OF g]
  have "g_ltxid wt < uint (tail_txid lr) + int (length T1)" using f(8) [OF t] t by simp
  note del = trimgroup_delete_all [OF f(5) f(6) f(9) [OF t] this]
  show "groups_ok (trim_leader lr (length T1) off) (apply_ops (concat T1) D) N s' [] T2 wk
      (pfs_trimgroup_delete wt (g_rtxid wt))"
    using f(1-4) f(9) [OF t] del u by (simp add: groups_ok_def trim_leader_def)
  show "g_ltxid (pfs_trimgroup_delete wt (g_rtxid wt)) = g_rtxid (pfs_trimgroup_delete wt (g_rtxid wt))"
    using del f(9) [OF t] by simp
  show "pfs_trimgroup_delete wk (g_rtxid wt) = wk"
    by (rule trimgroup_delete_none) (use f(1) f(9) [OF t] in simp)
qed

text \<open>What the journal code does not change.\<close>

definition log_frame :: "plog \<Rightarrow> nat \<times> u32 \<times> lease_mnt \<times> bool \<times> u64 \<times> u64 \<times> u64" where
  "log_frame log = (log_state log, log_flags log, log_mount log, log_paxos_got log,
     head_txid (log_leader log), head_lsn (log_leader log), lr_num_hosts (log_leader log))"

lemma trim_safe:
  assumes inv: "log_inv env log d T1 T2" and latest: "log_leader_latest log = log_leader log"
  shows "safe ((=) d) (pfs_log_trim env log)
    (\<lambda>(rv, log') d'. log_frame log' = log_frame log \<and> d_journal d' = d_journal d \<and>
       committed d' (if T1 = [] \<or> rv < 0 then T1 @ T2 else T2) = committed d (T1 @ T2) \<and>
       (if T1 = [] \<or> rv < 0 then log' = log \<and> log_inv env log d' T1 T2
        else rv = 0 \<and> log_inv env log' d' [] T2))
    (recovers env (log_mount log) (committed d (T1 @ T2)))" (is "safe _ _ ?Q ?C")
proof -
  let ?lr = "log_leader log" and ?wt = "log_waitgrp log" and ?S = "apply_ops (concat T1) (d_sect d)"
  obtain s where ok: "leader_ok env (log_mount log) ?lr" "d_leader d = sign_leader env ?lr"
      "ring_ok env ?lr (d_journal d) s (T1 @ T2)"
      "groups_ok ?lr (d_sect d) (length (d_journal d)) s T1 T2 (log_workgrp log) ?wt"
    using inv by (auto simp: log_inv_def)
  obtain sp where sp: "pfs_log_space log = Some sp"
    using log_space_live [OF ring_ok_live [OF ok(3)]] by blast
  note f = groups_facts [OF ok(4)]
  show ?thesis
  proof (cases "T1 = []")
    case True
    then show ?thesis
      unfolding pfs_log_trim_def using sp f(7) inv by (auto intro!: safe_ret)
  next
    case False
    define lr' where "lr' = trim_leader ?lr (length T1) (g_roffset ?wt)"
    define log1 where "log1 = log\<lparr>log_leader := lr'\<rparr>"
    note ring' = ring_ok_trim [OF ok(3) f(10) [OF False], folded lr'_def]
    have lt: "tail_txid ?lr < tail_txid lr'" using ring'(2) False by (simp add: word_less_alt)
    have rec: "?C d'" if "flushed d ?S F d'" for F d'
      using recovers_holds [OF ok(1), of d' s "T1 @ T2"] flushed_committed [OF that] ok by simp
    have fwd: "safe ((=) d1) (pfs_log_paxos_forward_leader env log1)
      (\<lambda>(rv, log2) d'. if rv < 0 then d' = d1 \<and> log2 = log1
         else rv = 0 \<and> d' = d1\<lparr>d_leader := sign_leader env lr'\<rparr> \<and> log2 = log1\<lparr>log_leader_latest := sign_leader env lr'\<rparr>)
      (\<lambda>d'. d' = d1 \<or> d' = d1\<lparr>d_leader := sign_leader env lr'\<rparr>)" for d1
    proof -
      have "log_leader log1 = lr'" "log_leader_latest log1 = ?lr" "log_mount log1 = log_mount log"
        by (simp_all add: log1_def latest)
      then show ?thesis
        using forward_leader_safe [of log1 d1 env] ok(1) lt trim_anchors [of ?lr "length T1" "g_roffset ?wt"]
        by (simp only: lr'_def leader_ok_def) simp
    qed
    have dn: "log_inv env (pfs_log_del_trimentry (log1\<lparr>log_leader_latest := l\<rparr>) (g_rtxid ?wt)) d' [] T2 \<and>
        committed d' T2 = committed d (T1 @ T2) \<and> d_journal d' = d_journal d"
      if "flushed d ?S (touched (concat T1)) d1" "d' = d1\<lparr>d_leader := sign_leader env lr'\<rparr>" for d1 d' l
      using flushed_full [OF that(1)] flushed_committed [OF that(1)] that(2) inv ring'(1) ok(1)
        groups_trim [OF ok(4) False ring'(2) [unfolded lr'_def]]
      by (auto simp: log_inv_def log1_def pfs_log_del_trimentry_def committed_def lr'_def
          intro!: exI [of _ "(s + length (concat T1)) mod length (d_journal d)"])
    have fin: "safe ((=) d1) (bindW (pfs_log_paxos_forward_leader env log1) (\<lambda>(rv, log2).
          if rv < 0 then ret (rv, log2\<lparr>log_leader := ?lr\<rparr>)
          else let log3 = pfs_log_del_trimentry log2 (g_rtxid ?wt)
               in assertW (g_ltxid (log_waitgrp log3) = g_rtxid (log_waitgrp log3)) (ret (0, log3)))) ?Q ?C"
      if d1: "flushed d ?S (touched (concat T1)) d1" for d1
    proof (rule safe_bind)
      show "safe ((=) d1) (pfs_log_paxos_forward_leader env log1)
        (\<lambda>(rv, log2) d'. if rv < 0 then d' = d1 \<and> log2 = log1 else rv = 0 \<and>
           d' = d1\<lparr>d_leader := sign_leader env lr'\<rparr> \<and> log2 = log1\<lparr>log_leader_latest := sign_leader env lr'\<rparr>) ?C"
      proof (rule safe_weaken [OF fwd [of d1]])
        show "?C d'" if "d' = d1 \<or> d' = d1\<lparr>d_leader := sign_leader env lr'\<rparr>" for d'
          using that rec [OF d1] log_inv_recovers [OF conjunct1 [OF dn [OF d1 refl]]] conjunct2 [OF dn [OF d1 refl]]
          by (auto simp: log1_def pfs_log_del_trimentry_def)
      qed auto
    qed (use dn [OF d1 refl] log_inv_flushed [OF inv d1] flushed_committed [OF d1] False
          groups_trim(2) [OF ok(4) False ring'(2) [unfolded lr'_def]] trim_anchors [of ?lr "length T1" "g_roffset ?wt"]
        in \<open>auto simp: Let_def pfs_log_del_trimentry_def log1_def log_frame_def lr'_def intro!: safe_ret safe_assert\<close>)
    have nz: "g_nsects ?wt > 0"
    proof -
      have "touched (concat T1) \<noteq> {}" using ok(3) False by (cases T1) (auto simp: ring_ok_def touched_def)
      then show ?thesis using f(5) by (auto simp: grp_ok_def Let_def bdas_def)
    qed
    have sint: "sint (tail_txid ?lr) = g_ltxid ?wt"
      using sint_small [of "tail_txid ?lr"] f(8) [OF False] ok(3) by (simp add: ring_ok_def)
    have lr1: "?lr\<lparr>tail_txid := word_of_int (g_rtxid ?wt), tail_offset := g_roffset ?wt\<rparr> = lr'"
      by (simp add: lr'_def trim_leader_def f(9) [OF False])
    have neq: "g_ltxid ?wt \<noteq> g_rtxid ?wt" using f(8,9) [OF False] False by simp
    have fl: "grp_ok ?S (touched (concat T1)) (g_ltxid ?wt) (g_rtxid ?wt) ?wt"
      using f(5) f(8,9) [OF False] by simp
    show ?thesis
      unfolding pfs_log_trim_def sp Let_def lr1 log1_def [symmetric] liftW_simps bindW_simps
      apply (simp only: neq if_False)
    proof (rule safe_assert, goal_cases)
      case 2
      show ?case
      proof (rule safe_bind)
        show "safe ((=) d) (pfs_trimgroup_flush ?wt)
            (\<lambda>rv d'. flushed d ?S {} d' \<and> (rv \<ge> 0 \<longrightarrow> rv = g_nsects ?wt \<and> flushed d ?S (touched (concat T1)) d')) ?C"
          by (rule safe_weaken [OF trimgroup_flush_safe [OF fl f(6)]]) (auto intro: rec)
      next
        fix rv
        show "safe (\<lambda>d'. flushed d ?S {} d' \<and> (rv \<ge> 0 \<longrightarrow> rv = g_nsects ?wt \<and> flushed d ?S (touched (concat T1)) d'))
            (if rv \<le> 0 then ret (rv, log)
             else bindW (pfs_log_paxos_forward_leader env log1) (\<lambda>(rv, log2).
               if rv < 0 then ret (rv, log2\<lparr>log_leader := ?lr\<rparr>)
               else assertW (g_ltxid (log_waitgrp (pfs_log_del_trimentry log2 (g_rtxid ?wt))) =
                     g_rtxid (log_waitgrp (pfs_log_del_trimentry log2 (g_rtxid ?wt))))
                   (ret (0, pfs_log_del_trimentry log2 (g_rtxid ?wt))))) ?Q ?C"
        proof (cases "rv \<le> 0")
          case True
          have "?Q (rv, log) d'" if "flushed d ?S {} d'" "rv < 0" for d'
            using log_inv_flushed [OF inv that(1)] flushed_committed [OF that(1)] that(2) by simp
          then show ?thesis
            using True nz by (simp only: if_True) (rule safe_ret, fastforce)
        next
          case F: False
          show ?thesis
            by (rule safe_pre) (use F fin [unfolded Let_def] in auto)
        qed
      qed
    qed (use sint f(1) f(9) [OF False] in simp)
  qed
qed

end
