(* ===== verification/Log_Safe.thy ===== *)
theory Log_Safe
  imports Log_Thread Journal_Safe
begin

text \<open>
  The log thread of the host that mounts read-write keeps the journal's promise. The metadata
  in memory is at all times the store the device recovers to; a reply \<open>0\<close> to a \<open>LOG_WRITE\<close>
  means its transaction is in both; the dispatcher ends; and no assertion fails.
\<close>

section \<open>The state of the thread\<close>

definition th_ok :: "log_conf \<Rightarrow> pbd \<Rightarrow> jop list list \<Rightarrow> jop list list \<Rightarrow> 'cb lthread \<Rightarrow> bool" where
  "th_ok lc d T1 T2 th \<longleftrightarrow> log_inv (lc_env lc) (th_log th) d T1 T2 \<and>
     th_mem th = committed d (T1 @ T2) \<and> \<not> log_paxos_got (th_log th)"

text \<open>A host finds the store \<open>M\<close> when it loads the file system from the device.\<close>

definition finds :: "log_conf \<Rightarrow> u32 \<Rightarrow> store \<Rightarrow> pbd \<Rightarrow> bool" where
  "finds lc sectsize M d \<longleftrightarrow> (\<exists>mnt. mnt_sectsize mnt = sectsize \<and> recovers (lc_env lc) mnt M d)"

abbreviation th_sectsize :: "'cb lthread \<Rightarrow> u32" where
  "th_sectsize th \<equiv> mnt_sectsize (log_mount (th_log th))"

lemma th_ok_finds: "th_ok lc d T1 T2 th \<Longrightarrow> finds lc (th_sectsize th) (th_mem th) d"
  unfolding th_ok_def finds_def using log_inv_recovers by metis

text \<open>The transactions acknowledged by a sequence of replies, applied to a store.\<close>

definition ack :: "'cb log_reply \<Rightarrow> store \<Rightarrow> store" where
  "ack rp m =
     (case rp_itx rp of
        Some tx \<Rightarrow> if rp_type rp = LOG_WRITE \<and> rp_error rp = 0 then apply_ops (tx_jops tx) m else m
      | None \<Rightarrow> m)"

definition acked :: "'cb log_reply list \<Rightarrow> store \<Rightarrow> store" where
  "acked rps = fold ack rps"

lemma acked_append [simp]: "acked (xs @ ys) m = acked ys (acked xs m)"
  by (simp add: acked_def)

lemma acked_none: "list_all (\<lambda>rp. rp_type rp = LOG_WRITE \<longrightarrow> rp_error rp \<noteq> 0) rps \<Longrightarrow> acked rps m = m"
  by (induction rps arbitrary: m) (auto simp: acked_def ack_def split: option.splits)

text \<open>The queues: requests by their type, none with replay transactions; one write at most, and
  it fits; the requests a host sends to itself while it loads are not there.\<close>

definition queues_ok :: "'cb lthread \<Rightarrow> bool" where
  "queues_ok th \<longleftrightarrow> (\<forall>i. list_all (\<lambda>r. r_otxq r = [] \<and> (i \<noteq> 0 \<longrightarrow> r_type r = i)) (th_work th i)) \<and>
     th_work th LOG_LOAD = [] \<and> th_work th LOG_REPLAYDONE = [] \<and> (\<forall>k\<ge>LOG_NREQ. th_work th k = [])"

definition write_ok :: "log_conf \<Rightarrow> nat \<Rightarrow> store \<Rightarrow> leader_record \<Rightarrow> 'cb log_req \<Rightarrow> bool" where
  "write_ok lc N m lr req \<longleftrightarrow>
     (case r_itx req of
        None \<Rightarrow> False
      | Some tx \<Rightarrow> tx_ready (lc_env lc) m tx \<and> length (t_ops tx) < N \<and>
          uint (head_txid lr) + 1 < 2 ^ 62 \<and> uint (head_lsn lr) + int (length (t_ops tx)) < 2 ^ 62)"

definition req_ok :: "log_conf \<Rightarrow> nat \<Rightarrow> store \<Rightarrow> leader_record \<Rightarrow> 'cb log_req \<Rightarrow> bool" where
  "req_ok lc N m lr req \<longleftrightarrow>
     (r_type req = LOG_WRITE \<longrightarrow> write_ok lc N m lr req) \<and>
     (r_type req = LOG_TRY_RESET_LOCK \<longrightarrow> \<not> lr_num_hosts lr < ucast (r_next_hostid req))"

section \<open>Replies\<close>

definition reply_of :: "int \<Rightarrow> 'cb log_req \<Rightarrow> 'cb log_reply" where
  "reply_of rv req = \<lparr>rp_id = r_id req, rp_type = r_type req, rp_error = rv, rp_itx = r_itx req, rp_otxq = []\<rparr>"

lemma log_reply_plain:
  "r_otxq req = [] \<Longrightarrow> pfs_log_reply lc req rv th = ret (th\<lparr>th_replies := th_replies th @ [reply_of rv req]\<rparr>)"
  by (simp add: pfs_log_reply_def reply_of_def Let_def)

lemma reply_all_plain:
  "list_all (\<lambda>r. r_otxq r = []) reqs \<Longrightarrow>
   reply_all lc reqs rv th = ret (th\<lparr>th_replies := th_replies th @ map (reply_of rv) reqs\<rparr>)"
  by (induction reqs arbitrary: th) (simp_all add: log_reply_plain)

lemma reply_queue_plain:
  "list_all (\<lambda>r. r_otxq r = []) (th_work th i) \<Longrightarrow>
   pfs_log_reply_queue lc i rv th =
     ret ((set_work i [] th)\<lparr>th_replies := th_replies th @ map (reply_of rv) (th_work th i)\<rparr>)"
  by (simp add: pfs_log_reply_queue_def reply_all_plain)

lemma acked_other:
  "list_all (\<lambda>r. r_type r \<noteq> LOG_WRITE) reqs \<or> rv \<noteq> 0 \<Longrightarrow> acked (map (reply_of rv) reqs) m = m"
  by (rule acked_none) (auto simp: reply_of_def list_all_iff)

section \<open>Swap and trim\<close>

lemma safe_bind_crash:
  assumes "safe P m R C'" "\<And>d. C' d \<Longrightarrow> C d" "\<And>x. safe (R x) (f x) Q C"
  shows "safe P (bindW m f) Q C"
proof (rule safe_bind)
  show "safe P m R C" by (rule safe_weaken [OF assms(1)]) (use assms(2) in auto)
qed (rule assms(3))

lemma th_ok_bounds:
  assumes "th_ok lc d T1 T2 th"
  obtains s where "ring_ok (lc_env lc) (log_leader (th_log th)) (d_journal d) s (T1 @ T2)"
    "groups_ok (log_leader (th_log th)) (d_sect d) (length (d_journal d)) s T1 T2
       (log_workgrp (th_log th)) (log_waitgrp (th_log th))"
    "unat (head_offset (log_leader (th_log th))) = LE_SIZE * ((s + length (concat (T1 @ T2))) mod length (d_journal d))"
    "length T1 < 2 ^ 31"
proof -
  obtain s where s: "ring_ok (lc_env lc) (log_leader (th_log th)) (d_journal d) s (T1 @ T2)"
    "groups_ok (log_leader (th_log th)) (d_sect d) (length (d_journal d)) s T1 T2
       (log_workgrp (th_log th)) (log_waitgrp (th_log th))"
    using assms by (auto simp: th_ok_def log_inv_def)
  have "length (T1 @ T2) \<le> length (concat (T1 @ T2))"
    by (rule length_le_concat) (use s(1) in \<open>simp add: ring_ok_def\<close>)
  then have "length T1 < 2 ^ 31" using s(1) by (simp add: ring_ok_def)
  with s show thesis using that [of s] by (simp add: ring_ok_def)
qed

text \<open>How many trims it takes at most to empty the journal.\<close>

definition groups :: "jop list list \<Rightarrow> jop list list \<Rightarrow> nat" where
  "groups T1 T2 = (if T1 = [] then 0 else 1) + (if T2 = [] then 0 else 1)"

lemma regrouped_groups: "regrouped T1 T2 T1' T2' \<Longrightarrow> groups T1' T2' = groups T1 T2"
  by (auto simp: regrouped_def groups_def)

lemma log_tryswap_safe:
  assumes ok: "th_ok lc d T1 T2 th"
  shows "safe ((=) d) (log_tryswap (lc_opts lc) (th_mem th) (th_log th) force ht)
    (\<lambda>(rv, log') d'. d' = d \<and> log_frame log' = log_frame (th_log th) \<and>
       log_leader log' = log_leader (th_log th) \<and> log_leader_latest log' = log_leader_latest (th_log th) \<and>
       (\<exists>T1' T2'. regrouped T1 T2 T1' T2' \<and> th_ok lc d T1' T2' (th\<lparr>th_log := log'\<rparr>) \<and>
          (force \<and> ht = LOG_WRITE \<longrightarrow> T1' = [] \<longrightarrow> T2' = [])))
    C" (is "safe _ _ ?Q C")
proof -
  let ?log = "th_log th"
  obtain s where s: "ring_ok (lc_env lc) (log_leader ?log) (d_journal d) s (T1 @ T2)"
    "groups_ok (log_leader ?log) (d_sect d) (length (d_journal d)) s T1 T2 (log_workgrp ?log) (log_waitgrp ?log)"
    "unat (head_offset (log_leader ?log)) = LE_SIZE * ((s + length (concat (T1 @ T2))) mod length (d_journal d))"
    "length T1 < 2 ^ 31"
    by (rule th_ok_bounds [OF ok])
  have w: "pfs_writable (log_mount ?log)" and m: "th_mem th = apply_ops (concat (T1 @ T2)) (d_sect d)"
    using ok by (auto simp: th_ok_def log_inv_def committed_def)
  have inv: "log_inv (lc_env lc) (?log\<lparr>log_workgrp := wk, log_waitgrp := wt\<rparr>) d T1' T2'"
    if "regrouped T1 T2 T1' T2'" "groups_ok (log_leader ?log) (d_sect d) (length (d_journal d)) s T1' T2' wk wt"
    for T1' T2' wk wt
  proof -
    have "ring_ok (lc_env lc) (log_leader ?log) (d_journal d) s (T1' @ T2')" using s(1) by (simp only: regrouped_append [OF that(1)])
    moreover have "leader_ok (lc_env lc) (log_mount ?log) (log_leader ?log)"
      "d_leader d = sign_leader (lc_env lc) (log_leader ?log)" "log_workbufsz ?log = PFS_FRAG_SIZE"
      using ok by (simp_all add: th_ok_def log_inv_def)
    ultimately show ?thesis
      using that(2) w unfolding log_inv_def by auto
  qed
  have th: "\<exists>T1' T2'. regrouped T1 T2 T1' T2' \<and>
      th_ok lc d T1' T2' (th\<lparr>th_log := ?log\<lparr>log_workgrp := wk, log_waitgrp := wt\<rparr>\<rparr>) \<and>
          (force \<and> ht = LOG_WRITE \<longrightarrow> T1' = [] \<longrightarrow> T2' = [])"
    if a: "\<exists>T1' T2'. regrouped T1 T2 T1' T2' \<and>
       groups_ok (log_leader ?log) (d_sect d) (length (d_journal d)) s T1' T2' wk wt \<and>
       (pfs_writable (log_mount ?log) \<and> force \<and> ht = LOG_WRITE \<longrightarrow> T1' = [] \<longrightarrow> T2' = [])" for wk wt
  proof -
    obtain T1' T2' where T: "regrouped T1 T2 T1' T2'"
       "groups_ok (log_leader ?log) (d_sect d) (length (d_journal d)) s T1' T2' wk wt"
       "pfs_writable (log_mount ?log) \<and> force \<and> ht = LOG_WRITE \<longrightarrow> T1' = [] \<longrightarrow> T2' = []"
      using a by blast
    have "th_ok lc d T1' T2' (th\<lparr>th_log := ?log\<lparr>log_workgrp := wk, log_waitgrp := wt\<rparr>\<rparr>)"
      using inv [OF T(1,2)] regrouped_append [OF T(1)] ok by (simp add: th_ok_def)
    with T w show ?thesis by metis
  qed
  show ?thesis
    unfolding log_tryswap_def
  proof (rule safe_bind [OF tryswap_safe [OF s(2,3,4) m]])
    fix x :: "int \<times> trimgroup \<times> trimgroup"
    obtain rv wk wt where x: "x = (rv, wk, wt)" by (cases x)
    show "safe (case x of (rv, wk, wt) \<Rightarrow> \<lambda>d'. d = d' \<and> (\<exists>T1' T2'. regrouped T1 T2 T1' T2' \<and>
       groups_ok (log_leader ?log) (d_sect d) (length (d_journal d)) s T1' T2' wk wt \<and>
       (pfs_writable (log_mount ?log) \<and> force \<and> ht = LOG_WRITE \<longrightarrow> T1' = [] \<longrightarrow> T2' = [])))
      (case x of (rv, wk, wt) \<Rightarrow> ret (rv, ?log\<lparr>log_workgrp := wk, log_waitgrp := wt\<rparr>)) ?Q C"
      unfolding x prod.case
      by (rule safe_ret) (use th [of wk wt] in \<open>simp add: log_frame_def\<close>)
  qed
qed

lemma th_trim_safe:
  assumes ok: "th_ok lc d T1 T2 th" and latest: "log_leader_latest (th_log th) = log_leader (th_log th)"
  shows "safe ((=) d) (pfs_log_trim (lc_env lc) (th_log th))
    (\<lambda>(rv, log') d'. log_frame log' = log_frame (th_log th) \<and> length (d_journal d') = length (d_journal d) \<and>
       (\<exists>T1' T2'. th_ok lc d' T1' T2' (th\<lparr>th_log := log'\<rparr>) \<and> groups T1' T2' \<le> groups T1 T2 \<and>
          (rv \<ge> 0 \<and> T1 \<noteq> [] \<longrightarrow> groups T1' T2' < groups T1 T2)))
    (finds lc (th_sectsize th) (th_mem th))"
proof (rule safe_weaken [OF trim_safe [OF conjunct1 [OF ok [unfolded th_ok_def]] latest]], goal_cases)
  case (2 x d')
  obtain rv log' where x: "x = (rv, log')" by (cases x)
  let ?T1 = "if T1 = [] \<or> rv < 0 then T1 else []"
  have "th_ok lc d' ?T1 T2 (th\<lparr>th_log := log'\<rparr>)"
    using 2 ok by (auto simp: x th_ok_def log_frame_def)
  moreover have "groups ?T1 T2 \<le> groups T1 T2" "rv \<ge> 0 \<and> T1 \<noteq> [] \<longrightarrow> groups ?T1 T2 < groups T1 T2"
    by (auto simp: groups_def)
  ultimately have "\<exists>T1' T2'. th_ok lc d' T1' T2' (th\<lparr>th_log := log'\<rparr>) \<and> groups T1' T2' \<le> groups T1 T2 \<and>
      (rv \<ge> 0 \<and> T1 \<noteq> [] \<longrightarrow> groups T1' T2' < groups T1 T2)" by blast
  then show ?case using 2 by (simp add: x)
next
  case (3 d')
  then show ?case using ok by (auto simp: finds_def th_ok_def)
qed

text \<open>The trim that is due: nothing is forced any more after it, and asked to make room it drops a group.\<close>

lemma need_trim_some:
  assumes "th_ok lc d T1 T2 th"
  shows "pfs_log_need_trim lo (th_log th) \<noteq> None"
proof -
  obtain s where s: "ring_ok (lc_env lc) (log_leader (th_log th)) (d_journal d) s (T1 @ T2)"
    "groups_ok (log_leader (th_log th)) (d_sect d) (length (d_journal d)) s T1 T2
       (log_workgrp (th_log th)) (log_waitgrp (th_log th))"
    by (rule th_ok_bounds [OF assms])
  have "T1 = [] \<and> T2 = []" if "tail_txid (log_leader (th_log th)) = head_txid (log_leader (th_log th))"
  proof -
    have "uint (head_txid (log_leader (th_log th))) = uint (tail_txid (log_leader (th_log th))) + int (length (T1 @ T2))"
      using s(1) by (simp add: ring_ok_def)
    then have "int (length (T1 @ T2)) = 0" unfolding that by linarith
    then show ?thesis by (simp del: length_append)
  qed
  then show ?thesis
    using groups_facts(1,2,7) [OF s(2)] by (auto simp: pfs_log_need_trim_def)
qed

abbreviation th_flags :: "'cb lthread \<Rightarrow> u32" where
  "th_flags th \<equiv> log_flags (th_log th)"

lemma trim_due_safe:
  assumes ok: "th_ok lc d T1 T2 th" and latest: "log_leader_latest (th_log th) = log_leader (th_log th)"
    and fl: "th_flags th \<in> {0, LOGF_SPACE_NEEDED, LOGF_TRIM_FORCED}"
  shows "safe ((=) d) (log_trim_due lc th)
    (\<lambda>(rv, th') d'. log_frame (th_log th') = log_frame ((th_log th)\<lparr>log_flags := 0\<rparr>) \<and>
       length (d_journal d') = length (d_journal d) \<and> th' = th\<lparr>th_log := th_log th'\<rparr> \<and>
       (\<exists>T1' T2'. th_ok lc d' T1' T2' th' \<and> groups T1' T2' \<le> groups T1 T2 \<and>
          (rv \<ge> 0 \<and> th_flags th = LOGF_SPACE_NEEDED \<and> T1 @ T2 \<noteq> [] \<longrightarrow> groups T1' T2' < groups T1 T2)))
    (finds lc (th_sectsize th) (th_mem th))"
    (is "safe _ _ ?Q ?C")
proof -
  have trim: "safe ((=) d) (bindW (pfs_log_trim (lc_env lc) (th_log th1)) (\<lambda>(rv, log). ret (rv, th1\<lparr>th_log := log\<rparr>))) ?Q ?C"
    if th1: "th_ok lc d T1' T2' th1" "log_leader_latest (th_log th1) = log_leader (th_log th1)"
      "log_frame (th_log th1) = log_frame ((th_log th)\<lparr>log_flags := 0\<rparr>)" "th1 = th\<lparr>th_log := th_log th1\<rparr>"
      "T1' @ T2' = T1 @ T2" "groups T1' T2' \<le> groups T1 T2"
      "th_flags th = LOGF_SPACE_NEEDED \<longrightarrow> T1' = [] \<longrightarrow> T2' = []" for th1 T1' T2'
  proof (rule safe_bind)
    have eq: "th1\<lparr>th_log := l\<rparr> = th\<lparr>th_log := l\<rparr>" for l by (subst th1(4)) simp
    have "th_mem th1 = th_mem th" "th_sectsize th1 = th_sectsize th"
      by (subst th1(4), simp) (use th1(3) in \<open>simp add: log_frame_def\<close>)
    then show "safe ((=) d) (pfs_log_trim (lc_env lc) (th_log th1))
      (\<lambda>(rv, log') d'. log_frame log' = log_frame (th_log th1) \<and> length (d_journal d') = length (d_journal d) \<and>
       (\<exists>T1'' T2''. th_ok lc d' T1'' T2'' (th1\<lparr>th_log := log'\<rparr>) \<and> groups T1'' T2'' \<le> groups T1' T2' \<and>
          (rv \<ge> 0 \<and> T1' \<noteq> [] \<longrightarrow> groups T1'' T2'' < groups T1' T2'))) ?C"
      using th_trim_safe [OF th1(1,2)] by simp
    fix x :: "int \<times> plog"
    obtain rv log' where x: "x = (rv, log')" by (cases x)
    have "T1' \<noteq> []" if "th_flags th = LOGF_SPACE_NEEDED \<and> T1 @ T2 \<noteq> []"
      using th1(5,7) that by auto
    then show "safe (case x of (rv, log') \<Rightarrow> \<lambda>d'. log_frame log' = log_frame (th_log th1) \<and>
        length (d_journal d') = length (d_journal d) \<and>
       (\<exists>T1'' T2''. th_ok lc d' T1'' T2'' (th1\<lparr>th_log := log'\<rparr>) \<and> groups T1'' T2'' \<le> groups T1' T2' \<and>
          (rv \<ge> 0 \<and> T1' \<noteq> [] \<longrightarrow> groups T1'' T2'' < groups T1' T2')))
      (case x of (rv, log) \<Rightarrow> ret (rv, th1\<lparr>th_log := log\<rparr>)) ?Q ?C"
      unfolding x prod.case eq using th1(3,6)
      by - (rule safe_ret, simp, meson le_trans less_le_trans)
  qed
  have sw: "safe ((=) d) (bindW (log_tryswap (lc_opts lc) (th_mem th) (th_log th) True ht) (\<lambda>(_, log1).
      bindW (pfs_log_trim (lc_env lc) (th_log (clear_flag fl (th\<lparr>th_log := log1\<rparr>)))) (\<lambda>(rv, log).
        ret (rv, (clear_flag fl (th\<lparr>th_log := log1\<rparr>))\<lparr>th_log := log\<rparr>)))) ?Q ?C"
    if "th_flags th = fl" "fl = LOGF_SPACE_NEEDED \<longrightarrow> ht = LOG_WRITE" for fl ht
  proof (rule safe_bind [OF log_tryswap_safe [OF ok, of True ht]], goal_cases)
    case (1 x)
    obtain rv log1 where x: "x = (rv, log1)" by (cases x)
    show ?case
      unfolding x prod.case
    proof (rule safe_pre, elim conjE exE, goal_cases)
      case (1 d1 T1' T2')
      show ?case
        unfolding 1(1)
        by (rule trim [of T1' T2']) (use 1 that latest regrouped_groups [of T1 T2 T1' T2'] regrouped_append [of T1 T2 T1' T2'] in \<open>auto simp: th_ok_def log_inv_def clear_flag_def log_frame_def\<close>)
    qed
  qed
  have sp: "has_flag LOGF_TRIM_FORCED th \<longleftrightarrow> th_flags th = LOGF_TRIM_FORCED"
    "\<not> has_flag LOGF_TRIM_FORCED th \<Longrightarrow> has_flag LOGF_SPACE_NEEDED th \<longleftrightarrow> th_flags th = LOGF_SPACE_NEEDED"
    using fl by (auto simp: has_flag_def)
  show ?thesis
  proof (cases "th_flags th = 0")
    case False
    then show ?thesis
      unfolding log_trim_due_def Let_def using sw [of LOGF_TRIM_FORCED LOG_TRIM] sw [of LOGF_SPACE_NEEDED LOG_WRITE] sp fl
      by auto
  next
    case True
    obtain need where need: "pfs_log_need_trim (lc_opts lc) (th_log th) = Some need"
      using need_trim_some [OF ok] by blast
    have fr: "log_frame (th_log th) = log_frame ((th_log th)\<lparr>log_flags := 0\<rparr>)"
      by (simp add: log_frame_def True)
    have "safe ((=) d) (ret (0, th)) ?Q ?C"
      by (rule safe_ret) (use ok True fr in auto)
    moreover have "safe ((=) d) (bindW (pfs_log_trim (lc_env lc) (th_log th)) (\<lambda>(rv, log). ret (rv, th\<lparr>th_log := log\<rparr>))) ?Q ?C"
      by (rule trim [OF ok latest fr]) (use True in simp_all)
    ultimately show ?thesis
      unfolding log_trim_due_def Let_def using True need by (simp add: has_flag_def)
  qed
qed

section \<open>The dispatcher's state\<close>

text \<open>\<open>i\<close> is the index the dispatcher has reached. The request the thread sends to itself is
  queued at most once, and a forced trim is always on its way to the handler.\<close>

definition trim_ready :: "nat \<Rightarrow> 'cb lthread \<Rightarrow> bool" where
  "trim_ready i th \<longleftrightarrow>
     (if i \<le> LOG_TRIM
      then length (th_work th LOG_TRIM) \<le> 1 \<and> th_flags th \<in> {0, LOGF_SPACE_NEEDED, LOGF_TRIM_FORCED} \<and>
           (th_work th LOG_TRIM = [] \<longrightarrow> th_flags th = 0)
      else th_work th LOG_TRIM = [] \<and> th_flags th = 0)"

definition live :: "log_conf \<Rightarrow> pbd \<Rightarrow> jop list list \<Rightarrow> jop list list \<Rightarrow> nat \<Rightarrow> 'cb lthread \<Rightarrow> bool" where
  "live lc d T1 T2 i th \<longleftrightarrow> th_ok lc d T1 T2 th \<and> queues_ok th \<and> trim_ready i th \<and> th_work th 0 = [] \<and>
     length (th_work th LOG_WRITE) \<le> 1 \<and>
     (\<forall>k. list_all (req_ok lc (length (d_journal d)) (th_mem th) (log_leader (th_log th))) (th_work th k)) \<and>
     log_state (th_log th) \<in> {LOGST_SERVING, LOGST_SUSPENDED, LOGST_STOP} \<and>
     (i \<le> LOG_SUSPEND \<longrightarrow> log_state (th_log th) = LOGST_SERVING)"

text \<open>The stores a crash may leave behind.\<close>

definition outcomes :: "'cb lthread \<Rightarrow> store set" where
  "outcomes th = insert (th_mem th)
     {m. \<exists>req\<in>set (th_work th LOG_WRITE). \<exists>tx. r_itx req = Some tx \<and> m = apply_ops (tx_jops tx) (th_mem th)}"

definition crash_ok :: "log_conf \<Rightarrow> u32 \<Rightarrow> 'cb lthread \<Rightarrow> pbd \<Rightarrow> bool" where
  "crash_ok lc sz th d \<longleftrightarrow> (\<exists>m\<in>outcomes th. finds lc sz m d)"

text \<open>A reply to a write belongs to one of the write requests, and carries its transaction.\<close>

definition answers :: "'cb log_req set \<Rightarrow> 'cb log_reply \<Rightarrow> bool" where
  "answers reqs rp \<longleftrightarrow> rp_otxq rp = [] \<and>
     (rp_type rp = LOG_WRITE \<longrightarrow> rp_error rp \<le> 0 \<and>
        (\<exists>req\<in>reqs. rp_id rp = r_id req \<and> map_option tx_jops (rp_itx rp) = map_option tx_jops (r_itx req)))"

text \<open>The replies \<open>rs\<close> to writes among the queued writes \<open>q\<close>, of which \<open>q'\<close> are left: every write
  is answered once or still queued.\<close>

definition answered_writes :: "'cb log_req list \<Rightarrow> 'cb log_reply list \<Rightarrow> 'cb log_req list \<Rightarrow> bool" where
  "answered_writes q rs q' \<longleftrightarrow> list_all (answers (set q)) rs \<and> set q' \<subseteq> set q \<and>
     length (filter (\<lambda>rp. rp_type rp = LOG_WRITE) rs) + length q' = length q"

lemma answered_writes_trans:
  "answered_writes q rs q1 \<Longrightarrow> answered_writes q1 rs1 q2 \<Longrightarrow> answered_writes q (rs @ rs1) q2"
  unfolding answered_writes_def answers_def list_all_iff by auto (metis subsetD)

lemma answered_other:
  "list_all (\<lambda>r. r_type r \<noteq> LOG_WRITE) reqs \<Longrightarrow> answered_writes q (map (reply_of rv) reqs) q"
  by (induction reqs) (auto simp: answered_writes_def answers_def reply_of_def)

lemma answered_none [simp]: "answered_writes q [] q"
  by (simp add: answered_writes_def)

text \<open>What a handler may do: the memory follows the replies.\<close>

definition advances :: "pbd \<Rightarrow> 'cb lthread \<Rightarrow> pbd \<Rightarrow> 'cb lthread \<Rightarrow> bool" where
  "advances d th d' th' \<longleftrightarrow>
     (\<exists>rs. th_replies th' = th_replies th @ rs \<and> th_mem th' = acked rs (th_mem th) \<and>
        answered_writes (th_work th LOG_WRITE) rs (th_work th' LOG_WRITE)) \<and>
     outcomes th' \<subseteq> outcomes th \<and> length (d_journal d') = length (d_journal d) \<and>
     th_sectsize th' = th_sectsize th \<and> th_reqmask th' = th_reqmask th \<and> th_work th' 0 = th_work th 0"

text \<open>How often the dispatcher may still step back.\<close>

definition backs :: "jop list list \<Rightarrow> jop list list \<Rightarrow> 'cb lthread \<Rightarrow> nat" where
  "backs T1 T2 th = length (th_work th LOG_FLUSH) +
     (if th_work th LOG_WRITE = [] then 0
      else groups T1 T2 - (if th_flags th = LOGF_SPACE_NEEDED then 1 else 0))"

definition handled ::
    "log_conf \<Rightarrow> pbd \<Rightarrow> jop list list \<Rightarrow> jop list list \<Rightarrow> nat \<Rightarrow> 'cb lthread \<Rightarrow> log_io \<times> 'cb lthread \<Rightarrow> pbd \<Rightarrow> bool" where
  "handled lc d T1 T2 i th = (\<lambda>(rv, th') d'. advances d th d' th' \<and>
     (\<exists>T1' T2'.
        (case rv of
           LOG_IO_STOP \<Rightarrow> live lc d' T1' T2' LOG_NREQ th'
         | LOG_IO_CONT \<Rightarrow> live lc d' T1' T2' (Suc i) th' \<and> backs T1' T2' th' \<le> backs T1 T2 th
         | LOG_IO_BACK \<Rightarrow> live lc d' T1' T2' LOG_TRIM th' \<and> backs T1' T2' th' < backs T1 T2 th)))"

definition handler_ok :: "log_conf \<Rightarrow> nat \<Rightarrow> 'cb lthread \<Rightarrow> (log_io \<times> 'cb lthread) io \<Rightarrow> bool" where
  "handler_ok lc i th m \<longleftrightarrow> (\<forall>d T1 T2. live lc d T1 T2 i th \<longrightarrow>
     safe ((=) d) m (handled lc d T1 T2 i th) (crash_ok lc (th_sectsize th) th))"

lemma handled_stop:
  "advances d th d' th' \<Longrightarrow> live lc d' T1' T2' LOG_NREQ th' \<Longrightarrow> handled lc d T1 T2 i th (LOG_IO_STOP, th') d'"
  by (simp add: handled_def) blast

lemma handled_cont:
  "advances d th d' th' \<Longrightarrow> live lc d' T1' T2' (Suc i) th' \<Longrightarrow> backs T1' T2' th' \<le> backs T1 T2 th \<Longrightarrow>
   handled lc d T1 T2 i th (LOG_IO_CONT, th') d'"
  by (simp add: handled_def) blast

lemma handled_back:
  "advances d th d' th' \<Longrightarrow> live lc d' T1' T2' LOG_TRIM th' \<Longrightarrow> backs T1' T2' th' < backs T1 T2 th \<Longrightarrow>
   handled lc d T1 T2 i th (LOG_IO_BACK, th') d'"
  by (simp add: handled_def) blast

lemma queues_plain: "queues_ok th \<Longrightarrow> list_all (\<lambda>r. r_otxq r = []) (th_work th i)"
  by (auto simp: queues_ok_def list_all_iff)

lemma queues_type: "queues_ok th \<Longrightarrow> i \<noteq> 0 \<Longrightarrow> list_all (\<lambda>r. r_type r = i) (th_work th i)"
  by (auto simp: queues_ok_def list_all_iff)

lemma crash_mem: "finds lc sz (th_mem th) d \<Longrightarrow> crash_ok lc sz th d"
  by (auto simp: crash_ok_def outcomes_def)

lemma req_ok_cong:
  assumes "head_txid lr' = head_txid lr" "head_lsn lr' = head_lsn lr" "lr_num_hosts lr' = lr_num_hosts lr"
  shows "req_ok lc N m lr' = req_ok lc N m lr"
  using assms by (auto simp: fun_eq_iff req_ok_def write_ok_def split: option.splits)

lemma frame_simps:
  "log_frame log' = log_frame log \<Longrightarrow> log_state log' = log_state log \<and> log_flags log' = log_flags log \<and>
     log_mount log' = log_mount log \<and> log_paxos_got log' = log_paxos_got log \<and>
     head_txid (log_leader log') = head_txid (log_leader log) \<and> head_lsn (log_leader log') = head_lsn (log_leader log) \<and>
     lr_num_hosts (log_leader log') = lr_num_hosts (log_leader log)"
  by (simp add: log_frame_def)

text \<open>Requests leave the queues; only the thread's own request may come.\<close>

definition fewer :: "'cb lthread \<Rightarrow> 'cb lthread \<Rightarrow> bool" where
  "fewer th' th \<longleftrightarrow> (\<forall>k. \<forall>r\<in>set (th_work th' k). r \<in> set (th_work th k) \<or> k = LOG_TRIM \<and> r = log_trimreq)"

lemma fewer_queues:
  assumes q: "queues_ok th" and w: "fewer th' th"
  shows "queues_ok th'" "k \<noteq> LOG_TRIM \<Longrightarrow> th_work th k = [] \<Longrightarrow> th_work th' k = []"
proof -
  have tr: "r_otxq log_trimreq = []" "r_type log_trimreq = LOG_TRIM"
    by (simp_all add: log_trimreq_def)
  have "r_otxq r = [] \<and> (k \<noteq> 0 \<longrightarrow> r_type r = k)" if "r \<in> set (th_work th' k)" for k r
    using q tr w that unfolding queues_ok_def list_all_iff fewer_def by blast
  moreover have e: "set (th_work th' k) = {}" if "k \<noteq> LOG_TRIM" "th_work th k = []" for k
  proof -
    have "r \<in> set (th_work th k)" if "r \<in> set (th_work th' k)" for r
      using w that \<open>k \<noteq> LOG_TRIM\<close> unfolding fewer_def by blast
    then have "set (th_work th' k) \<subseteq> set (th_work th k)" by blast
    then show ?thesis using that(2) by simp
  qed
  ultimately show "queues_ok th'"
    using q unfolding queues_ok_def list_all_iff by simp
  show "k \<noteq> LOG_TRIM \<Longrightarrow> th_work th k = [] \<Longrightarrow> th_work th' k = []" using e by simp
qed

lemma live_step:
  assumes lv: "live lc d T1 T2 i th" and ok: "th_ok lc d' T1' T2' th'"
    and len: "length (d_journal d') = length (d_journal d)"
    and lr: "lr_num_hosts (log_leader (th_log th')) = lr_num_hosts (log_leader (th_log th))"
    and wr: "th_work th' LOG_WRITE = [] \<or> th_mem th' = th_mem th \<and> length (th_work th' LOG_WRITE) \<le> 1 \<and>
      head_txid (log_leader (th_log th')) = head_txid (log_leader (th_log th)) \<and>
      head_lsn (log_leader (th_log th')) = head_lsn (log_leader (th_log th))"
    and w: "fewer th' th"
    and st: "trim_ready i' th'" "log_state (th_log th') \<in> {LOGST_SERVING, LOGST_SUSPENDED, LOGST_STOP}"
      "i' \<le> LOG_SUSPEND \<longrightarrow> log_state (th_log th') = LOGST_SERVING"
  shows "live lc d' T1' T2' i' th'"
proof -
  let ?R = "req_ok lc (length (d_journal d)) (th_mem th) (log_leader (th_log th))"
  let ?R' = "req_ok lc (length (d_journal d')) (th_mem th') (log_leader (th_log th'))"
  have q: "queues_ok th" "th_work th 0 = []" using lv by (simp_all add: live_def)
  note fq = fewer_queues [OF q(1) w]
  have r: "?R' r" if r: "r \<in> set (th_work th' k)" for r k
  proof -
    have k: "k \<noteq> 0" using fq(2) [of 0] q(2) r by (metis empty_iff list.set(1) zero_neq_numeral)
    then have t: "r_type r = k" using queues_type [OF fq(1) k] r by (simp add: list_all_iff)
    have R: "?R r \<or> r = log_trimreq" using w r lv unfolding fewer_def live_def list_all_iff by blast
    show ?thesis
    proof (cases "k = LOG_WRITE")
      case True
      then show ?thesis
        using wr r R t len lr by (auto simp: req_ok_def write_ok_def log_trimreq_def split: option.splits)
    qed (use R t lr in \<open>auto simp: req_ok_def log_trimreq_def\<close>)
  qed
  have "length (th_work th' LOG_WRITE) \<le> 1" using wr by auto
  then show ?thesis
    unfolding live_def list_all_iff using ok st fq(1) fq(2) [of 0] q(2) r by simp
qed

lemma live_req:
  "live lc d T1 T2 i th \<Longrightarrow> req \<in> set (th_work th k) \<Longrightarrow>
   req_ok lc (length (d_journal d)) (th_mem th) (log_leader (th_log th)) req"
  by (simp add: live_def list_all_iff)

section \<open>Handlers\<close>

lemma th_ok_acquire: "th_ok lc d T1 T2 th \<Longrightarrow> th_ok lc d T1 T2 (upd_log pfs_log_paxos_try_acquire th)"
  by (simp add: th_ok_def pfs_log_paxos_try_acquire_def log_inv_def)

lemma th_ok_frame:
  "th_ok lc d T1 T2 (set_work i q th) = th_ok lc d T1 T2 th"
  "th_ok lc d T1 T2 (th\<lparr>th_replies := rs\<rparr>) = th_ok lc d T1 T2 th"
  "th_ok lc d T1 T2 (upd_log (\<lambda>log. log\<lparr>log_trimts := t\<rparr>) th) = th_ok lc d T1 T2 th"
  "th_ok lc d T1 T2 (upd_log (\<lambda>log. log\<lparr>log_flags := fl\<rparr>) th) = th_ok lc d T1 T2 th"
  "th_ok lc d T1 T2 (upd_log (\<lambda>log. log\<lparr>log_state := st\<rparr>) th) = th_ok lc d T1 T2 th"
  by (simp_all add: th_ok_def log_inv_def)

lemma clock_safe: "safe P clock_sec (\<lambda>_. P) C"
  unfolding safe_def clock_sec_def by (auto split: list.splits)

lemma tail_le_head:
  assumes "th_ok lc d T1 T2 th"
  shows "tail_txid (log_leader (th_log th)) \<le> head_txid (log_leader (th_log th))"
proof (rule th_ok_bounds [OF assms])
  fix s assume "ring_ok (lc_env lc) (log_leader (th_log th)) (d_journal d) s (T1 @ T2)"
  then show ?thesis by (simp add: ring_ok_def word_le_def)
qed

lemma handle_trim_ok:
  assumes q: "th_work th LOG_TRIM \<noteq> []"
  shows "handler_ok lc LOG_TRIM th (pfs_log_handle_trim lc th)"
  unfolding handler_ok_def
proof (intro allI impI)
  fix d T1 T2
  assume lv: "live lc d T1 T2 LOG_TRIM th"
  have st: "log_state (th_log th) = LOGST_SERVING" "th_ok lc d T1 T2 th" "queues_ok th"
    "length (th_work th LOG_TRIM) \<le> 1" "th_flags th \<in> {0, LOGF_SPACE_NEEDED, LOGF_TRIM_FORCED}"
    using lv by (auto simp: live_def trim_ready_def)
  obtain req where req: "th_work th LOG_TRIM = [req]"
    using q st(4) by (cases "th_work th LOG_TRIM") auto
  have nf: "\<not> has_flag LOGF_REPLAY_WAIT th" using st(5) by (auto simp: has_flag_def)
  have "safe ((=) d) (bindW (log_trim_due lc th2) (\<lambda>(rv, th3). ret (if rv < 0 then LOG_IO_STOP else LOG_IO_CONT, th3)))
      (handled lc d T1 T2 LOG_TRIM th) (crash_ok lc (th_sectsize th) th)"
    if th2: "th2 = upd_log pfs_log_paxos_try_acquire (set_work LOG_TRIM [] (upd_log (\<lambda>log. log\<lparr>log_trimts := now\<rparr>) th))" for th2 now
  proof (rule safe_bind)
    have ok2: "th_ok lc d T1 T2 th2"
      unfolding th2 using st(2) by (simp add: th_ok_def log_inv_def pfs_log_paxos_try_acquire_def)
    have l2: "log_leader_latest (th_log th2) = log_leader (th_log th2)" "th_flags th2 = th_flags th" "th_mem th2 = th_mem th"
      "th_sectsize th2 = th_sectsize th"
      by (simp_all add: th2 pfs_log_paxos_try_acquire_def)
    show "safe ((=) d) (log_trim_due lc th2)
     (\<lambda>(rv, th') d'. log_frame (th_log th') = log_frame ((th_log th2)\<lparr>log_flags := 0\<rparr>) \<and>
       length (d_journal d') = length (d_journal d) \<and> th' = th2\<lparr>th_log := th_log th'\<rparr> \<and>
       (\<exists>T1' T2'. th_ok lc d' T1' T2' th' \<and> groups T1' T2' \<le> groups T1 T2 \<and>
          (rv \<ge> 0 \<and> th_flags th2 = LOGF_SPACE_NEEDED \<and> T1 @ T2 \<noteq> [] \<longrightarrow> groups T1' T2' < groups T1 T2)))
      (crash_ok lc (th_sectsize th) th)"
      by (rule safe_weaken [OF trim_due_safe [OF ok2 l2(1)]]) (use st(5) l2 crash_mem in auto)
    fix x :: "int \<times> 'a lthread"
    obtain rv th3 where x: "x = (rv, th3)" by (cases x)
    have "handled lc d T1 T2 LOG_TRIM th (if rv < 0 then LOG_IO_STOP else LOG_IO_CONT, th3) d'"
      if a: "log_frame (th_log th3) = log_frame ((th_log th2)\<lparr>log_flags := 0\<rparr>)"
         "length (d_journal d') = length (d_journal d)" "th3 = th2\<lparr>th_log := th_log th3\<rparr>"
         "th_ok lc d' T1' T2' th3" "groups T1' T2' \<le> groups T1 T2"
         "rv \<ge> 0 \<and> th_flags th2 = LOGF_SPACE_NEEDED \<and> T1 @ T2 \<noteq> [] \<longrightarrow> groups T1' T2' < groups T1 T2" for d' T1' T2'
    proof -
      have w: "th_work th3 = (th_work th)(LOG_TRIM := [])" "th_replies th3 = th_replies th" "th_mem th3 = th_mem th"
        "th_reqmask th3 = th_reqmask th"
        by (subst a(3), simp add: th2)+
      note fr = frame_simps [OF a(1)]
      have lr: "log_leader (th_log th2) = log_leader (th_log th)" "log_mount (th_log th2) = log_mount (th_log th)"
        "log_state (th_log th2) = log_state (th_log th)"
        by (simp_all add: th2 pfs_log_paxos_try_acquire_def)
      have adv: "advances d th d' th3"
        using w fr lr a(2) by (auto simp: advances_def outcomes_def intro!: exI [of _ "[]"] simp: acked_def)
      have lv3: "live lc d' T1' T2' i th3" if "i > LOG_TRIM" for i
        by (rule live_step [OF lv a(4,2)])
          (use lv that w fr lr st(1) in \<open>auto simp: fewer_def live_def trim_ready_def\<close>)
      have "backs T1' T2' th3 \<le> backs T1 T2 th" if "rv \<ge> 0"
        using a(5,6) l2 w fr that by (cases "T1 @ T2 = []") (auto simp: backs_def groups_def)
      then show ?thesis
        using handled_stop [OF adv lv3 [of LOG_NREQ]] handled_cont [OF adv lv3 [of "Suc LOG_TRIM"]] by simp
    qed
    then show "safe (case x of (rv, th') \<Rightarrow> \<lambda>d'. log_frame (th_log th') = log_frame ((th_log th2)\<lparr>log_flags := 0\<rparr>) \<and>
       length (d_journal d') = length (d_journal d) \<and> th' = th2\<lparr>th_log := th_log th'\<rparr> \<and>
       (\<exists>T1' T2'. th_ok lc d' T1' T2' th' \<and> groups T1' T2' \<le> groups T1 T2 \<and>
          (rv \<ge> 0 \<and> th_flags th2 = LOGF_SPACE_NEEDED \<and> T1 @ T2 \<noteq> [] \<longrightarrow> groups T1' T2' < groups T1 T2)))
       (case x of (rv, th3) \<Rightarrow> ret (if rv < 0 then LOG_IO_STOP else LOG_IO_CONT, th3))
       (handled lc d T1 T2 LOG_TRIM th) (crash_ok lc (th_sectsize th) th)"
      unfolding x prod.case by - (rule safe_ret, blast)
  qed
  then show "safe ((=) d) (pfs_log_handle_trim lc th) (handled lc d T1 T2 LOG_TRIM th) (crash_ok lc (th_sectsize th) th)"
    unfolding pfs_log_handle_trim_def using st(1) req nf tail_le_head [OF st(2)]
    by (auto simp: Let_def has_flag_def pfs_log_paxos_try_acquire_def intro!: safe_bind [OF clock_safe])
qed

text \<open>A poll of the writing host finds its own leader record and no new entries.\<close>

lemma read_latest_safe:
  assumes "log_inv env log d T1 T2"
  shows "safe ((=) d) (read_latest env log)
    (\<lambda>(rv, lr) d'. d' = d \<and> (rv < 0 \<or> lr = sign_leader env (log_leader log))) ((=) d)"
proof -
  have ok: "leader_ok env (log_mount log) (log_leader log)" "d_leader d = sign_leader env (log_leader log)"
    using assms by (auto simp: log_inv_def)
  have "case read_latest env log w of (Val x, w') \<Rightarrow> clean w' \<and> (case x of (rv, lr) \<Rightarrow> \<lambda>d'. d' = d \<and>
        (rv < 0 \<or> lr = sign_leader env (log_leader log))) (w_pbd w')
      | (Abrt, w') \<Rightarrow> False | (Crash, w') \<Rightarrow> d = w_pbd w'" if "clean w" "d = w_pbd w" for w
  proof (cases "w_lios w")
    case Nil
    then show ?thesis
      using that ok by (auto simp: read_latest_def pfs_leader_read_def read_leader_def bindW_def leader_pread_def
          next_lio_def ret_def read_code_def)
  next
    case (Cons r rs)
    then have "clean (w\<lparr>w_lios := rs\<rparr>)" using that(1) by (auto simp: clean_def)
    with Cons show ?thesis
      using that ok by (cases r) (auto simp: read_latest_def pfs_leader_read_def read_leader_def bindW_def leader_pread_def
          next_lio_def ret_def read_code_def)
  qed
  then show ?thesis by (simp add: safe_def)
qed

lemma ring_head:
  assumes r: "ring_ok env lr j s ts"
  obtains a where "unat (log_size lr) = LE_SIZE * length j" "length j < 2 ^ 23" "unat (head_offset lr) = LE_SIZE * a"
    "a < length j" "head_offset lr < log_size lr" "uint (tail_txid lr) \<le> uint (head_txid lr)"
    "uint (head_txid lr) < 2 ^ 62" "list_all (slot_ok env) j"
proof -
  have "0 < length j" using r by (auto simp: ring_ok_def)
  then have "(s + length (concat ts)) mod length j < length j" by (rule mod_less_divisor)
  then show thesis
    using r that [of "(s + length (concat ts)) mod length j"] by (simp add: ring_ok_def word_less_nat_alt)
qed

lemma poll_from_self:
  assumes "log_inv env log d T1 T2"
  shows "log_poll_from env log (sign_leader env (log_leader log)) =
    ret (0, note_head_lsn (head_lsn (log_leader log)) log, [])"
proof -
  let ?lr = "log_leader log"
  obtain s where "ring_ok env ?lr (d_journal d) s (T1 @ T2)"
    using assms by (auto simp: log_inv_def)
  then obtain a where a: "head_offset ?lr < log_size ?lr" "uint (tail_txid ?lr) \<le> uint (head_txid ?lr)"
      "uint (head_txid ?lr) < 2 ^ 62"
    by (rule ring_head)
  have "uint (head_txid ?lr) - uint (tail_txid ?lr) < 2 ^ 63"
  proof -
    have "uint (head_txid ?lr) - uint (tail_txid ?lr) \<le> uint (head_txid ?lr)" by simp
    also note a(3)
    finally show ?thesis by simp
  qed
  then have "sint (head_txid ?lr - tail_txid ?lr) = uint (head_txid ?lr) - uint (tail_txid ?lr)"
    using sint_word_small [of "uint (head_txid ?lr) - uint (tail_txid ?lr)"] a(2) by simp
  then show ?thesis
    using a by (simp add: log_poll_from_def Let_def pfs_log_scan_def note_head_lsn_def)
qed

lemma poll_safe:
  assumes inv: "log_inv env log d T1 T2"
  shows "safe ((=) d) (pfs_log_poll env lo log None :: (int \<times> plog \<times> 'cb tx list) io)
    (\<lambda>(rv, log', otxq) d'. d' = d \<and> otxq = [] \<and> rv \<le> 0 \<and>
       (log' = log \<or> log' = note_head_lsn (head_lsn (log_leader log)) log)) ((=) d)" (is "safe _ _ ?Q _")
proof -
  let ?lr = "log_leader log"
  obtain s where "ring_ok env ?lr (d_journal d) s (T1 @ T2)"
    using inv by (auto simp: log_inv_def)
  then obtain a where a: "unat (log_size ?lr) = LE_SIZE * length (d_journal d)" "length (d_journal d) < 2 ^ 23"
      "unat (head_offset ?lr) = LE_SIZE * a" "a < length (d_journal d)" "list_all (slot_ok env) (d_journal d)"
    by (rule ring_head)
  have m: "(4095 :: u64) = mask 12" by (simp add: mask_eq_exp_minus_1)
  have "unat (head_offset ?lr AND 4095) = LE_SIZE * (a mod 16)"
    unfolding m take_bit_eq_mask [symmetric] unsigned_take_bit_eq
    using mult_mod_right [of LE_SIZE a 16] a(3) by (simp add: take_bit_eq_mod)
  then have l: "4096 - unat (head_offset ?lr AND 4095) = LE_SIZE * (16 - a mod 16)" by simp
  have l0: "16 - a mod 16 > 0" by simp
  have probe: "safe ((=) d) (log_poll_probe env lo log) (\<lambda>r d'. d' = d \<and> (\<forall>rv. r = Inl rv \<longrightarrow> rv \<le> 0)) ((=) d)"
    unfolding log_poll_probe_def Let_def l
    by (auto intro!: safe_ret safe_bind [OF log_read_safe [OF a(1-4) refl a(5) refl l0]] split: list.split)
  have rd: "safe ((=) d) (bindW (read_latest env log) (\<lambda>(rv, latest).
        if rv < 0 then ret (rv, log, [] :: 'cb tx list) else log_poll_from env log latest)) ?Q ((=) d)"
  proof (rule safe_bind [OF read_latest_safe [OF inv]])
    fix x :: "int \<times> leader_record"
    show "safe (case x of (rv, lr) \<Rightarrow> \<lambda>d'. d' = d \<and> (rv < 0 \<or> lr = sign_leader env ?lr))
       (case x of (rv, latest) \<Rightarrow> if rv < 0 then ret (rv, log, [] :: 'cb tx list) else log_poll_from env log latest) ?Q ((=) d)"
      using poll_from_self [OF inv, where 'a = 'cb] by (cases x, cases "snd x = sign_leader env ?lr") (auto intro!: safe_ret)
  qed
  show ?thesis
    unfolding pfs_log_poll_def option.case
  proof (rule safe_bind [OF probe])
    fix r :: "int + unit"
    show "safe (\<lambda>d'. d' = d \<and> (\<forall>rv. r = Inl rv \<longrightarrow> rv \<le> 0))
       (case r of Inl rv \<Rightarrow> ret (rv, log, [] :: 'cb tx list)
        | Inr _ \<Rightarrow> bindW (read_latest env log) (\<lambda>(rv, latest).
                  if rv < 0 then ret (rv, log, [] :: 'cb tx list) else log_poll_from env log latest)) ?Q ((=) d)"
      using rd by (cases r) (auto intro!: safe_ret simp: eq_commute [of _ d] cong: conj_cong)
  qed
qed

text \<open>Requests of a queue answered, and nothing written.\<close>

lemma answered:
  assumes lv: "live lc d T1 T2 i th" and i: "i > LOG_TRIM" "k \<notin> {0, LOG_TRIM, LOG_WRITE}"
    and th': "th' = th\<lparr>th_log := log', th_work := (th_work th)(k := q), th_replies := th_replies th @ map (reply_of rv) rqs\<rparr>"
    and q: "set q \<subseteq> set (th_work th k)" "set rqs \<subseteq> set (th_work th k)"
    and ok: "th_ok lc d T1 T2 (th\<lparr>th_log := log'\<rparr>)" "log_leader log' = log_leader (th_log th)"
      "mnt_sectsize (log_mount log') = th_sectsize th" "log_flags log' = th_flags th"
    and st: "i' \<ge> i" "log_state log' \<in> {LOGST_SERVING, LOGST_SUSPENDED, LOGST_STOP}"
      "i' \<le> LOG_SUSPEND \<longrightarrow> log_state log' = LOGST_SERVING"
  shows "advances d th d th'" "live lc d T1 T2 i' th'" "length q \<le> length (th_work th k) \<Longrightarrow> backs T1 T2 th' \<le> backs T1 T2 th"
proof -
  have "queues_ok th" using lv by (simp add: live_def)
  then have nw: "list_all (\<lambda>r. r_type r \<noteq> LOG_WRITE) rqs"
    using queues_type [of th k] q(2) i(2) by (auto simp: list_all_iff)
  then have "acked (map (reply_of rv) rqs) (th_mem th) = th_mem th"
    by (intro acked_other) simp
  then show "advances d th d th'"
    using ok i(2) answered_other [OF nw] by (auto simp: advances_def outcomes_def th')
  show "live lc d T1 T2 i' th'"
  proof (rule live_step [OF lv])
    show "th_ok lc d T1 T2 th'" using ok(1) by (simp add: th' th_ok_def)
    show "fewer th' th" using q(1) by (auto simp: fewer_def th')
    have "length (th_work th' LOG_WRITE) \<le> 1" using lv i(2) by (simp add: th' live_def)
    then show "th_work th' LOG_WRITE = [] \<or> th_mem th' = th_mem th \<and> length (th_work th' LOG_WRITE) \<le> 1 \<and>
      head_txid (log_leader (th_log th')) = head_txid (log_leader (th_log th)) \<and>
      head_lsn (log_leader (th_log th')) = head_lsn (log_leader (th_log th))"
      using ok(2) by (simp add: th')
    show "trim_ready i' th'" using lv i st(1) ok(4) by (simp add: th' live_def trim_ready_def)
  qed (use ok st in \<open>simp_all add: th'\<close>)
  show "backs T1 T2 th' \<le> backs T1 T2 th" if "length q \<le> length (th_work th k)"
    using that i(2) ok(4) by (auto simp: backs_def th')
qed

lemma answered_handled:
  assumes lv: "live lc d T1 T2 i th" and i: "i > LOG_TRIM" "i < LOG_NREQ" "k \<notin> {0, LOG_TRIM, LOG_WRITE}"
    and q: "set q \<subseteq> set (th_work th k)" "length q \<le> length (th_work th k)" "set rqs \<subseteq> set (th_work th k)"
    and ok: "th_ok lc d T1 T2 (th\<lparr>th_log := log'\<rparr>)" "log_leader log' = log_leader (th_log th)"
      "mnt_sectsize (log_mount log') = th_sectsize th" "log_flags log' = th_flags th"
      "log_state log' \<in> {LOGST_SERVING, LOGST_SUSPENDED, LOGST_STOP}" "i < LOG_SUSPEND \<longrightarrow> log_state log' = LOGST_SERVING"
    and c: "c \<noteq> LOG_IO_BACK"
  shows "handled lc d T1 T2 i th
    (c, th\<lparr>th_log := log', th_work := (th_work th)(k := q), th_replies := th_replies th @ map (reply_of rv) rqs\<rparr>) d"
    (is "handled _ _ _ _ _ _ (_, ?th') _")
proof -
  have a: "advances d th d ?th'" "backs T1 T2 ?th' \<le> backs T1 T2 th"
    using answered(1,3) [OF lv i(1,3) refl q(1,3) ok(1-4), of LOG_NREQ] i ok(5) q(2) by auto
  have l: "live lc d T1 T2 i' ?th'" if "i' = Suc i \<or> i' = LOG_NREQ" for i'
    by (rule answered(2) [OF lv i(1,3) refl q(1,3) ok(1-4)]) (use that i ok(5,6) in auto)
  show ?thesis
    using handled_stop [OF a(1) l] handled_cont [OF a(1) l a(2)] c by (cases c) auto
qed

lemma th_ok_log:
  assumes "th_ok lc d T1 T2 th" "log_leader log' = log_leader (th_log th)" "log_mount log' = log_mount (th_log th)"
    "log_workbufsz log' = log_workbufsz (th_log th)" "log_workgrp log' = log_workgrp (th_log th)"
    "log_waitgrp log' = log_waitgrp (th_log th)" "log_paxos_got log' = log_paxos_got (th_log th)"
  shows "th_ok lc d T1 T2 (th\<lparr>th_log := log'\<rparr>)"
  using assms by (simp add: th_ok_def log_inv_def)

lemma handle_poll_ok:
  assumes q: "th_work th LOG_POLL \<noteq> []"
  shows "handler_ok lc LOG_POLL th (pfs_log_handle_poll lc th)"
  unfolding handler_ok_def
proof (intro allI impI)
  fix d T1 T2
  assume lv: "live lc d T1 T2 LOG_POLL th"
  have st: "log_state (th_log th) = LOGST_SERVING" "th_ok lc d T1 T2 th" "queues_ok th" "th_flags th = 0"
    "\<not> log_paxos_got (th_log th)" "log_inv (lc_env lc) (th_log th) d T1 T2"
    using lv by (auto simp: live_def trim_ready_def th_ok_def)
  obtain req reqs where req: "th_work th LOG_POLL = req # reqs" using q by (cases "th_work th LOG_POLL") auto
  have rq: "r_otxq req = []" "list_all (\<lambda>r. r_otxq r = []) reqs"
    using queues_plain [OF st(3), of LOG_POLL] req by auto
  let ?th1 = "\<lambda>log1. (set_work LOG_POLL (req\<lparr>r_otxq := []\<rparr> # reqs) th)\<lparr>th_log := log1\<rparr>"
  have rep: "pfs_log_reply_queue lc LOG_POLL rv (?th1 log1) =
      ret (th\<lparr>th_log := log1, th_work := (th_work th)(LOG_POLL := []),
             th_replies := th_replies th @ map (reply_of rv) (req # reqs)\<rparr>)" for rv log1
    using rq by (subst reply_queue_plain) (simp_all add: reply_of_def)
  have "safe ((=) d) (bindW (pfs_log_poll (lc_env lc) (lc_opts lc) (th_log th) None) (\<lambda>(rv, log1, otxq).
      if rv < 0 then bindW (pfs_log_reply_queue lc LOG_POLL rv ((set_work LOG_POLL (req\<lparr>r_otxq := otxq\<rparr> # reqs) th)\<lparr>th_log := log1\<rparr>))
          (\<lambda>th2. ret (LOG_IO_STOP, th2))
      else if rv = 0 then
          assertW (r_otxq (req\<lparr>r_otxq := otxq\<rparr>) = []) (bindW (pfs_log_reply_queue lc LOG_POLL 0 ((set_work LOG_POLL (req\<lparr>r_otxq := otxq\<rparr> # reqs) th)\<lparr>th_log := log1\<rparr>))
          (\<lambda>th2. ret (LOG_IO_CONT, th2)))
      else F rv log1 otxq)) (handled lc d T1 T2 LOG_POLL th) (crash_ok lc (th_sectsize th) th)" for F
  proof (rule safe_bind_crash [OF poll_safe [OF st(6)]])
    fix x :: "int \<times> plog \<times> 'a tx list"
    obtain rv log1 otxq where x: "x = (rv, log1, otxq)" by (cases x)
    have hd: "handled lc d T1 T2 LOG_POLL th (if rv < 0 then LOG_IO_STOP else LOG_IO_CONT,
        th\<lparr>th_log := log1, th_work := (th_work th)(LOG_POLL := []),
             th_replies := th_replies th @ map (reply_of rv) (req # reqs)\<rparr>) d"
      if "log1 = th_log th \<or> log1 = note_head_lsn (head_lsn (log_leader (th_log th))) (th_log th)" for rv log1
    proof -
      have l: "th_ok lc d T1 T2 (th\<lparr>th_log := log1\<rparr>)" "log_leader log1 = log_leader (th_log th)"
        "mnt_sectsize (log_mount log1) = th_sectsize th" "log_flags log1 = th_flags th" "log_state log1 = LOGST_SERVING"
        using that st by (auto simp: note_head_lsn_def intro!: th_ok_log [OF st(2)])
      show ?thesis
        by (rule answered_handled [OF lv _ _ _ _ _ _ l(1-4)]) (use req l(5) in auto)
    qed
    show "safe (case x of (rv, log', otxq) \<Rightarrow> \<lambda>d'. d' = d \<and> otxq = [] \<and> rv \<le> 0 \<and>
       (log' = th_log th \<or> log' = note_head_lsn (head_lsn (log_leader (th_log th))) (th_log th)))
     (case x of (rv, log1, otxq) \<Rightarrow>
      if rv < 0 then bindW (pfs_log_reply_queue lc LOG_POLL rv ((set_work LOG_POLL (req\<lparr>r_otxq := otxq\<rparr> # reqs) th)\<lparr>th_log := log1\<rparr>))
          (\<lambda>th2. ret (LOG_IO_STOP, th2))
      else if rv = 0 then
          assertW (r_otxq (req\<lparr>r_otxq := otxq\<rparr>) = []) (bindW (pfs_log_reply_queue lc LOG_POLL 0 ((set_work LOG_POLL (req\<lparr>r_otxq := otxq\<rparr> # reqs) th)\<lparr>th_log := log1\<rparr>))
          (\<lambda>th2. ret (LOG_IO_CONT, th2)))
      else F rv log1 otxq) (handled lc d T1 T2 LOG_POLL th) (crash_ok lc (th_sectsize th) th)"
      unfolding x prod.case
      by (rule safe_pre) (use hd [of log1 rv] rep in \<open>auto intro!: safe_ret\<close>)
  qed (use crash_mem th_ok_finds [OF st(2)] in auto)
  then show "safe ((=) d) (pfs_log_handle_poll lc th) (handled lc d T1 T2 LOG_POLL th) (crash_ok lc (th_sectsize th) th)"
    unfolding pfs_log_handle_poll_def using st(1,4,5) req rq(1)
    by (simp add: has_flag_def Let_def)
qed

lemma handle_reset_ok:
  assumes q: "th_work th LOG_TRY_RESET_LOCK \<noteq> []"
  shows "handler_ok lc LOG_TRY_RESET_LOCK th (pfs_log_handle_try_reset_lock lc th)"
  unfolding handler_ok_def
proof (intro allI impI)
  fix d T1 T2
  assume lv: "live lc d T1 T2 LOG_TRY_RESET_LOCK th"
  have st: "log_state (th_log th) = LOGST_SERVING" "th_ok lc d T1 T2 th" "queues_ok th" "th_flags th = 0"
    using lv by (auto simp: live_def trim_ready_def)
  obtain req reqs where req: "th_work th LOG_TRY_RESET_LOCK = req # reqs"
    using q by (cases "th_work th LOG_TRY_RESET_LOCK") auto
  have rq: "r_otxq req = []" "r_type req = LOG_TRY_RESET_LOCK"
    using queues_plain [OF st(3), of LOG_TRY_RESET_LOCK] queues_type [OF st(3), of LOG_TRY_RESET_LOCK] req by auto
  have "req_ok lc (length (d_journal d)) (th_mem th) (log_leader (th_log th)) req"
    by (rule live_req [OF lv, of _ LOG_TRY_RESET_LOCK]) (simp add: req)
  then have h: "\<not> lr_num_hosts (log_leader (th_log th)) < ucast (r_next_hostid req)"
    using rq(2) by (simp add: req_ok_def)
  let ?mnt = "log_mount (th_log th)"
  define mnt1 where "mnt1 = (if mnt_host_id ?mnt = r_hostid req then ?mnt\<lparr>mnt_host_id := r_next_hostid req\<rparr> else ?mnt)"
  have ok: "th_ok lc d T1 T2 (th\<lparr>th_log := (th_log th)\<lparr>log_mount := mnt1\<rparr>\<rparr>)"
    using st(2) h by (auto simp: th_ok_def log_inv_def mnt1_def leader_ok_def verify_leader_def pfs_writable_def split: if_splits)
  have "handled lc d T1 T2 LOG_TRY_RESET_LOCK th (LOG_IO_CONT,
      th\<lparr>th_log := (th_log th)\<lparr>log_mount := mnt1\<rparr>, th_work := (th_work th)(LOG_TRY_RESET_LOCK := reqs),
        th_replies := th_replies th @ map (reply_of 0) [req]\<rparr>) d"
    by (rule answered_handled [OF lv _ _ _ _ _ _ ok]) (use req st in \<open>auto simp: mnt1_def\<close>)
  then show "safe ((=) d) (pfs_log_handle_try_reset_lock lc th) (handled lc d T1 T2 LOG_TRY_RESET_LOCK th)
      (crash_ok lc (th_sectsize th) th)"
    unfolding pfs_log_handle_try_reset_lock_def mnt1_def using st(1,4) req rq(1)
    by (simp add: has_flag_def Let_def log_reply_plain safe_ret)
qed

lemma handle_suspend_ok:
  assumes q: "th_work th LOG_SUSPEND \<noteq> []"
  shows "handler_ok lc LOG_SUSPEND th (pfs_log_handle_suspend lc th)"
  unfolding handler_ok_def
proof (intro allI impI)
  fix d T1 T2
  assume lv: "live lc d T1 T2 LOG_SUSPEND th"
  have st: "log_state (th_log th) = LOGST_SERVING" "th_ok lc d T1 T2 th" "queues_ok th"
    using lv by (auto simp: live_def)
  have ok: "th_ok lc d T1 T2 (th\<lparr>th_log := (th_log th)\<lparr>log_state := LOGST_SUSPENDED\<rparr>\<rparr>)"
    by (rule th_ok_log [OF st(2)]) simp_all
  have "handled lc d T1 T2 LOG_SUSPEND th (LOG_IO_CONT,
      th\<lparr>th_log := (th_log th)\<lparr>log_state := LOGST_SUSPENDED\<rparr>, th_work := (th_work th)(LOG_SUSPEND := []),
        th_replies := th_replies th @ map (reply_of 0) (th_work th LOG_SUSPEND)\<rparr>) d"
    by (rule answered_handled [OF lv _ _ _ _ _ _ ok]) auto
  then show "safe ((=) d) (pfs_log_handle_suspend lc th) (handled lc d T1 T2 LOG_SUSPEND th)
      (crash_ok lc (th_sectsize th) th)"
    unfolding pfs_log_handle_suspend_def using st(1) queues_plain [OF st(3)]
    by (simp add: reply_queue_plain safe_ret)
qed

lemma handle_stop_ok:
  assumes q: "th_work th LOG_STOP \<noteq> []"
  shows "handler_ok lc LOG_STOP th (pfs_log_handle_stop lc th)"
  unfolding handler_ok_def
proof (intro allI impI)
  fix d T1 T2
  assume lv: "live lc d T1 T2 LOG_STOP th"
  have st: "th_ok lc d T1 T2 th" "queues_ok th" using lv by (auto simp: live_def)
  have ok: "th_ok lc d T1 T2 (th\<lparr>th_log := (th_log th)\<lparr>log_state := LOGST_STOP\<rparr>\<rparr>)"
    by (rule th_ok_log [OF st(1)]) simp_all
  have "handled lc d T1 T2 LOG_STOP th (LOG_IO_CONT,
      th\<lparr>th_log := (th_log th)\<lparr>log_state := LOGST_STOP\<rparr>, th_work := (th_work th)(LOG_STOP := []),
        th_replies := th_replies th @ map (reply_of 0) (th_work th LOG_STOP)\<rparr>) d"
    by (rule answered_handled [OF lv _ _ _ _ _ _ ok]) auto
  then show "safe ((=) d) (pfs_log_handle_stop lc th) (handled lc d T1 T2 LOG_STOP th)
      (crash_ok lc (th_sectsize th) th)"
    unfolding pfs_log_handle_stop_def using queues_plain [OF st(2)]
    by (simp add: reply_queue_plain safe_ret)
qed

lemma handle_flush_ok:
  assumes q: "th_work th LOG_FLUSH \<noteq> []"
  shows "handler_ok lc LOG_FLUSH th (pfs_log_handle_flush lc th)"
  unfolding handler_ok_def
proof (intro allI impI)
  fix d T1 T2
  assume lv: "live lc d T1 T2 LOG_FLUSH th"
  have st: "log_state (th_log th) = LOGST_SERVING" "th_ok lc d T1 T2 th" "queues_ok th" "th_flags th = 0"
    "th_work th LOG_TRIM = []"
    using lv by (auto simp: live_def trim_ready_def)
  obtain req reqs where req: "th_work th LOG_FLUSH = req # reqs" using q by (cases "th_work th LOG_FLUSH") auto
  have rq: "r_otxq req = []" "r_type req = LOG_FLUSH"
    using queues_plain [OF st(3), of LOG_FLUSH] queues_type [OF st(3), of LOG_FLUSH] req by auto
  have e: "handled lc d T1 T2 LOG_FLUSH th (LOG_IO_CONT,
      th\<lparr>th_log := th_log th, th_work := (th_work th)(LOG_FLUSH := reqs),
        th_replies := th_replies th @ map (reply_of (- ENODATA)) [req]\<rparr>) d"
    by (rule answered_handled [OF lv]) (use req st in auto)
  define th' where "th' = (set_work LOG_TRIM [log_trimreq] (set_flag LOGF_TRIM_FORCED (set_work LOG_FLUSH reqs th)))
      \<lparr>th_replies := th_replies th @ [reply_of (- EAGAIN) req]\<rparr>"
  have th': "th_work th' = (th_work th)(LOG_FLUSH := reqs, LOG_TRIM := [log_trimreq])" "th_flags th' = LOGF_TRIM_FORCED"
    "th_mem th' = th_mem th" "log_leader (th_log th') = log_leader (th_log th)" "log_state (th_log th') = LOGST_SERVING"
    using st(1,4) by (simp_all add: th'_def set_flag_def)
  have ok': "th_ok lc d T1 T2 th'"
    using st(2) by (simp add: th'_def set_flag_def th_ok_def log_inv_def)
  have "handled lc d T1 T2 LOG_FLUSH th (LOG_IO_BACK, th') d"
  proof (rule handled_back)
    show "advances d th d th'"
      using acked_other [of "[req]" "- EAGAIN" "th_mem th"] answered_other [of "[req]" "th_work th LOG_WRITE" "- EAGAIN"] rq(2)
      by (auto simp: advances_def outcomes_def th'_def set_flag_def)
    show "live lc d T1 T2 LOG_TRIM th'"
      by (rule live_step [OF lv ok' refl])
        (use th' lv req in \<open>auto simp: fewer_def live_def trim_ready_def\<close>)
    show "backs T1 T2 th' < backs T1 T2 th"
      using th' req st(4) by (auto simp: backs_def)
  qed
  with e show "safe ((=) d) (pfs_log_handle_flush lc th) (handled lc d T1 T2 LOG_FLUSH th) (crash_ok lc (th_sectsize th) th)"
    unfolding pfs_log_handle_flush_def th'_def using st req rq(1)
    by (auto simp: has_flag_def Let_def log_reply_plain set_flag_def fun_upd_def intro!: safe_ret)
qed

lemma uint_u32: "0 \<le> x \<Longrightarrow> x < 2 ^ 32 \<Longrightarrow> uint (word_of_int x :: u32) = x"
  by (simp add: unsigned_of_int take_bit_int_eq_self)

lemma nops_words:
  assumes "n < 2 ^ 23"
  shows "ucast (word_of_int (int n * int LE_SIZE) :: u32) = (of_nat (LE_SIZE * n) :: u64)"
    "unat (ucast (word_of_int (int n * int LE_SIZE) :: u32) :: u64) = LE_SIZE * n"
proof -
  have u: "uint (word_of_int (int n * int LE_SIZE) :: u32) = int n * int LE_SIZE"
    by (rule uint_u32) (use assms in simp_all)
  have "ucast (word_of_int (int n * int LE_SIZE) :: u32) =
      (word_of_int (uint (word_of_int (int n * int LE_SIZE) :: u32)) :: u64)"
    by (simp only: of_int_uint)
  also have "\<dots> = of_nat (LE_SIZE * n)" unfolding u by (simp add: mult.commute)
  finally show e: "ucast (word_of_int (int n * int LE_SIZE) :: u32) = (of_nat (LE_SIZE * n) :: u64)" .
  show "unat (ucast (word_of_int (int n * int LE_SIZE) :: u32) :: u64) = LE_SIZE * n"
    unfolding e by (rule word_bytes(1)) (use assms in simp)
qed

text \<open>The commit of a transaction that fits: the memory, the device and the groups move together.\<close>

lemma th_commit:
  assumes ok: "th_ok lc d T1 T2 th"
    and tx: "tx_ready (lc_env lc) (th_mem th) tx" "length (concat (T1 @ T2)) + length (t_ops tx) < length (d_journal d)"
      "uint (head_txid (log_leader (th_log th))) + 1 < 2 ^ 62"
      "uint (head_lsn (log_leader (th_log th))) + int (length (t_ops tx)) < 2 ^ 62"
    and latest: "log_leader_latest (th_log th) = log_leader (th_log th)"
  shows "safe ((=) d) (pfs_log_commit (lc_env lc) (th_log th) tx (log_leader (th_log th)))
    (\<lambda>(rv, log1, tx1) d'. tx_jops tx1 = tx_jops tx \<and> length (d_journal d') = length (d_journal d) \<and>
       (if rv < 0 then log1 = th_log th \<and> th_ok lc d' T1 T2 th
        else rv = 0 \<and> log_state log1 = log_state (th_log th) \<and> log_flags log1 = th_flags th \<and> log_mount log1 = log_mount (th_log th) \<and>
          lr_num_hosts (log_leader log1) = lr_num_hosts (log_leader (th_log th)) \<and>
          pfs_tx_apply (t_ops tx1) (th_mem th) = Some (apply_ops (tx_jops tx) (th_mem th)) \<and>
          (\<exists>wk. pfs_log_add_trimentry log1 (t_id tx1) (txspace tx1) (t_ops tx1) = Some (log1\<lparr>log_workgrp := wk\<rparr>) \<and>
             th_ok lc d' T1 (T2 @ [tx_jops tx])
               (th\<lparr>th_log := log1\<lparr>log_workgrp := wk\<rparr>, th_mem := apply_ops (tx_jops tx) (th_mem th)\<rparr>))))
    (\<lambda>d'. finds lc (th_sectsize th) (th_mem th) d' \<or> finds lc (th_sectsize th) (apply_ops (tx_jops tx) (th_mem th)) d')"
    (is "safe _ _ ?Q ?C")
proof -
  let ?env = "lc_env lc" and ?log = "th_log th"
  let ?lr = "log_leader ?log" and ?t = "tx_jops tx"
  let ?lr' = "commit_leader ?lr (length (t_ops tx))"
  obtain s where s: "ring_ok ?env ?lr (d_journal d) s (T1 @ T2)"
    "groups_ok ?lr (d_sect d) (length (d_journal d)) s T1 T2 (log_workgrp ?log) (log_waitgrp ?log)"
    by (rule th_ok_bounds [OF ok])
  have inv: "leader_ok ?env (log_mount ?log) ?lr" "d_leader d = sign_leader ?env ?lr" "log_workbufsz ?log = PFS_FRAG_SIZE"
    "pfs_writable (log_mount ?log)" "th_mem th = committed d (T1 @ T2)" "\<not> log_paxos_got ?log"
    using ok by (auto simp: th_ok_def log_inv_def)
  have t: "t_ops tx \<noteq> []" "t_nops tx = int (length (t_ops tx))" "list_all (txop_ready ?env) (t_ops tx)"
    "pfs_tx_apply (t_ops tx) (th_mem th) = Some (apply_ops ?t (th_mem th))"
    using tx(1) tx_apply_ready [of ?env "t_ops tx" "th_mem th"] by (auto simp: tx_ready_def tx_jops_def)
  have k: "length (t_ops tx) < 2 ^ 23"
    using tx(2) s(1) unfolding ring_ok_def by linarith
  have h: "uint (head_txid ?lr) = uint (tail_txid ?lr) + int (length T1) + int (length T2)"
    using s(1) by (simp add: ring_ok_def)
  obtain wk where wk: "pfs_trimgroup_insert (log_workgrp ?log) (uint (head_txid ?lr) + 1)
        (of_nat (LE_SIZE * length (t_ops tx))) (t_ops tx) (log_size ?lr) = Some wk"
      "groups_ok ?lr' (d_sect d) (length (d_journal d)) s T1 (T2 @ [?t]) wk (log_waitgrp ?log)"
    using groups_commit [OF s(2) t(3) h] by (auto simp: tx_jops_def)
  have sz: "log_size ?lr' = log_size ?lr" "lr_num_hosts ?lr' = lr_num_hosts ?lr" by (simp_all add: commit_leader_def)
  have Q: "?Q (rv, log1, tx1) d'"
    if a: "tx1 = tx\<lparr>t_id := uint (head_txid ?lr) + 1\<rparr>" "d_sect d' = d_sect d" "length (d_journal d') = length (d_journal d)"
      "if rv < 0 then log1 = ?log \<and> d_leader d' = d_leader d \<and> ring_ok ?env ?lr (d_journal d') s (T1 @ T2)
       else rv = 0 \<and> log1 = ?log\<lparr>log_leader := ?lr', log_leader_latest := sign_leader ?env ?lr'\<rparr> \<and>
             d_leader d' = sign_leader ?env ?lr' \<and> ring_ok ?env ?lr' (d_journal d') s ((T1 @ T2) @ [?t])" for rv log1 tx1 d'
  proof (cases "rv < 0")
    case True
    then show ?thesis
      using a ok s(2) inv by (auto simp: tx_jops_def th_ok_def log_inv_def committed_def intro!: exI [of _ s])
  next
    case False
    then have l1: "rv = 0" "log1 = ?log\<lparr>log_leader := ?lr', log_leader_latest := sign_leader ?env ?lr'\<rparr>"
      "d_leader d' = sign_leader ?env ?lr'" "ring_ok ?env ?lr' (d_journal d') s (T1 @ T2 @ [?t])"
      using a(4) by auto
    have "pfs_log_add_trimentry log1 (t_id tx1) (txspace tx1) (t_ops tx1) = Some (log1\<lparr>log_workgrp := wk\<rparr>)"
      using wk(1) nops_words(1) [OF k] t(2) by (simp add: pfs_log_add_trimentry_def a(1) l1(2) txspace_def sz)
    moreover have "th_ok lc d' T1 (T2 @ [?t])
        (th\<lparr>th_log := log1\<lparr>log_workgrp := wk\<rparr>, th_mem := apply_ops ?t (th_mem th)\<rparr>)"
      using inv l1 wk(2) a(2,3) by (auto simp: th_ok_def log_inv_def committed_def intro!: exI [of _ s])
    ultimately show ?thesis
      using l1 a t(4) sz by (auto simp: tx_jops_def)
  qed
  have C: "?C d'" if "recovers ?env (log_mount ?log) (committed d (T1 @ T2)) d' \<or>
      recovers ?env (log_mount ?log) (committed d ((T1 @ T2) @ [?t])) d'" for d'
    using that inv(5) by (auto simp: finds_def committed_def)
  show ?thesis
  proof (rule safe_weaken [OF commit_safe [OF inv(1-3) s(1) latest t(1-3) tx(2-4) refl]], goal_cases)
    case (2 x d')
    obtain rv log1 tx1 where x: "x = (rv, log1, tx1)" by (cases x)
    show ?case using 2 Q [of tx1 d' rv log1] unfolding x prod.case by blast
  next
    case (3 d')
    then show ?case by (rule C)
  qed
qed

lemma write_commit_ok:
  assumes lv: "live lc d T1 T2 LOG_WRITE th" and req: "th_work th LOG_WRITE = [req]" "r_itx req = Some tx"
    and tx: "tx_ready (lc_env lc) (th_mem th) tx" "length (concat (T1 @ T2)) + length (t_ops tx) < length (d_journal d)"
      "uint (head_txid (log_leader (th_log th))) + 1 < 2 ^ 62"
      "uint (head_lsn (log_leader (th_log th))) + int (length (t_ops tx)) < 2 ^ 62"
    and latest: "log_leader_latest (th_log th) = log_leader (th_log th)"
  shows "safe ((=) d) (log_write_commit lc req [] tx th) (handled lc d T1 T2 LOG_WRITE th) (crash_ok lc (th_sectsize th) th)"
    (is "safe _ _ ?H ?C")
proof -
  let ?env = "lc_env lc" and ?log = "th_log th" and ?M = "apply_ops (tx_jops tx) (th_mem th)"
  have st: "log_state ?log = LOGST_SERVING" "th_ok lc d T1 T2 th" "queues_ok th" "th_flags th = 0" "th_work th LOG_TRIM = []"
    using lv by (auto simp: live_def trim_ready_def)
  have rq: "r_otxq req = []" "r_type req = LOG_WRITE"
    using queues_plain [OF st(3), of LOG_WRITE] queues_type [OF st(3), of LOG_WRITE] req by auto
  have out: "outcomes th = {th_mem th, ?M}" using req by (auto simp: outcomes_def)
  let ?fail = "\<lambda>rv tx1. th\<lparr>th_work := (th_work th)(LOG_WRITE := []),
      th_replies := th_replies th @ [reply_of rv (req\<lparr>r_itx := Some tx1\<rparr>)]\<rparr>"
  have fail: "?H (LOG_IO_STOP, ?fail rv tx1) d'"
    if a: "rv < 0" "th_ok lc d' T1 T2 th" "length (d_journal d') = length (d_journal d)" "tx_jops tx1 = tx_jops tx" for rv tx1 d'
  proof (rule handled_stop)
    show "advances d th d' (?fail rv tx1)"
      using a rq req by (auto simp: advances_def outcomes_def acked_def ack_def reply_of_def answered_writes_def answers_def)
    show "live lc d' T1 T2 LOG_NREQ (?fail rv tx1)"
      by (rule live_step [OF lv]) (use a st in \<open>auto simp: th_ok_def fewer_def trim_ready_def\<close>)
  qed
  let ?done = "\<lambda>log3 tx1. th\<lparr>th_log := log3, th_mem := ?M, th_work := (th_work th)(LOG_WRITE := [], LOG_POLL := []),
      th_replies := th_replies th @ [reply_of 0 (req\<lparr>r_itx := Some tx1\<rparr>)] @ map (reply_of 0) (th_work th LOG_POLL)\<rparr>"
  have succ: "?H (LOG_IO_CONT, ?done log3 tx1) d'"
    if a: "th_ok lc d' T1' T2' (th\<lparr>th_log := log3, th_mem := ?M\<rparr>)" "tx_jops tx1 = tx_jops tx"
      "length (d_journal d') = length (d_journal d)" "log_state log3 = LOGST_SERVING" "log_flags log3 = 0"
      "log_mount log3 = log_mount ?log" "lr_num_hosts (log_leader log3) = lr_num_hosts (log_leader ?log)" for log3 tx1 d' T1' T2'
  proof (rule handled_cont)
    have nw: "list_all (\<lambda>r. r_type r \<noteq> LOG_WRITE) (th_work th LOG_POLL)"
      using queues_type [OF st(3), of LOG_POLL] by (auto simp: list_all_iff)
    have "acked (map (reply_of 0) (th_work th LOG_POLL)) m = m" for m
      using nw by (intro acked_other) simp
    moreover have "answered_writes [req] [reply_of 0 (req\<lparr>r_itx := Some tx1\<rparr>)] []"
      using rq a(2) req by (simp add: answered_writes_def answers_def reply_of_def)
    then have "answered_writes [req] ([reply_of 0 (req\<lparr>r_itx := Some tx1\<rparr>)] @ map (reply_of 0) (th_work th LOG_POLL)) []"
      by (rule answered_writes_trans) (rule answered_other [OF nw])
    ultimately show "advances d th d' (?done log3 tx1)"
      using a rq out req unfolding advances_def
      by (auto simp: outcomes_def acked_def ack_def reply_of_def)
    show "live lc d' T1' T2' (Suc LOG_WRITE) (?done log3 tx1)"
      by (rule live_step [OF lv]) (use a st in \<open>auto simp: th_ok_def fewer_def trim_ready_def\<close>)
    show "backs T1' T2' (?done log3 tx1) \<le> backs T1 T2 th" by (auto simp: backs_def)
  qed
  have rep: "bindW (pfs_log_reply lc (req\<lparr>r_itx := Some tx1\<rparr>) 0 ((set_work LOG_WRITE [] th)\<lparr>th_log := log1, th_log := log3, th_mem := ?M\<rparr>))
      (\<lambda>th2. bindW (pfs_log_reply_queue lc LOG_POLL 0 th2) (\<lambda>th3. ret (LOG_IO_CONT, th3))) =
     ret (LOG_IO_CONT, ?done log3 tx1)" for log1 log3 tx1
    using rq(1) queues_plain [OF st(3), of LOG_POLL]
    by (subst log_reply_plain) (simp_all add: reply_queue_plain)
  show ?thesis
    unfolding log_write_commit_def
  proof (rule safe_bind_crash [OF th_commit [OF st(2) tx latest]], goal_cases)
    case (1 d')
    then show ?case by (auto simp: crash_ok_def out)
  next
    case (2 x)
    obtain rv log1 tx1 where x: "x = (rv, log1, tx1)" by (cases x)
    show ?case
      unfolding x prod.case
    proof (rule safe_pre, goal_cases)
      case (1 d')
      show ?case
      proof (cases "rv < 0")
        case True
        then show ?thesis
          using 1 fail rq(1) by (auto simp: Let_def log_reply_plain intro!: safe_ret)
      next
        case False
        obtain wk where w: "pfs_log_add_trimentry log1 (t_id tx1) (txspace tx1) (t_ops tx1) = Some (log1\<lparr>log_workgrp := wk\<rparr>)"
            "th_ok lc d' T1 (T2 @ [tx_jops tx]) (th\<lparr>th_log := log1\<lparr>log_workgrp := wk\<rparr>, th_mem := ?M\<rparr>)"
          and a: "rv = 0" "tx_jops tx1 = tx_jops tx" "length (d_journal d') = length (d_journal d)"
            "log_state log1 = LOGST_SERVING" "log_flags log1 = 0" "log_mount log1 = log_mount ?log"
            "lr_num_hosts (log_leader log1) = lr_num_hosts (log_leader ?log)"
            "pfs_tx_apply (t_ops tx1) (th_mem th) = Some ?M"
          using 1 False st(1,4) by auto
        note swap = log_tryswap_safe [OF w(2), of False LOG_WRITE, simplified]
        show ?thesis
          unfolding a(1) Let_def w(1) a(8) liftW_simps bindW_simps
          apply (simp only: less_irrefl if_False)
        proof (rule safe_bind [OF swap], goal_cases)
          case (1 y)
          obtain rv3 log3 where y: "y = (rv3, log3)" by (cases y)
          show ?case
            unfolding y prod.case
          proof (rule safe_pre, elim conjE exE, goal_cases)
            case (1 d'' T1' T2')
            have g: "g_roffset (log_workgrp log3) = head_offset (log_leader log3)"
              using 1(6) by (auto simp: th_ok_def log_inv_def groups_ok_def Let_def)
            have "?H (LOG_IO_CONT, ?done log3 tx1) d'"
              by (rule succ [of d' T1' T2' log3]) (use 1(6) a frame_simps [OF 1(2)] in \<open>simp_all add: th_ok_def\<close>)
            then show ?case
              unfolding 1(1) rep by (intro safe_assert safe_ret) (use g in auto)
          qed
        qed
      qed
    qed
  qed
qed

lemma handle_write_ok:
  assumes q: "th_work th LOG_WRITE \<noteq> []"
  shows "handler_ok lc LOG_WRITE th (pfs_log_handle_write lc th)"
  unfolding handler_ok_def
proof (intro allI impI)
  fix d T1 T2
  assume lv: "live lc d T1 T2 LOG_WRITE th"
  let ?log = "th_log th" and ?N = "length (d_journal d)"
  have st: "log_state ?log = LOGST_SERVING" "th_ok lc d T1 T2 th" "queues_ok th" "th_flags th = 0"
    "th_work th LOG_TRIM = []" "length (th_work th LOG_WRITE) \<le> 1"
    using lv by (auto simp: live_def trim_ready_def)
  obtain req where req: "th_work th LOG_WRITE = [req]" using q st(6) by (cases "th_work th LOG_WRITE") auto
  have rq: "r_type req = LOG_WRITE" using queues_type [OF st(3), of LOG_WRITE] req by auto
  have "req_ok lc ?N (th_mem th) (log_leader ?log) req" by (rule live_req [OF lv, of _ LOG_WRITE]) (simp add: req)
  then obtain tx where tx: "r_itx req = Some tx" "tx_ready (lc_env lc) (th_mem th) tx" "length (t_ops tx) < ?N"
      "uint (head_txid (log_leader ?log)) + 1 < 2 ^ 62" "uint (head_lsn (log_leader ?log)) + int (length (t_ops tx)) < 2 ^ 62"
    using rq by (auto simp: req_ok_def write_ok_def split: option.splits)
  define th1 where "th1 = upd_log pfs_log_paxos_try_acquire th"
  have th1: "th_work th1 = th_work th" "th_mem th1 = th_mem th" "log_leader (th_log th1) = log_leader ?log"
    "log_leader_latest (th_log th1) = log_leader ?log" "th_replies th1 = th_replies th" "th_flags th1 = 0"
    "log_state (th_log th1) = LOGST_SERVING" "log_mount (th_log th1) = log_mount ?log" "th_reqmask th1 = th_reqmask th"
    using st by (simp_all add: th1_def pfs_log_paxos_try_acquire_def)
  have ok1: "th_ok lc d T1 T2 th1" unfolding th1_def by (rule th_ok_acquire [OF st(2)])
  have lv1: "live lc d T1 T2 LOG_WRITE th1"
    by (rule live_step [OF lv ok1 refl]) (use th1 lv in \<open>auto simp: fewer_def live_def trim_ready_def\<close>)
  have adv: "handled lc d T1 T2 LOG_WRITE th1 = handled lc d T1 T2 LOG_WRITE th"
  proof -
    have "backs T1 T2 th1 = backs T1 T2 th" using th1 st(4) by (simp add: backs_def)
    moreover have "advances d th1 d' t = advances d th d' t" for d' and t :: "'a lthread"
      using th1 by (simp add: advances_def outcomes_def)
    ultimately show ?thesis by (simp only: handled_def)
  qed
  have "outcomes th1 = outcomes th" using th1 by (simp add: outcomes_def)
  then have cr: "crash_ok lc sz th1 = crash_ok lc sz th" for sz
    unfolding crash_ok_def by simp
  obtain s where s: "ring_ok (lc_env lc) (log_leader ?log) (d_journal d) s (T1 @ T2)"
    by (rule th_ok_bounds [OF st(2)])
  have N: "?N < 2 ^ 23" "unat (log_size (log_leader ?log)) = LE_SIZE * ?N" using s by (simp_all add: ring_ok_def)
  obtain sp where sp: "pfs_log_space (th_log th1) = Some sp" "unat sp = LE_SIZE * (?N - length (concat (T1 @ T2)))"
    using log_space_live [of "th_log th1"] ring_ok_live [OF s] th1(3) by metis
  have tn: "t_nops tx = int (length (t_ops tx))" "t_ops tx \<noteq> []" using tx(2) by (auto simp: tx_ready_def)
  have k: "unat (txspace tx) = LE_SIZE * length (t_ops tx)"
    unfolding txspace_def tn(1) by (rule nops_words(2)) (use tx(3) N(1) in linarith)
  have asr: "t_nops tx > 0" "txspace tx \<le> log_size (log_leader ?log)"
    using tn tx(3) N(2) k by (auto simp: word_le_nat_alt)
  define th2 where "th2 = set_work LOG_TRIM [log_trimreq] (set_flag LOGF_SPACE_NEEDED th1)"
  have th2: "th_work th2 = (th_work th)(LOG_TRIM := [log_trimreq])" "th_mem th2 = th_mem th"
    "log_leader (th_log th2) = log_leader ?log" "th_flags th2 = LOGF_SPACE_NEEDED" "th_replies th2 = th_replies th"
    "log_state (th_log th2) = LOGST_SERVING" "log_mount (th_log th2) = log_mount ?log" "th_reqmask th2 = th_reqmask th"
    using th1 by (simp_all add: th2_def set_flag_def)
  have stepb: "handled lc d T1 T2 LOG_WRITE th (LOG_IO_BACK, th2) d" if b: "txspace tx \<ge> sp"
  proof (rule handled_back)
    show "advances d th d th2" using th2 by (auto simp: advances_def outcomes_def acked_def)
    have "th_ok lc d T1 T2 th2" using ok1 by (simp add: th2_def set_flag_def th_ok_def log_inv_def)
    then show "live lc d T1 T2 LOG_TRIM th2"
      by (rule live_step [OF lv _ refl]) (use th2 lv in \<open>auto simp: fewer_def live_def trim_ready_def\<close>)
    have "T1 @ T2 \<noteq> []" using b tx(3) k sp(2) by (auto simp: word_le_nat_alt)
    then show "backs T1 T2 th2 < backs T1 T2 th" using th2 st(4) req by (auto simp: backs_def groups_def)
  qed
  have commit: "safe ((=) d) (log_write_commit lc req [] tx th1) (handled lc d T1 T2 LOG_WRITE th) (crash_ok lc (th_sectsize th) th)"
    if "\<not> txspace tx \<ge> sp"
  proof -
    have "length (concat (T1 @ T2)) + length (t_ops tx) < ?N" using that k sp(2) by (simp add: word_le_nat_alt)
    then show ?thesis
      using write_commit_ok [OF lv1, of req tx] req tx th1 adv cr by simp
  qed
  show "safe ((=) d) (pfs_log_handle_write lc th) (handled lc d T1 T2 LOG_WRITE th) (crash_ok lc (th_sectsize th) th)"
    unfolding pfs_log_handle_write_def Let_def th1_def [symmetric]
    using st th1 req tx(1) asr sp(1) commit stepb
    by (auto simp: has_flag_def th2_def intro!: safe_ret)
qed

section \<open>Dispatch\<close>

lemmas handlers_ok = handle_trim_ok handle_poll_ok handle_reset_ok handle_write_ok handle_flush_ok handle_suspend_ok handle_stop_ok

lemma handler_dispatch:
  assumes "live lc d T1 T2 i th" "th_work th i \<noteq> []" "i < LOG_NREQ" "i \<noteq> 0" "i \<noteq> LOG_RESUME"
  shows "safe ((=) d) (log_req_handler i lc th) (handled lc d T1 T2 i th) (crash_ok lc (th_sectsize th) th)"
proof -
  have "i \<noteq> LOG_LOAD" "i \<noteq> LOG_REPLAYDONE" using assms(1,2) by (auto simp: live_def queues_ok_def)
  then have "i \<in> {LOG_TRIM, LOG_POLL, LOG_TRY_RESET_LOCK, LOG_WRITE, LOG_FLUSH, LOG_SUSPEND, LOG_STOP}"
    using assms(3-5) by (simp, presburger)
  then show ?thesis
    using handlers_ok [of th lc] assms(1,2) by (auto simp: log_req_handler_def handler_ok_def)
qed

lemma advances_refl: "advances d th d th"
  by (auto simp: advances_def acked_def)

lemma advances_trans: "advances d th d1 th1 \<Longrightarrow> advances d1 th1 d2 th2 \<Longrightarrow> advances d th d2 th2"
  unfolding advances_def by (auto simp: acked_append [symmetric] intro: answered_writes_trans simp del: acked_append)

lemma advances_crash: "advances d th d1 th1 \<Longrightarrow> crash_ok lc (th_sectsize th1) th1 d2 \<Longrightarrow> crash_ok lc (th_sectsize th) th d2"
  by (auto simp: advances_def crash_ok_def)

lemma live_skip: "live lc d T1 T2 i th \<Longrightarrow> i = LOG_TRIM \<longrightarrow> th_work th i = [] \<Longrightarrow> live lc d T1 T2 (Suc i) th"
  by (auto simp: live_def trim_ready_def split: if_splits)

lemma handle_req_loop_ok:
  assumes "live lc d T1 T2 i th" "i \<noteq> 0" "i \<le> LOG_NREQ" "bit (th_reqmask th) LOG_TRIM" "\<not> bit (th_reqmask th) LOG_RESUME"
    "fuel > LOG_NREQ - i + 8 * backs T1 T2 th"
  shows "safe ((=) d) (handle_req_loop fuel lc i th)
    (\<lambda>r d'. \<exists>th' T1' T2'. r = Some th' \<and> advances d th d' th' \<and> live lc d' T1' T2' LOG_NREQ th')
    (crash_ok lc (th_sectsize th) th)"
  using assms
proof (induction fuel arbitrary: i th d T1 T2)
  case (Suc fuel)
  let ?Q = "\<lambda>d th r d'. \<exists>th' T1' T2'. r = Some th' \<and> advances d th d' th' \<and> live lc d' T1' T2' LOG_NREQ th'"
  show ?case
  proof (cases "i < LOG_NREQ")
    case False
    then have "i = LOG_NREQ" using Suc.prems(3) by simp
    then show ?thesis
      using Suc.prems(1) advances_refl [of d th] by (auto intro!: safe_ret)
  next
    case True
    show ?thesis
    proof (cases "\<not> bit (th_reqmask th) i \<or> th_work th i = []")
      case skip: True
      have "safe ((=) d) (handle_req_loop fuel lc (Suc i) th) (?Q d th) (crash_ok lc (th_sectsize th) th)"
        by (rule Suc.IH [OF live_skip [OF Suc.prems(1)]]) (use Suc.prems skip True in auto)
      then show ?thesis using True skip by simp
    next
      case False
      then have q: "th_work th i \<noteq> []" "i \<noteq> LOG_RESUME" using Suc.prems(5) by auto
      have step: "safe ((=) d1) (case rv of LOG_IO_STOP \<Rightarrow> ret (Some th1)
            | LOG_IO_CONT \<Rightarrow> handle_req_loop fuel lc (Suc i) th1
            | LOG_IO_BACK \<Rightarrow> handle_req_loop fuel lc LOG_TRIM th1) (?Q d th) (crash_ok lc (th_sectsize th) th)"
        if h: "handled lc d T1 T2 i th (rv, th1) d1" for rv th1 d1
      proof -
        have adv: "advances d th d1 th1" and m: "th_reqmask th1 = th_reqmask th"
          using h by (auto simp: handled_def advances_def)
        have go: "safe ((=) d1) (handle_req_loop fuel lc i' th1) (?Q d th) (crash_ok lc (th_sectsize th) th)"
          if "live lc d1 T1' T2' i' th1" "i' \<noteq> 0" "i' \<le> LOG_NREQ" "fuel > LOG_NREQ - i' + 8 * backs T1' T2' th1" for T1' T2' i'
        proof (rule safe_weaken [OF Suc.IH [OF that(1-3) _ _ that(4)]])
          show "?Q d th r d2" if "?Q d1 th1 r d2" for r d2 using that advances_trans [OF adv] by blast
        qed (use m Suc.prems(4,5) advances_crash [OF adv] in auto)
        show ?thesis
        proof (cases rv)
          case LOG_IO_STOP
          then show ?thesis using h by (auto simp: handled_def intro!: safe_ret)
        next
          case LOG_IO_CONT
          then obtain T1' T2' where "live lc d1 T1' T2' (Suc i) th1" "backs T1' T2' th1 \<le> backs T1 T2 th"
            using h by (auto simp: handled_def)
          then show ?thesis using go [of T1' T2' "Suc i"] Suc.prems(6) True LOG_IO_CONT by simp
        next
          case LOG_IO_BACK
          then obtain T1' T2' where "live lc d1 T1' T2' LOG_TRIM th1" "backs T1' T2' th1 < backs T1 T2 th"
            using h by (auto simp: handled_def)
          then show ?thesis using go [of T1' T2' LOG_TRIM] Suc.prems(6) True LOG_IO_BACK by simp
        qed
      qed
      show ?thesis
        unfolding handle_req_loop.simps using True False
        apply (simp only: if_True if_False)
        apply (rule safe_bind [OF handler_dispatch [OF Suc.prems(1) q(1) True Suc.prems(2) q(2)]])
        apply (rule safe_pre)
        using step by auto
    qed
  qed
qed simp

end
