(* ===== verification/Log_Round.thy ===== *)
theory Log_Round
  imports Log_Safe
begin

text \<open>
  One round of the log thread on the host that mounts read-write: swap checkpoint, collection
  of the requests, request mask, periodic trim, dispatch and requeue.
\<close>

section \<open>Between rounds\<close>

definition reqs_ok :: "log_conf \<Rightarrow> pbd \<Rightarrow> 'cb lthread \<Rightarrow> 'cb log_req list \<Rightarrow> bool" where
  "reqs_ok lc d th rs \<longleftrightarrow>
     list_all (\<lambda>r. r_otxq r = [] \<and>
       r_type r \<in> {LOG_POLL, LOG_TRY_RESET_LOCK, LOG_WRITE, LOG_FLUSH, LOG_SUSPEND, LOG_RESUME, LOG_STOP} \<and>
       req_ok lc (length (d_journal d)) (th_mem th) (log_leader (th_log th)) r) rs \<and>
     length (filter (\<lambda>r. r_type r = LOG_WRITE) rs) \<le> 1"

definition idle :: "log_conf \<Rightarrow> pbd \<Rightarrow> 'cb lthread \<Rightarrow> bool" where
  "idle lc d th \<longleftrightarrow> (\<exists>T1 T2. th_ok lc d T1 T2 th) \<and> th_flags th = 0 \<and> (\<forall>k. k \<noteq> 0 \<longrightarrow> th_work th k = []) \<and>
     log_state (th_log th) \<in> {LOGST_SERVING, LOGST_SUSPENDED, LOGST_STOP} \<and> reqs_ok lc d th (th_work th 0)"

section \<open>The queues of a round\<close>

lemma enqueue_fold:
  assumes "list_all (\<lambda>r. r_type r \<noteq> 0) rs"
  shows "fold (\<lambda>req th. set_work (r_type req) (th_work th (r_type req) @ [req]) th) rs th =
    th\<lparr>th_work := \<lambda>k. th_work th k @ filter (\<lambda>r. r_type r = k) rs\<rparr>"
  using assms by (induction rs arbitrary: th) (auto simp: fun_eq_iff)

lemma enqueue_work:
  assumes "list_all (\<lambda>r. r_type r \<noteq> 0) (th_work th 0 @ reqs)" "\<forall>k. k \<noteq> 0 \<longrightarrow> th_work th k = []"
  shows "thread_enqueue reqs th = th\<lparr>th_work := \<lambda>k. filter (\<lambda>r. r_type r = k) (th_work th 0 @ reqs)\<rparr>"
proof -
  have "filter (\<lambda>r. r_type r = 0) (th_work th 0 @ reqs) = []"
    using assms(1) by (auto simp: filter_empty_conv list_all_iff)
  moreover have "thread_enqueue reqs th =
      th\<lparr>th_work := \<lambda>k. (if k = 0 then [] else th_work th k) @ filter (\<lambda>r. r_type r = k) (th_work th 0 @ reqs)\<rparr>"
    unfolding thread_enqueue_def by (subst enqueue_fold [OF assms(1)]) (simp add: fun_upd_def)
  moreover have "(if k = 0 then [] else th_work th k) = []" for k using assms(2) by simp
  ultimately show ?thesis by simp
qed

lemma requeue_fold:
  assumes "distinct ks" "0 \<notin> set ks"
  shows "fold (\<lambda>i th. set_work i [] (set_work 0 (th_work th 0 @ th_work th i) th)) ks th =
    th\<lparr>th_work := \<lambda>k. if k = 0 then th_work th 0 @ concat (map (th_work th) ks)
                     else if k \<in> set ks then [] else th_work th k\<rparr>"
  using assms
proof (induction ks arbitrary: th)
  case (Cons k ks)
  let ?th = "set_work k [] (set_work 0 (th_work th 0 @ th_work th k) th)"
  have k: "0 \<noteq> k" "k \<notin> set ks" "distinct ks" "0 \<notin> set ks" using Cons.prems by auto
  have "map (th_work ?th) ks = map (th_work th) ks" using k by (auto simp: map_eq_conv)
  then have "(\<lambda>a. if a = 0 then th_work ?th 0 @ concat (map (th_work ?th) ks) else if a \<in> set ks then [] else th_work ?th a) =
      (\<lambda>a. if a = 0 then th_work th 0 @ concat (map (th_work th) (k # ks)) else if a \<in> set (k # ks) then [] else th_work th a)"
    using k by (auto simp: fun_eq_iff simp del: map_eq_conv)
  then show ?case
    unfolding fold_Cons comp_apply Cons.IH [OF k(3,4), of ?th] by simp
next
  case Nil
  have "(\<lambda>k. if k = 0 then th_work th 0 @ concat (map (th_work th) []) else if k \<in> set [] then [] else th_work th k) = th_work th"
    by auto
  then show ?case by simp
qed

lemma requeue_work:
  "thread_requeue th =
    th\<lparr>th_work := \<lambda>k. if k = 0 then th_work th 0 @ concat (map (th_work th) [1..<LOG_NREQ])
                     else if k < LOG_NREQ then [] else th_work th k\<rparr>"
  unfolding thread_requeue_def by (subst requeue_fold) (auto simp: fun_eq_iff)

section \<open>The parts of a round\<close>

lemma reqs_ok_cong:
  assumes "th_mem th' = th_mem th" "log_leader (th_log th') = log_leader (th_log th)"
  shows "reqs_ok lc d th' = reqs_ok lc d th"
  by (rule ext) (simp only: reqs_ok_def assms)

lemma thread_swap_safe:
  assumes i: "idle lc d th"
  shows "safe ((=) d) (thread_swap lc ts th)
    (\<lambda>th1 d'. d' = d \<and> idle lc d th1 \<and> th_mem th1 = th_mem th \<and> th_work th1 = th_work th \<and>
       th_replies th1 = th_replies th \<and> log_state (th_log th1) = log_state (th_log th) \<and>
       th_sectsize th1 = th_sectsize th \<and> log_leader (th_log th1) = log_leader (th_log th)) C"
    (is "safe _ _ ?Q _")
proof -
  obtain T1 T2 where ok: "th_ok lc d T1 T2 th" using i by (auto simp: idle_def)
  have upd: "?Q (th\<lparr>th_log := log1, th_swap_ts := t\<rparr>) d"
    if "log_frame log1 = log_frame (th_log th)" "log_leader log1 = log_leader (th_log th)"
      "th_ok lc d T1' T2' (th\<lparr>th_log := log1\<rparr>)" for log1 t T1' T2'
  proof -
    have "th_ok lc d T1' T2' (th\<lparr>th_log := log1, th_swap_ts := t\<rparr>)" using that(3) by (simp add: th_ok_def)
    then show ?thesis
      using i frame_simps [OF that(1)] that(2) reqs_ok_cong [of "th\<lparr>th_log := log1, th_swap_ts := t\<rparr>" th lc d]
      by (auto simp: idle_def)
  qed
  have "safe ((=) d) (bindW (log_tryswap (lc_opts lc) (th_mem th) (th_log th) False LOG_NREQ) (\<lambda>(rv, log1).
      ret (th\<lparr>th_log := log1, th_swap_ts := f rv\<rparr>))) ?Q C" for f
    apply (rule safe_bind [OF log_tryswap_safe [OF ok]])
    subgoal for x by (cases x) (auto intro!: safe_ret dest: upd)
    done
  then show ?thesis
    unfolding thread_swap_def using i by (auto intro!: safe_ret)
qed

lemma list_all_filter: "list_all P xs \<Longrightarrow> list_all P (filter f xs)"
  by (simp add: list_all_iff)

lemma enqueue_live:
  assumes i: "idle lc d th" and r: "reqs_ok lc d th (th_work th 0 @ reqs)" and st: "k \<le> LOG_SUSPEND \<longrightarrow> log_state (th_log th) = LOGST_SERVING"
    and ok: "th_ok lc d T1 T2 th"
  shows "live lc d T1 T2 k ((thread_enqueue reqs th)\<lparr>th_reqmask := m\<rparr>)"
proof -
  let ?rs = "th_work th 0 @ reqs"
  have nz: "list_all (\<lambda>r. r_type r \<noteq> 0) ?rs"
    and ty: "\<forall>r\<in>set ?rs. r_type r \<notin> {0, LOG_LOAD, LOG_REPLAYDONE, LOG_TRIM} \<and> r_type r < LOG_NREQ"
    using r unfolding reqs_ok_def list_all_iff by fastforce+
  have e: "thread_enqueue reqs th = th\<lparr>th_work := \<lambda>k. filter (\<lambda>r. r_type r = k) ?rs\<rparr>"
    by (rule enqueue_work [OF nz]) (use i in \<open>simp add: idle_def\<close>)
  have none: "filter (\<lambda>r. r_type r = k) ?rs = []" if "k \<in> {0, LOG_LOAD, LOG_REPLAYDONE, LOG_TRIM} \<or> k \<ge> LOG_NREQ" for k
    unfolding filter_empty_conv using ty that by (metis leD)
  have fl: "th_flags th = 0" using i by (simp add: idle_def)
  have q: "queues_ok ((thread_enqueue reqs th)\<lparr>th_reqmask := m\<rparr>)"
    unfolding e queues_ok_def using none r by (auto simp: reqs_ok_def list_all_iff simp del: filter_append)
  have "trim_ready k ((thread_enqueue reqs th)\<lparr>th_reqmask := m\<rparr>)"
    unfolding e trim_ready_def using none [of LOG_TRIM] fl by simp
  moreover have "list_all (req_ok lc (length (d_journal d)) (th_mem th) (log_leader (th_log th))) (filter (\<lambda>r. r_type r = k) ?rs)" for k
    using r by (auto simp: reqs_ok_def list_all_iff)
  moreover have "th_ok lc d T1 T2 ((thread_enqueue reqs th)\<lparr>th_reqmask := m\<rparr>)"
    unfolding e using ok by (simp add: th_ok_def)
  moreover have "length (filter (\<lambda>r. r_type r = LOG_WRITE) ?rs) \<le> 1" using r by (simp add: reqs_ok_def)
  ultimately show ?thesis
    unfolding live_def using q st i none [of 0] by (simp add: e idle_def)
qed

text \<open>The options as they are checked: a trim is due before it is urgent.\<close>

definition opts_ok :: "log_opts \<Rightarrow> bool" where
  "opts_ok lo \<longleftrightarrow> trimgroup_ntx_threshold lo < trimgroup_ntx_threshold_hard lo"

lemma trim_due_live:
  assumes lv: "live lc d T1 T2 1 th" and o: "opts_ok (lc_opts lc)"
  shows "safe ((=) d) (thread_trim_due lc th)
    (\<lambda>th1 d'. d' = d \<and> live lc d T1 T2 1 th1 \<and> (\<exists>q. th1 = set_work LOG_TRIM q th)) C" (is "safe _ _ ?Q _")
proof -
  have ok: "th_ok lc d T1 T2 th" "trim_ready 1 th" using lv by (auto simp: live_def)
  have triv: "set_work LOG_TRIM (th_work th LOG_TRIM) th = th" by simp
  have same: "?Q th d" using lv triv by metis
  have new: "?Q (set_work LOG_TRIM (th_work th LOG_TRIM @ [log_trimreq]) th) d" if "th_work th LOG_TRIM = []"
  proof -
    have "live lc d T1 T2 1 (set_work LOG_TRIM [log_trimreq] th)"
      by (rule live_step [OF lv _ refl]) (use ok lv that in \<open>auto simp: th_ok_def fewer_def live_def trim_ready_def\<close>)
    then show ?thesis using that by auto
  qed
  obtain need where need: "pfs_log_need_trim (lc_opts lc) (th_log th) = Some need"
    using need_trim_some [OF ok(1)] by blast
  obtain hard where hard: "pfs_log_need_trim_hard (lc_opts lc) (th_log th) = Some hard"
    using o by (cases "pfs_log_need_trim_hard (lc_opts lc) (th_log th)")
      (auto simp: pfs_log_need_trim_hard_def opts_ok_def split: if_splits)
  show ?thesis
  proof (cases "bit (th_reqmask th) LOG_TRIM \<and> th_work th LOG_TRIM = [] \<and> need")
    case False
    then show ?thesis
      unfolding thread_trim_due_def using need same by (auto intro!: safe_ret)
  next
    case True
    have "safe ((=) d) (bindW clock_sec (\<lambda>now. bindW (if now - t \<ge> u then ret True else ret hard) (\<lambda>due.
        ret (if due then set_work LOG_TRIM (th_work th LOG_TRIM @ [log_trimreq]) th else th)))) ?Q C" for t u
      apply (rule safe_bind [OF clock_safe])
      subgoal for now using same new True by (cases "now - t \<ge> u") (auto intro!: safe_ret)
      done
    then show ?thesis
      unfolding thread_trim_due_def hard liftW_simps using True need by simp
  qed
qed

abbreviation writes :: "'cb log_req list \<Rightarrow> 'cb log_req list" where
  "writes \<equiv> filter (\<lambda>r. r_type r = LOG_WRITE)"

lemma requeue_idle:
  assumes lv: "live lc d T1 T2 LOG_NREQ th"
  shows "idle lc d (thread_requeue th)" "writes (th_work (thread_requeue th) 0) = th_work th LOG_WRITE"
proof -
  let ?rs = "concat (map (th_work th) [1..<LOG_NREQ])"
  have q: "queues_ok th" "th_work th 0 = []" "th_work th LOG_TRIM = []" "th_flags th = 0"
    using lv by (auto simp: live_def trim_ready_def)
  have e: "thread_requeue th = th\<lparr>th_work := \<lambda>k. if k = 0 then ?rs else []\<rparr>"
    unfolding requeue_work q(2) using q(1) by (auto simp: queues_ok_def fun_eq_iff)
  have r: "r_otxq r = [] \<and> r_type r \<in> {LOG_POLL, LOG_TRY_RESET_LOCK, LOG_WRITE, LOG_FLUSH, LOG_SUSPEND, LOG_RESUME, LOG_STOP} \<and>
      req_ok lc (length (d_journal d)) (th_mem th) (log_leader (th_log th)) r" if rr: "r \<in> set ?rs" for r
  proof -
    obtain k where k: "k \<in> {1..<LOG_NREQ}" "r \<in> set (th_work th k)"
      using rr unfolding set_concat set_map set_upt by blast
    have "r_type r = k" "r_otxq r = []"
      using queues_type [OF q(1), of k] queues_plain [OF q(1), of k] k by (auto simp: list_all_iff)
    moreover have "k \<noteq> LOG_LOAD" "k \<noteq> LOG_REPLAYDONE" "k \<noteq> LOG_TRIM" using k q(1,3) by (auto simp: queues_ok_def)
    moreover have "req_ok lc (length (d_journal d)) (th_mem th) (log_leader (th_log th)) r" by (rule live_req [OF lv k(2)])
    ultimately show ?thesis using k(1) by (simp, presburger)
  qed
  have f: "filter (\<lambda>r. r_type r = LOG_WRITE) (th_work th k) = (if k = LOG_WRITE then th_work th k else [])" if "k \<noteq> 0" for k
    using queues_type [OF q(1) that] by (auto simp: filter_empty_conv filter_id_conv list_all_iff)
  have "filter (\<lambda>r. r_type r = LOG_WRITE) ?rs = concat (map (\<lambda>k. if k = LOG_WRITE then th_work th k else []) [1..<LOG_NREQ])"
    unfolding filter_concat map_map comp_def by (rule arg_cong [where f = concat], rule map_cong) (auto simp: f)
  also have "\<dots> = th_work th LOG_WRITE" by (simp add: upt_rec eval_nat_numeral)
  finally have wr: "writes ?rs = th_work th LOG_WRITE" .
  then have w: "length (writes ?rs) \<le> 1" using lv by (simp add: live_def)
  have "reqs_ok lc d th ?rs" unfolding reqs_ok_def list_all_iff using r w by blast
  then have "reqs_ok lc d (thread_requeue th) ?rs" using reqs_ok_cong [of "thread_requeue th" th lc d] e by simp
  moreover have "th_ok lc d T1 T2 (thread_requeue th)" unfolding e using lv by (simp add: live_def th_ok_def)
  ultimately show "idle lc d (thread_requeue th)" unfolding idle_def using lv q(4) by (auto simp: e live_def)
  show "writes (th_work (thread_requeue th) 0) = th_work th LOG_WRITE" unfolding e using wr by simp
qed

section \<open>The round of a suspended thread\<close>

lemma loop_skip:
  assumes "i \<le> j" "j \<le> LOG_NREQ" "\<forall>k\<in>{i..<j}. \<not> bit (th_reqmask th) k \<or> th_work th k = []"
  shows "handle_req_loop (fuel + (j - i)) lc i th = handle_req_loop fuel lc j th"
  using assms
proof (induction "j - i" arbitrary: i)
  case (Suc n)
  then have ij: "i < j" "n = j - Suc i" by auto
  have "handle_req_loop (fuel + (j - i)) lc i th = handle_req_loop (fuel + (j - Suc i)) lc (Suc i) th"
    using ij Suc.prems by (auto simp: Suc_diff_Suc [OF ij(1), symmetric])
  also have "\<dots> = handle_req_loop fuel lc j th"
    by (rule Suc.hyps(1) [OF ij(2)]) (use ij Suc.prems in auto)
  finally show ?case .
qed simp

lemma handle_resume_ok:
  assumes lv: "live lc d T1 T2 LOG_NREQ th" and st: "log_state (th_log th) = LOGST_SUSPENDED"
  shows "safe ((=) d) (pfs_log_handle_resume lc th)
    (\<lambda>(rv, th') d'. rv = LOG_IO_CONT \<and> d' = d \<and> advances d th d th' \<and> (\<exists>T1' T2'. live lc d T1' T2' LOG_NREQ th')) C"
    (is "safe _ _ ?Q _")
proof -
  have q: "queues_ok th" "th_ok lc d T1 T2 th" "th_work th LOG_TRIM = []" "th_flags th = 0"
    using lv by (auto simp: live_def trim_ready_def)
  let ?th1 = "upd_log (\<lambda>log. log\<lparr>log_state := LOGST_SERVING\<rparr>) th"
  have ok1: "th_ok lc d T1 T2 ?th1" by (rule th_ok_log [OF q(2)]) simp_all
  let ?th2 = "\<lambda>log2. th\<lparr>th_log := log2, th_work := (th_work th)(LOG_RESUME := []),
      th_replies := th_replies th @ map (reply_of 0) (th_work th LOG_RESUME)\<rparr>"
  have rep: "bindW (pfs_log_reply_queue lc LOG_RESUME 0 (?th1\<lparr>th_log := log2\<rparr>)) (\<lambda>th2. ret (LOG_IO_CONT, th2)) =
      ret (LOG_IO_CONT, ?th2 log2)" for log2
    using queues_plain [OF q(1), of LOG_RESUME] by (subst reply_queue_plain) simp_all
  have Q: "?Q (LOG_IO_CONT, ?th2 log2) d"
    if a: "log_frame log2 = log_frame (th_log ?th1)" "log_leader log2 = log_leader (th_log th)"
      "th_ok lc d T1' T2' (?th1\<lparr>th_log := log2\<rparr>)" for log2 T1' T2'
  proof -
    note f = frame_simps [OF a(1)]
    have nw: "list_all (\<lambda>r. r_type r \<noteq> LOG_WRITE) (th_work th LOG_RESUME)"
      using queues_type [OF q(1), of LOG_RESUME] by (auto simp: list_all_iff)
    then have "acked (map (reply_of 0) (th_work th LOG_RESUME)) m = m" for m by (intro acked_other) simp
    then have "advances d th d (?th2 log2)" using f answered_other [OF nw] by (auto simp: advances_def outcomes_def)
    moreover have "live lc d T1' T2' LOG_NREQ (?th2 log2)"
      by (rule live_step [OF lv _ refl])
        (use a(2,3) f q lv in \<open>auto simp: th_ok_def fewer_def live_def trim_ready_def\<close>)
    ultimately show ?thesis by auto
  qed
  have "safe ((=) d) (bindW (log_tryswap (lc_opts lc) (th_mem ?th1) (th_log ?th1) True LOG_RESUME) (\<lambda>(_, log2).
      bindW (pfs_log_reply_queue lc LOG_RESUME 0 (?th1\<lparr>th_log := log2\<rparr>)) (\<lambda>th2. ret (LOG_IO_CONT, th2)))) ?Q C"
    unfolding rep
    apply (rule safe_bind [OF log_tryswap_safe [OF ok1]])
    subgoal for x
      using Q by (cases x) (auto intro!: safe_ret)
    done
  then show ?thesis
    unfolding pfs_log_handle_resume_def Let_def using st by simp
qed

lemma suspended_loop:
  assumes lv: "live lc d T1 T2 LOG_NREQ th" and st: "log_state (th_log th) = LOGST_SUSPENDED"
    and m: "\<forall>k. bit (th_reqmask th) k \<longleftrightarrow> k = LOG_RESUME" and fuel: "fuel > LOG_NREQ"
  shows "safe ((=) d) (handle_req_loop fuel lc 1 th)
    (\<lambda>r d'. \<exists>th' T1' T2'. r = Some th' \<and> advances d th d' th' \<and> live lc d' T1' T2' LOG_NREQ th') C"
    (is "safe _ _ ?Q _")
proof -
  define f where "f = fuel - LOG_NREQ"
  have f: "fuel = Suc (f + 2) + (LOG_RESUME - 1)" "f + 2 = Suc f + (LOG_NREQ - LOG_STOP)"
    "Suc (f + 2) = Suc f + (LOG_NREQ - LOG_RESUME)"
    using fuel by (auto simp: f_def)
  have l9: "handle_req_loop fuel lc 1 th = handle_req_loop (Suc (f + 2)) lc LOG_RESUME th"
    unfolding f(1) by (rule loop_skip) (use m in auto)
  have last: "handle_req_loop (f + 2) lc LOG_STOP th1 = ret (Some th1)" if "th_reqmask th1 = th_reqmask th" for th1
    unfolding f(2) by (subst loop_skip) (use m that in auto)
  have n: "Suc LOG_RESUME = LOG_STOP" by simp
  show ?thesis
  proof (cases "th_work th LOG_RESUME = []")
    case True
    have "handle_req_loop (Suc (f + 2)) lc LOG_RESUME th = ret (Some th)"
      unfolding f(3) by (subst loop_skip) (use m True in auto)
    then show ?thesis
      unfolding l9 using lv advances_refl [of d th] by (auto intro!: safe_ret)
  next
    case False
    then have "handle_req_loop (Suc (f + 2)) lc LOG_RESUME th = bindW (pfs_log_handle_resume lc th) (\<lambda>(rv, th1).
        case rv of LOG_IO_STOP \<Rightarrow> ret (Some th1) | LOG_IO_BACK \<Rightarrow> handle_req_loop (f + 2) lc LOG_TRIM th1
          | LOG_IO_CONT \<Rightarrow> handle_req_loop (f + 2) lc LOG_STOP th1)"
      unfolding handle_req_loop.simps(2) n using m by (simp add: log_req_handler_def)
    moreover have "safe ((=) d) (bindW (pfs_log_handle_resume lc th) (\<lambda>(rv, th1).
        case rv of LOG_IO_STOP \<Rightarrow> ret (Some th1) | LOG_IO_BACK \<Rightarrow> handle_req_loop (f + 2) lc LOG_TRIM th1
          | LOG_IO_CONT \<Rightarrow> handle_req_loop (f + 2) lc LOG_STOP th1)) ?Q C"
    proof (rule safe_bind [OF handle_resume_ok [OF lv st]], goal_cases)
      case (1 x)
      obtain rv th1 where x: "x = (rv, th1)" by (cases x)
      show ?case
        unfolding x prod.case
      proof (rule safe_pre, elim conjE exE, goal_cases)
        case (1 d1 T1' T2')
        have "th_reqmask th1 = th_reqmask th" using 1(3) by (simp add: advances_def)
        show ?case
          unfolding 1(1) log_io.case last [OF \<open>th_reqmask th1 = th_reqmask th\<close>]
          by (rule safe_ret) (use 1 in blast)
      qed
    qed
    ultimately show ?thesis unfolding l9 by simp
  qed
qed

section \<open>A round\<close>

text \<open>What a crash during a round with the requests \<open>reqs\<close> leaves on the device.\<close>

definition survives :: "log_conf \<Rightarrow> 'cb lthread \<Rightarrow> 'cb log_req list \<Rightarrow> pbd \<Rightarrow> bool" where
  "survives lc th reqs d \<longleftrightarrow> finds lc (th_sectsize th) (th_mem th) d \<or>
     (\<exists>req\<in>set reqs. \<exists>tx. r_type req = LOG_WRITE \<and> r_itx req = Some tx \<and>
        finds lc (th_sectsize th) (apply_ops (tx_jops tx) (th_mem th)) d)"

definition round_done ::
    "log_conf \<Rightarrow> 'cb lthread \<Rightarrow> 'cb log_req list \<Rightarrow> 'cb lthread option \<Rightarrow> pbd \<Rightarrow> bool" where
  "round_done lc th reqs r d \<longleftrightarrow>
     (case r of
        None \<Rightarrow> False
      | Some th' \<Rightarrow> idle lc d th' \<and> th_sectsize th' = th_sectsize th \<and>
          (\<exists>rs. th_replies th' = th_replies th @ rs \<and> th_mem th' = acked rs (th_mem th) \<and>
             answered_writes (writes reqs) rs (writes (th_work th' 0))))"

definition round_fuel :: "'cb log_req list \<Rightarrow> nat" where
  "round_fuel reqs = Suc (LOG_NREQ + 8 * (2 + length (filter (\<lambda>r. r_type r = LOG_FLUSH) reqs)))"

lemma bit_resume: "bit (push_bit LOG_RESUME (1 :: u32)) k \<longleftrightarrow> k = LOG_RESUME"
  unfolding bit_push_bit_iff bit_1_iff by auto

lemma reqmask_bits:
  "log_state log = LOGST_SERVING \<Longrightarrow> pfs_writable (log_mount log) \<Longrightarrow>
     \<exists>m. log_reqmask log = Some m \<and> bit m LOG_TRIM \<and> \<not> bit m LOG_RESUME"
  "log_state log = LOGST_SUSPENDED \<Longrightarrow> \<exists>m. log_reqmask log = Some m \<and> (\<forall>k. bit m k \<longleftrightarrow> k = LOG_RESUME)"
proof -
  assume "log_state log = LOGST_SUSPENDED"
  then have "log_reqmask log = Some (push_bit LOG_RESUME 1)" by (simp add: log_reqmask_def)
  then show "\<exists>m. log_reqmask log = Some m \<and> (\<forall>k. bit m k \<longleftrightarrow> k = LOG_RESUME)" using bit_resume by blast
qed (auto simp: log_reqmask_def Let_def bit_simps)

lemma dispatch_ok:
  assumes i: "idle lc d th" and r: "reqs_ok lc d th (th_work th 0 @ reqs)" and o: "opts_ok (lc_opts lc)"
    and st: "log_state (th_log th) \<noteq> LOGST_STOP" and fuel: "fuel \<ge> round_fuel (th_work th 0 @ reqs)"
  shows "\<exists>m. log_reqmask (th_log (thread_enqueue reqs th)) = Some m \<and>
    safe ((=) d) (bindW (thread_trim_due lc ((thread_enqueue reqs th)\<lparr>th_reqmask := m\<rparr>)) (\<lambda>th3.
        bindW (pfs_log_handle_req fuel lc th3) (\<lambda>r. ret (map_option thread_requeue r))))
      (round_done lc th (th_work th 0 @ reqs)) (survives lc th (th_work th 0 @ reqs))"
proof -
  let ?rs = "th_work th 0 @ reqs"
  obtain T1 T2 where ok: "th_ok lc d T1 T2 th" using i by (auto simp: idle_def)
  have nz: "list_all (\<lambda>r. r_type r \<noteq> 0) ?rs"
    using r unfolding reqs_ok_def list_all_iff by fastforce
  have e: "thread_enqueue reqs th = th\<lparr>th_work := \<lambda>k. filter (\<lambda>r. r_type r = k) ?rs\<rparr>"
    by (rule enqueue_work [OF nz]) (use i in \<open>simp add: idle_def\<close>)
  let ?th2 = "\<lambda>m. (thread_enqueue reqs th)\<lparr>th_reqmask := m\<rparr>"
  have out: "survives lc th ?rs d'" if "crash_ok lc (th_sectsize th1) th1 d'" "th_mem th1 = th_mem th"
      "th_sectsize th1 = th_sectsize th" "set (th_work th1 LOG_WRITE) \<subseteq> {r \<in> set ?rs. r_type r = LOG_WRITE}" for d' th1
    using that unfolding crash_ok_def outcomes_def survives_def by auto
  have fin: "round_done lc th ?rs (map_option thread_requeue r) d'"
    if r: "\<exists>th' T1' T2'. r = Some th' \<and> advances d th1 d' th' \<and> live lc d' T1' T2' LOG_NREQ th'"
      and th1: "th_replies th1 = th_replies th" "th_mem th1 = th_mem th" "th_sectsize th1 = th_sectsize th"
        "th_work th1 LOG_WRITE = writes ?rs" for r d' th1
  proof -
    obtain th' T1' T2' where th': "r = Some th'" "advances d th1 d' th'" "live lc d' T1' T2' LOG_NREQ th'" using r by blast
    have "th_replies (thread_requeue th') = th_replies th'" "th_mem (thread_requeue th') = th_mem th'"
      "th_log (thread_requeue th') = th_log th'" by (simp_all add: requeue_work)
    then show ?thesis
      using th'(2) requeue_idle [OF th'(3)] th1 unfolding round_done_def advances_def th'(1) option.map option.case
      by (simp only: simp_thms)
  qed
  have go: "safe ((=) d) (bindW (handle_req_loop fuel lc 1 th1) (\<lambda>r. ret (map_option thread_requeue r)))
      (round_done lc th ?rs) (survives lc th ?rs)"
    if "safe ((=) d) (handle_req_loop fuel lc 1 th1) (\<lambda>r d'. \<exists>th' T1' T2'. r = Some th' \<and> advances d th1 d' th' \<and>
        live lc d' T1' T2' LOG_NREQ th') (crash_ok lc (th_sectsize th1) th1)"
      "th_replies th1 = th_replies th" "th_mem th1 = th_mem th" "th_sectsize th1 = th_sectsize th"
      "th_work th1 LOG_WRITE = filter (\<lambda>r. r_type r = LOG_WRITE) ?rs" for th1
  proof (rule safe_bind_crash [OF that(1)])
    fix r :: "'a lthread option"
    show "safe (\<lambda>d'. \<exists>th' T1' T2'. r = Some th' \<and> advances d th1 d' th' \<and> live lc d' T1' T2' LOG_NREQ th')
        (ret (map_option thread_requeue r)) (round_done lc th ?rs) (survives lc th ?rs)"
      by (rule safe_ret, rule fin [OF _ that(2-5)])
  qed (rule out [OF _ that(3,4)], use that(5) in auto)
  show ?thesis
  proof (cases "log_state (th_log th) = LOGST_SERVING")
    case True
    have "pfs_writable (log_mount (th_log th))" using ok by (simp add: th_ok_def log_inv_def)
    then obtain m where m: "log_reqmask (th_log th) = Some m" "bit m LOG_TRIM" "\<not> bit m LOG_RESUME"
      using reqmask_bits(1) True by blast
    have lv: "live lc d T1 T2 1 (?th2 m)" by (rule enqueue_live [OF i r _ ok]) (use True in simp)
    have "safe ((=) d) (bindW (handle_req_loop fuel lc 1 th3) (\<lambda>r. ret (map_option thread_requeue r)))
        (round_done lc th ?rs) (survives lc th ?rs)" if "live lc d T1 T2 1 th3" "th3 = set_work LOG_TRIM q (?th2 m)" for th3 q
    proof (rule go)
      show "safe ((=) d) (handle_req_loop fuel lc 1 th3) (\<lambda>r d'. \<exists>th' T1' T2'. r = Some th' \<and> advances d th3 d' th' \<and>
        live lc d' T1' T2' LOG_NREQ th') (crash_ok lc (th_sectsize th3) th3)"
        by (rule handle_req_loop_ok [OF that(1)])
          (use m fuel in \<open>auto simp: that(2) e backs_def groups_def round_fuel_def\<close>)
    qed (simp_all add: that(2) e)
    then have "safe ((=) d) (bindW (thread_trim_due lc (?th2 m)) (\<lambda>th3.
        bindW (handle_req_loop fuel lc 1 th3) (\<lambda>r. ret (map_option thread_requeue r))))
      (round_done lc th ?rs) (survives lc th ?rs)"
      by - (rule safe_bind [OF trim_due_live [OF lv o]], rule safe_pre, auto)
    then show ?thesis using m(1) by (simp add: e pfs_log_handle_req_def)
  next
    case False
    then have su: "log_state (th_log th) = LOGST_SUSPENDED" using i st by (auto simp: idle_def)
    obtain m where m: "log_reqmask (th_log th) = Some m" "\<forall>k. bit m k \<longleftrightarrow> k = LOG_RESUME"
      using reqmask_bits(2) su by blast
    have lv: "live lc d T1 T2 LOG_NREQ (?th2 m)" by (rule enqueue_live [OF i r _ ok]) simp
    have t: "thread_trim_due lc (?th2 m) = ret (?th2 m)" using m(2) by (simp add: thread_trim_due_def)
    have "safe ((=) d) (bindW (handle_req_loop fuel lc 1 (?th2 m)) (\<lambda>r. ret (map_option thread_requeue r)))
        (round_done lc th ?rs) (survives lc th ?rs)"
      by (rule go [OF suspended_loop [OF lv]]) (use su m(2) fuel in \<open>auto simp: e round_fuel_def\<close>)
    then show ?thesis using m(1) t by (auto simp: e pfs_log_handle_req_def)
  qed
qed

lemma log_thread_round_ok:
  assumes i: "idle lc d th" and r: "reqs_ok lc d th (th_work th 0 @ reqs)" and o: "opts_ok (lc_opts lc)"
    and st: "log_state (th_log th) \<noteq> LOGST_STOP" and fuel: "fuel \<ge> round_fuel (th_work th 0 @ reqs)"
  shows "safe ((=) d) (log_thread_round fuel lc reqs th) (round_done lc th (th_work th 0 @ reqs)) (survives lc th (th_work th 0 @ reqs))"
  unfolding log_thread_round_def
proof (rule safe_bind [OF clock_safe], rule safe_bind [OF thread_swap_safe [OF i]], rule safe_pre, elim conjE, goal_cases)
  case (1 ts th1 d1)
  have r1: "reqs_ok lc d th1 (th_work th1 0 @ reqs)" using r reqs_ok_cong [OF 1(3,8)] 1(4) by simp
  obtain m where m: "log_reqmask (th_log (thread_enqueue reqs th1)) = Some m"
    "safe ((=) d) (bindW (thread_trim_due lc ((thread_enqueue reqs th1)\<lparr>th_reqmask := m\<rparr>)) (\<lambda>th3.
        bindW (pfs_log_handle_req fuel lc th3) (\<lambda>r. ret (map_option thread_requeue r))))
      (round_done lc th1 (th_work th1 0 @ reqs)) (survives lc th1 (th_work th1 0 @ reqs))"
    using dispatch_ok [OF 1(2) r1 o] st fuel 1(4,6) by auto
  have "round_done lc th1 = round_done lc th" "survives lc th1 = survives lc th"
    by (intro ext, simp only: round_done_def survives_def 1)+
  then show ?case using m 1(1,4) by (simp add: Let_def)
qed

end
