(* ===== verification/Pool_Spec.thy ===== *)
theory Pool_Spec
  imports Pfs_Prelude
begin

text \<open>
  The contract between an object allocator and its clients: a pool hands out free objects
  and takes them back. The metadata layer (\<open>pfs_meta.cc\<close>) allocates block tags, directory
  entries and inodes through it; the allocation-node tree (\<open>Anode\<close>) provides it. What a
  client may rely on for any sequence of calls is proved once, from the contract.
\<close>

datatype 'v pool_op = Take | Give 'v

text \<open>
  A client's history: it keeps the objects it holds and only returns what it holds. A
  refused allocation changes nothing; the result is \<open>None\<close> when the pool aborts or the
  client returns an object it does not hold.
\<close>

fun run_ops ::
    "('p \<Rightarrow> ('e + 'v \<times> 'p) option) \<Rightarrow> ('p \<Rightarrow> 'v \<Rightarrow> 'p option) \<Rightarrow> 'v pool_op list \<Rightarrow>
     'p \<times> 'v list \<Rightarrow> ('p \<times> 'v list) option" where
  "run_ops tak giv [] ph = Some ph"
| "run_ops tak giv (Take # ops) (p, held) =
     (case tak p of
        None \<Rightarrow> None
      | Some (Inl e) \<Rightarrow> run_ops tak giv ops (p, held)
      | Some (Inr (v, p')) \<Rightarrow> run_ops tak giv ops (p', v # held))"
| "run_ops tak giv (Give v # ops) (p, held) =
     (if v \<in> set held then
        (case giv p v of
           None \<Rightarrow> None
         | Some p' \<Rightarrow> run_ops tak giv ops (p', remove1 v held))
      else None)"

text \<open>The histories of a client that returns only what it holds.\<close>

fun legal_ops ::
    "('p \<Rightarrow> ('e + 'v \<times> 'p) option) \<Rightarrow> ('p \<Rightarrow> 'v \<Rightarrow> 'p option) \<Rightarrow> 'v pool_op list \<Rightarrow>
     'p \<times> 'v list \<Rightarrow> bool" where
  "legal_ops tak giv [] ph = True"
| "legal_ops tak giv (Take # ops) (p, held) =
     (case tak p of
        None \<Rightarrow> True
      | Some (Inl e) \<Rightarrow> legal_ops tak giv ops (p, held)
      | Some (Inr (v, p')) \<Rightarrow> legal_ops tak giv ops (p', v # held))"
| "legal_ops tak giv (Give v # ops) (p, held) =
     (v \<in> set held \<and>
      (case giv p v of None \<Rightarrow> True | Some p' \<Rightarrow> legal_ops tak giv ops (p', remove1 v held)))"

locale obj_pool =
  fixes inv :: "'p \<Rightarrow> bool"
    and objs :: "'p \<Rightarrow> 'v set"
    and frees :: "'p \<Rightarrow> 'v set"
    and tak :: "'p \<Rightarrow> ('e + 'v \<times> 'p) option"
    and giv :: "'p \<Rightarrow> 'v \<Rightarrow> 'p option"
  assumes tak_total: "inv p \<Longrightarrow> tak p \<noteq> None"
    and tak_ok: "inv p \<Longrightarrow> tak p = Some (Inr (v, p')) \<Longrightarrow>
      v \<in> frees p \<and> inv p' \<and> objs p' = objs p \<and> frees p' = frees p - {v}"
    and giv_ok: "inv p \<Longrightarrow> v \<in> objs p \<Longrightarrow> v \<notin> frees p \<Longrightarrow>
      \<exists>p'. giv p v = Some p' \<and> inv p' \<and> objs p' = objs p \<and> frees p' = insert v (frees p)"
    and frees_objs: "inv p \<Longrightarrow> frees p \<subseteq> objs p"
begin

text \<open>The history invariant: held objects are distinct, none of them is free, and held and
  free objects together are those that were free at the start.\<close>

definition held_ok where
  "held_ok F p held \<longleftrightarrow>
     inv p \<and> distinct held \<and> set held \<inter> frees p = {} \<and> set held \<union> frees p = F \<and> F \<subseteq> objs p"

lemma held_ok_tak:
  assumes "held_ok F p held" "tak p = Some (Inr (v, p'))"
  shows "held_ok F p' (v # held)"
  using assms tak_ok [of p v p'] by (auto simp: held_ok_def)

lemma held_ok_giv:
  assumes "held_ok F p held" "v \<in> set held"
  obtains p' where "giv p v = Some p'" "held_ok F p' (remove1 v held)"
proof -
  have "\<exists>p'. giv p v = Some p' \<and> inv p' \<and> objs p' = objs p \<and> frees p' = insert v (frees p)"
    using assms by (intro giv_ok) (auto simp: held_ok_def)
  then obtain p' where p': "giv p v = Some p'" "inv p'" "objs p' = objs p" "frees p' = insert v (frees p)"
    by blast
  then have "held_ok F p' (remove1 v held)"
    using assms unfolding held_ok_def by (simp add: set_remove1_eq) blast
  with p'(1) show thesis by (rule that)
qed

lemma run_ops_held_ok:
  "held_ok F p held \<Longrightarrow> run_ops tak giv ops (p, held) = Some (p', held') \<Longrightarrow> held_ok F p' held'"
proof (induction ops arbitrary: p held)
  case (Cons op ops)
  then show ?case
    by (cases op)
      (auto split: option.splits sum.splits if_splits dest: held_ok_tak elim: held_ok_giv)
qed simp

lemma run_ops_total:
  "held_ok F p held \<Longrightarrow> legal_ops tak giv ops (p, held) \<Longrightarrow> run_ops tak giv ops (p, held) \<noteq> None"
proof (induction ops arbitrary: p held)
  case (Cons op ops)
  have "tak p \<noteq> None"
    using Cons.prems(1) by (intro tak_total) (simp add: held_ok_def)
  with Cons show ?case
    by (cases op)
      (auto split: option.splits sum.splits if_splits dest: held_ok_tak elim: held_ok_giv)
qed simp

lemma run_ops_no_double:
  assumes "inv p" "run_ops tak giv ops (p, []) = Some (p', held)"
  shows "distinct held \<and> set held \<inter> frees p' = {} \<and> set held \<union> frees p' = frees p"
  using run_ops_held_ok [of "frees p" p "[]" ops p' held] assms frees_objs [of p]
  by (simp add: held_ok_def)

lemma run_ops_never_aborts:
  assumes "inv p" "legal_ops tak giv ops (p, [])"
  shows "run_ops tak giv ops (p, []) \<noteq> None"
  using run_ops_total [of "frees p" p "[]" ops] assms frees_objs [of p] by (simp add: held_ok_def)

end

end
