(* ===== verification/Anode.thy ===== *)
theory Anode
  imports Pfs_Prelude Pool_Spec
begin

text \<open>
  The allocation-node tree of \<open>pfs_core/pfs_alloc.cc\<close>. A leaf owns the free bitmap of
  one metaset (the objects of one type in one chunk); an internal node only counts the
  free objects below it. The mount keeps one two-level tree per object type
  (\<open>pfs_init_anode\<close> in \<open>pfs_mount.cc\<close>).

  The callbacks of \<open>pfs_anode_t\<close> are arguments: \<open>allocfunc\<close> reads the host, the undo and
  redo callbacks may change the host and further state, which is threaded through. The
  anode's own fields are a record, the tree a datatype; a node without children is a leaf,
  which is how the code tells them apart (\<open>an_nchild == 0\<close>). The free callback
  \<open>pfs_metaset_free\<close> has an empty body and is left out.

  Invariant \<open>anode_wf\<close> and abstraction \<open>free_vals\<close> (the numbers of the free objects)
  carry the correctness lemmas: allocation takes exactly one free object that the host
  accepts, it fails only when there is none, and freeing puts exactly one back.
\<close>

section \<open>Data\<close>

record anode_info =
  an_id :: u64
  an_shift :: nat
  an_nall :: nat
  an_nfree :: int
  an_next :: nat
  an_free_bmp :: "u64 list"

datatype 'h anode = Anode (an_info: anode_info) (an_host: 'h) (an_children: "'h anode list")

abbreviation an_nchild :: "'h anode \<Rightarrow> nat" where
  "an_nchild an \<equiv> length (an_children an)"

abbreviation nfree :: "'h anode \<Rightarrow> int" where
  "nfree an \<equiv> an_nfree (an_info an)"

text \<open>The bitmap is a fixed array; a leaf whose invariant holds never indexes past it.\<close>

definition bmp_word :: "u64 list \<Rightarrow> nat \<Rightarrow> u64" where
  "bmp_word bmp i = (if i < length bmp then bmp ! i else 0)"

section \<open>Operations\<close>

text \<open>\<open>MONO_MAKE\<close> of \<open>pfs_meta.h\<close>.\<close>

definition MONO_MAKE :: "u64 \<Rightarrow> u64 \<Rightarrow> u64" where
  "MONO_MAKE hi lo = hi OR lo"

text \<open>The counter always moves by \<open>delta\<close>; only a leaf flips the bit of \<open>val\<close>, and
  only for an odd \<open>delta\<close>.\<close>

fun pfs_anode_nfree_inc :: "'h anode \<Rightarrow> u64 \<Rightarrow> int \<Rightarrow> 'h anode" where
  "pfs_anode_nfree_inc (Anode a h cs) val delta =
     (let a1 = a\<lparr>an_nfree := an_nfree a + delta\<rparr>;
          i = unat val div 64;
          flip = push_bit (unat val mod 64) (word_of_int delta AND 1)
      in Anode (if cs = []
                then a1\<lparr>an_free_bmp := (an_free_bmp a1)[i := bmp_word (an_free_bmp a1) i XOR flip]\<rparr>
                else a1) h cs)"

definition pfs_anode_isfree_obj :: "anode_info \<Rightarrow> nat \<Rightarrow> bool" where
  "pfs_anode_isfree_obj a val \<longleftrightarrow>
     bmp_word (an_free_bmp a) (val div 64) AND push_bit (val mod 64) 1 \<noteq> 0"

definition set_next :: "nat \<Rightarrow> 'h anode \<Rightarrow> 'h anode" where
  "set_next n an = Anode ((an_info an)\<lparr>an_next := n\<rparr>) (an_host an) (an_children an)"

text \<open>
  The \<open>do ... while\<close> of the leaf case: from \<open>an_next\<close> once around the range, stopping at
  the first object that is free in the bitmap and that \<open>allocfunc\<close> takes. The result is
  that object and the position after it.
\<close>

fun leaf_scan :: "('h \<Rightarrow> u64 \<Rightarrow> bool) \<Rightarrow> 'h \<Rightarrow> anode_info \<Rightarrow> nat list \<Rightarrow> nat option" where
  "leaf_scan allocfunc h a [] = None"
| "leaf_scan allocfunc h a (nxt # rest) =
     (if pfs_anode_isfree_obj a nxt \<and> allocfunc h (of_nat nxt) then Some nxt
      else leaf_scan allocfunc h a rest)"

definition anode_alloc_leaf ::
    "('h \<Rightarrow> u64 \<Rightarrow> bool) \<Rightarrow> anode_info \<Rightarrow> 'h \<Rightarrow> (int + u64 \<times> 'h anode) option" where
  "anode_alloc_leaf allocfunc a h =
     (if an_next a < an_nall a then
        (case leaf_scan allocfunc h a (circular (an_next a) (an_nall a)) of
           Some n \<Rightarrow>
             let an = pfs_anode_nfree_inc (Anode a h []) (of_nat n) (-1);
                 nxt = (if n + 1 \<ge> an_nall a then 0 else n + 1)
             in Some (Inr (MONO_MAKE (push_bit (an_shift a) (an_id a)) (of_nat n),
                           set_next nxt an))
         | None \<Rightarrow> Some (Inl (- EBUSY)))
      else None)"

text \<open>The first loop of the internal case: index and count of the child with most free
  objects, \<open>None\<close> for \<open>maxindx = -1\<close>.\<close>

fun max_child :: "'h anode list \<Rightarrow> nat \<Rightarrow> int \<Rightarrow> nat option \<Rightarrow> nat option" where
  "max_child [] i maxfree maxindx = maxindx"
| "max_child (can # cs) i maxfree maxindx =
     (if nfree can > maxfree then max_child cs (Suc i) (nfree can) (Some i)
      else max_child cs (Suc i) maxfree maxindx)"

text \<open>The second loop: children from \<open>maxindx\<close> once around, the first that has free
  objects and allocates. \<open>rs ! i\<close> is the result of allocating from child \<open>i\<close>; only the
  results of children the loop reaches are used.\<close>

fun alloc_from ::
    "'h anode list \<Rightarrow> (int + u64 \<times> 'h anode) option list \<Rightarrow> nat list \<Rightarrow>
     (int + nat \<times> u64 \<times> 'h anode) option" where
  "alloc_from cs rs [] = Some (Inl (- ENOSPC))"
| "alloc_from cs rs (i # is) =
     (if nfree (cs ! i) > 0 then
        (case rs ! i of
           None \<Rightarrow> None
         | Some (Inr (v, can)) \<Rightarrow> Some (Inr (i, v, can))
         | Some (Inl e) \<Rightarrow> alloc_from cs rs is)
      else alloc_from cs rs is)"

fun pfs_anode_alloc ::
    "('h \<Rightarrow> u64 \<Rightarrow> bool) \<Rightarrow> 'h anode \<Rightarrow> (int + u64 \<times> 'h anode) option" where
  "pfs_anode_alloc allocfunc (Anode a h cs) =
     (if cs = [] then anode_alloc_leaf allocfunc a h
      else
        (case max_child cs 0 0 None of
           None \<Rightarrow> Some (Inl (- ENOSPC))
         | Some m \<Rightarrow>
             (case alloc_from cs (map (pfs_anode_alloc allocfunc) cs) (circular m (length cs)) of
                None \<Rightarrow> None
              | Some (Inl e) \<Rightarrow> Some (Inl e)
              | Some (Inr (i, v, can)) \<Rightarrow>
                  Some (Inr (MONO_MAKE (push_bit (an_shift a) (an_id a)) v,
                             pfs_anode_nfree_inc (Anode a h (cs[i := can])) (of_nat i) (-1))))))"

text \<open>
  \<open>ci = val >> children[0]->an_shift\<close> in an \<open>int\<close>, asserted to be a child index, and the
  mask that leaves the child's own part of the number.
\<close>

definition anode_child_index :: "'h anode list \<Rightarrow> u64 \<Rightarrow> nat option" where
  "anode_child_index cs val =
     (let ci = sint (ucast (drop_bit (an_shift (an_info (hd cs))) val) :: u32)
      in if 0 \<le> ci \<and> ci < int (length cs) then Some (nat ci) else None)"

definition anode_submask :: "'h anode \<Rightarrow> u64 \<Rightarrow> u64" where
  "anode_submask can val = val AND (push_bit (an_shift (an_info can)) 1 - 1)"

fun pfs_anode_free :: "'h anode \<Rightarrow> u64 \<Rightarrow> 'h anode option" where
  "pfs_anode_free (Anode a h cs) val =
     (if cs = [] then
        let an = pfs_anode_nfree_inc (Anode a h []) val 1
        in Some (set_next (min (unat val) (an_next a)) an)
      else
        (case anode_child_index cs val of
           None \<Rightarrow> None
         | Some ci \<Rightarrow>
             (case map (\<lambda>can. pfs_anode_free can (anode_submask can val)) cs ! ci of
                None \<Rightarrow> None
              | Some can \<Rightarrow> Some (pfs_anode_nfree_inc (Anode a h (cs[ci := can])) (of_nat ci) 1))))"

fun pfs_anode_visit ::
    "('h anode \<Rightarrow> u64 \<Rightarrow> 's \<Rightarrow> 'h anode \<times> 's) \<Rightarrow> 'h anode \<Rightarrow> u64 \<Rightarrow> 's \<Rightarrow> ('h anode \<times> 's) option" where
  "pfs_anode_visit visfn (Anode a h cs) val s =
     (if cs = [] then Some (visfn (Anode a h []) val s)
      else
        (case anode_child_index cs val of
           None \<Rightarrow> None
         | Some ci \<Rightarrow>
             (case map (\<lambda>can. pfs_anode_visit visfn can (anode_submask can val) s) cs ! ci of
                None \<Rightarrow> None
              | Some (can, s1) \<Rightarrow> Some (visfn (Anode a h (cs[ci := can])) val s1))))"

fun pfs_anode_get :: "('h \<Rightarrow> u64 \<Rightarrow> 'r option) \<Rightarrow> 'h anode \<Rightarrow> u64 \<Rightarrow> 'r option" where
  "pfs_anode_get getfunc (Anode a h cs) val =
     (if cs = [] then getfunc h val
      else
        (case anode_child_index cs val of
           None \<Rightarrow> None
         | Some ci \<Rightarrow> map (\<lambda>can. pfs_anode_get getfunc can (anode_submask can val)) cs ! ci))"

text \<open>
  \<open>pfs_anode_undo\<close> and \<open>pfs_anode_redo\<close> are the same code around their callback: the
  callback returns the change of the free count, which every node on the path adds.
\<close>

fun anode_apply ::
    "('h \<Rightarrow> u64 \<Rightarrow> 's \<Rightarrow> (int \<times> 'h \<times> 's) option) \<Rightarrow> 'h anode \<Rightarrow> u64 \<Rightarrow> 's \<Rightarrow>
     (int \<times> 'h anode \<times> 's) option" where
  "anode_apply fn (Anode a h cs) val s =
     (if cs = [] then
        (case fn h val s of
           None \<Rightarrow> None
         | Some (delta, h1, s1) \<Rightarrow>
             Some (delta, set_next 0 (pfs_anode_nfree_inc (Anode a h1 []) val delta), s1))
      else
        (case anode_child_index cs val of
           None \<Rightarrow> None
         | Some ci \<Rightarrow>
             (case map (\<lambda>can. anode_apply fn can (anode_submask can val) s) cs ! ci of
                None \<Rightarrow> None
              | Some (delta, can, s1) \<Rightarrow>
                  Some (delta, pfs_anode_nfree_inc (Anode a h (cs[ci := can])) (of_nat ci) delta, s1))))"

definition pfs_anode_undo where "pfs_anode_undo = anode_apply"

definition pfs_anode_redo where "pfs_anode_redo = anode_apply"

text \<open>Post-order walk; the first negative code is kept.\<close>

fun pfs_anode_walk :: "('h anode \<Rightarrow> 's \<Rightarrow> int \<times> 's) \<Rightarrow> 'h anode \<Rightarrow> 's \<Rightarrow> int \<times> 's" where
  "pfs_anode_walk walkfn (Anode a h cs) s =
     (let (err, s1) =
        fold (\<lambda>can (err, s). let (err1, s') = pfs_anode_walk walkfn can s in (err_update err err1, s'))
          cs (0, s);
        (err1, s2) = walkfn (Anode a h cs) s1
      in (err_update err err1, s2))"

text \<open>\<open>pfs_init_anode\<close> (\<open>pfs_mount.cc\<close>): the root over the chunks' leaves.\<close>

definition pfs_init_anode :: "'h \<Rightarrow> 'h anode list \<Rightarrow> 'h anode" where
  "pfs_init_anode h cans =
     Anode \<lparr>an_id = 0, an_shift = 0, an_nall = sum_list (map (an_nall \<circ> an_info) cans),
            an_nfree = sum_list (map nfree cans), an_next = 0,
            an_free_bmp = replicate 40 0\<rparr> h cans"

section \<open>Invariant and abstraction\<close>

text \<open>How many local object numbers a node covers.\<close>

fun an_span :: "'h anode \<Rightarrow> nat" where
  "an_span (Anode a h cs) =
     (if cs = [] then an_nall a else length cs * 2 ^ an_shift (an_info (hd cs)))"

definition leaf_wf :: "anode_info \<Rightarrow> bool" where
  "leaf_wf a \<longleftrightarrow> an_next a < an_nall a \<and> an_nall a \<le> 64 * length (an_free_bmp a) \<and>
     an_nall a \<le> 2 ^ 32 \<and>
     an_nfree a = int (length (filter (pfs_anode_isfree_obj a) [0..<an_nall a]))"

definition children_wf :: "anode_info \<Rightarrow> 'h anode list \<Rightarrow> bool" where
  "children_wf a cs \<longleftrightarrow>
     (let s = an_shift (an_info (hd cs)) in
      s \<le> 32 \<and> length cs < 2 ^ 31 \<and> an_nfree a = sum_list (map nfree cs) \<and>
      (\<forall>i<length cs. an_id (an_info (cs ! i)) = of_nat i \<and> an_shift (an_info (cs ! i)) = s \<and>
         an_span (cs ! i) \<le> 2 ^ s))"

fun anode_wf :: "'h anode \<Rightarrow> bool" where
  "anode_wf (Anode a h cs) =
     (if cs = [] then leaf_wf a else children_wf a cs \<and> list_all anode_wf cs)"

fun free_vals :: "'h anode \<Rightarrow> u64 set" where
  "free_vals (Anode a h cs) =
     (if cs = [] then of_nat ` set (filter (pfs_anode_isfree_obj a) [0..<an_nall a])
      else (\<Union>i\<in>{..<length cs}.
              (\<lambda>v. push_bit (an_shift (an_info (hd cs))) (of_nat i) OR v) ` (map free_vals cs ! i)))"

text \<open>All object numbers below a node, free or not.\<close>

fun all_vals :: "'h anode \<Rightarrow> u64 set" where
  "all_vals (Anode a h cs) =
     (if cs = [] then of_nat ` {..<an_nall a}
      else (\<Union>i\<in>{..<length cs}.
              (\<lambda>v. push_bit (an_shift (an_info (hd cs))) (of_nat i) OR v) ` (map all_vals cs ! i)))"

text \<open>Whether the host of the leaf that owns \<open>v\<close> would take it.\<close>

definition accepts :: "('h \<Rightarrow> u64 \<Rightarrow> bool) \<Rightarrow> 'h anode \<Rightarrow> u64 \<Rightarrow> bool" where
  "accepts f an v \<longleftrightarrow> pfs_anode_get (\<lambda>h v. Some (f h v)) an v = Some True"

section \<open>Leaves\<close>

lemma pfs_anode_isfree_obj_bit:
  "pfs_anode_isfree_obj a k \<longleftrightarrow> bit (bmp_word (an_free_bmp a) (k div 64)) (k mod 64)"
  by (simp add: pfs_anode_isfree_obj_def word_and_push_bit_one_iff del: push_bit_of_1)

lemma bmp_word_update:
  "i < length bmp \<Longrightarrow> bmp_word (bmp[i := w]) j = (if i = j then w else bmp_word bmp j)"
  by (simp add: bmp_word_def)

lemma parity_word: "(word_of_int d AND 1 :: u64) = of_bool (odd d)"
  by (rule bit_word_eqI) (auto simp: bit_simps bit_0)

lemma bit_flip:
  "n < 64 \<Longrightarrow> m < 64 \<Longrightarrow>
     bit (push_bit m (word_of_int d AND 1 :: u64)) n \<longleftrightarrow> n = m \<and> odd d"
  by (auto simp: parity_word bit_simps)

lemma nfree_inc_isfree:
  assumes "unat v < 64 * length (an_free_bmp a)"
  shows "pfs_anode_isfree_obj (an_info (pfs_anode_nfree_inc (Anode a h []) v d)) k \<longleftrightarrow>
         (if k = unat v \<and> odd d then \<not> pfs_anode_isfree_obj a k else pfs_anode_isfree_obj a k)"
proof -
  have i: "unat v div 64 < length (an_free_bmp a)"
    using assms by (simp add: less_mult_imp_div_less mult.commute)
  have eq: "k = unat v \<longleftrightarrow> k div 64 = unat v div 64 \<and> k mod 64 = unat v mod 64"
    by (metis div_mult_mod_eq)
  have fl: "bit (push_bit (unat v mod 64) (word_of_int d AND 1 :: u64)) (j mod 64) \<longleftrightarrow>
            j mod 64 = unat v mod 64 \<and> odd d" for j
    by (rule bit_flip) simp_all
  show ?thesis
    by (auto simp: pfs_anode_isfree_obj_bit bmp_word_update i eq bit_xor_iff fl Let_def
        simp del: push_bit_and)
qed

lemma leaf_scan_Some:
  "leaf_scan f h a ns = Some n \<Longrightarrow>
     n \<in> set ns \<and> pfs_anode_isfree_obj a n \<and> f h (of_nat n)"
  by (induction ns) (auto split: if_splits)

lemma leaf_scan_None:
  "leaf_scan f h a ns = None \<Longrightarrow>
     \<forall>n\<in>set ns. pfs_anode_isfree_obj a n \<longrightarrow> \<not> f h (of_nat n)"
  by (induction ns) (auto split: if_splits)

lemma length_filter_flip:
  fixes P Q :: "nat \<Rightarrow> bool"
  assumes "n < N" "\<And>k. Q k = (if k = n then b else P k)"
  shows "int (length (filter Q [0..<N])) =
         int (length (filter P [0..<N])) + of_bool b - of_bool (P n)"
proof -
  have s: "[0..<N] = [0..<n] @ n # [Suc n..<N]"
    using assms(1) upt_add_eq_append [of 0 n "N - n"] by (simp add: upt_conv_Cons)
  have "filter Q [0..<n] = filter P [0..<n]" "filter Q [Suc n..<N] = filter P [Suc n..<N]"
    by (auto intro!: filter_cong simp: assms(2))
  then show ?thesis
    unfolding s using assms(2) [of n] by simp
qed

lemma nfree_inc_fields [simp]:
  "an_id (an_info (pfs_anode_nfree_inc an v d)) = an_id (an_info an)"
  "an_shift (an_info (pfs_anode_nfree_inc an v d)) = an_shift (an_info an)"
  "an_nall (an_info (pfs_anode_nfree_inc an v d)) = an_nall (an_info an)"
  "an_next (an_info (pfs_anode_nfree_inc an v d)) = an_next (an_info an)"
  "nfree (pfs_anode_nfree_inc an v d) = nfree an + d"
  "length (an_free_bmp (an_info (pfs_anode_nfree_inc an v d))) = length (an_free_bmp (an_info an))"
  "an_host (pfs_anode_nfree_inc an v d) = an_host an"
  "an_children (pfs_anode_nfree_inc an v d) = an_children an"
  by (cases an; simp add: Let_def)+

lemma set_next_fields [simp]:
  "an_id (an_info (set_next n an)) = an_id (an_info an)"
  "an_shift (an_info (set_next n an)) = an_shift (an_info an)"
  "an_nall (an_info (set_next n an)) = an_nall (an_info an)"
  "an_next (an_info (set_next n an)) = n"
  "nfree (set_next n an) = nfree an"
  "an_free_bmp (an_info (set_next n an)) = an_free_bmp (an_info an)"
  "an_host (set_next n an) = an_host an"
  "an_children (set_next n an) = an_children an"
  by (simp_all add: set_next_def)

lemma isfree_set_next [simp]:
  "pfs_anode_isfree_obj (an_info (set_next n an)) = pfs_anode_isfree_obj (an_info an)"
  by (simp add: fun_eq_iff pfs_anode_isfree_obj_def)

text \<open>Flipping the bit of \<open>n\<close> keeps a leaf well formed when the count moves with it.\<close>

lemma leaf_wf_flip:
  assumes wf: "leaf_wf a" and n: "unat v < an_nall a" and m: "m < an_nall a"
    and d: "d = (if pfs_anode_isfree_obj a (unat v) then -1 else 1)"
  shows "leaf_wf (an_info (set_next m (pfs_anode_nfree_inc (Anode a h []) v d)))"
proof -
  let ?a = "an_info (set_next m (pfs_anode_nfree_inc (Anode a h []) v d))"
  have len: "unat v < 64 * length (an_free_bmp a)"
    using wf n by (simp add: leaf_wf_def)
  have fr: "pfs_anode_isfree_obj ?a k =
      (if k = unat v then \<not> pfs_anode_isfree_obj a (unat v) else pfs_anode_isfree_obj a k)" for k
    using nfree_inc_isfree [OF len, of h d k] d by (auto simp: split: if_splits)
  show ?thesis
    using wf m length_filter_flip [OF n fr] d
    by (auto simp: leaf_wf_def simp del: pfs_anode_nfree_inc.simps)
qed

lemma mem_free_vals_leaf:
  assumes "an_children an = []" "an_nall (an_info an) \<le> 2 ^ 32"
  shows "v \<in> free_vals an \<longleftrightarrow> unat v < an_nall (an_info an) \<and> pfs_anode_isfree_obj (an_info an) (unat v)"
proof -
  have "unat (of_nat k :: u64) = k" if "k < an_nall (an_info an)" for k
    using that assms(2) by (simp add: unat_of_nat)
  then show ?thesis
    using assms(1) by (cases an) (force simp: image_iff)
qed

lemma mem_all_vals_leaf:
  assumes "an_children an = []" "an_nall (an_info an) \<le> 2 ^ 32"
  shows "v \<in> all_vals an \<longleftrightarrow> unat v < an_nall (an_info an)"
proof -
  have "unat (of_nat k :: u64) = k" if "k < an_nall (an_info an)" for k
    using that assms(2) by (simp add: unat_of_nat)
  then show ?thesis
    using assms(1) by (cases an) (force simp: image_iff)
qed

lemma free_vals_flip:
  assumes wf: "leaf_wf a" and n: "unat v < an_nall a" and d: "odd d"
  shows "free_vals (set_next m (pfs_anode_nfree_inc (Anode a h []) v d)) =
         (if pfs_anode_isfree_obj a (unat v) then free_vals (Anode a h []) - {v}
          else insert v (free_vals (Anode a h [])))"
proof -
  have len: "unat v < 64 * length (an_free_bmp a)" and le: "an_nall a \<le> 2 ^ 32"
    using wf n by (auto simp: leaf_wf_def)
  show ?thesis
    using d n le nfree_inc_isfree [OF len, of h d] 
    by (auto simp: mem_free_vals_leaf word_unat_eq_iff simp del: pfs_anode_nfree_inc.simps free_vals.simps split: if_splits)
qed


section \<open>Internal nodes\<close>

lemma children_wf_child:
  assumes "children_wf a cs" "i < length cs"
  shows "an_id (an_info (cs ! i)) = of_nat i" "an_shift (an_info (cs ! i)) = an_shift (an_info (hd cs))"
    "an_span (cs ! i) \<le> 2 ^ an_shift (an_info (hd cs))"
    "an_shift (an_info (hd cs)) \<le> 32" "unat (of_nat i :: u64) = i" "i < 2 ^ 31"
  using assms by (auto simp: children_wf_def Let_def unat_of_nat)

lemma anode_child_index_join:
  assumes "children_wf a cs" "i < length cs" "unat v < an_span (cs ! i)"
  shows "anode_child_index cs (push_bit (an_shift (an_info (hd cs))) (of_nat i) OR v) = Some i"
    and "anode_submask (cs ! i) (push_bit (an_shift (an_info (hd cs))) (of_nat i) OR v) = v"
proof -
  note c = children_wf_child [OF assms(1,2)]
  let ?s = "an_shift (an_info (hd cs))"
  have v: "unat v < 2 ^ ?s"
    using assms(3) c(3) by simp
  have "drop_bit ?s (push_bit ?s (of_nat i) OR v) = (of_nat i :: u64)"
    using v c by (intro drop_bit_join [where t = 31]) auto
  moreover have "sint (ucast (of_nat i :: u64) :: u32) = int i"
    using c(6) by (simp add: unsigned_of_nat signed_of_nat take_bit_nat_eq_self signed_take_bit_int_eq_self)
  ultimately show "anode_child_index cs (push_bit ?s (of_nat i) OR v) = Some i"
    using assms(2) by (simp add: anode_child_index_def)
  show "anode_submask (cs ! i) (push_bit ?s (of_nat i) OR v) = v"
    using v c by (simp add: anode_submask_def and_mask_join del: push_bit_of_1)
qed

text \<open>One child's part of the numbers below an internal node.\<close>

abbreviation join :: "'h anode list \<Rightarrow> nat \<Rightarrow> u64 \<Rightarrow> u64" where
  "join cs i v \<equiv> push_bit (an_shift (an_info (hd cs))) (of_nat i) OR v"

lemma unat_join:
  assumes "children_wf a cs" "i < length cs" "unat v < an_span (cs ! i)"
  shows "unat (join cs i v) = i * 2 ^ an_shift (an_info (hd cs)) + unat v"
proof -
  note c = children_wf_child [OF assms(1,2)]
  let ?s = "an_shift (an_info (hd cs))"
  have v: "unat v < 2 ^ ?s"
    using assms(3) c(3) by simp
  have d: "drop_bit ?s (join cs i v) = of_nat i"
    using v c by (intro drop_bit_join [where t = 31]) auto
  have t: "take_bit ?s (join cs i v) = v"
    using v c(4) and_mask_join [of v ?s "of_nat i"]
    by (simp add: take_bit_eq_mask mask_eq_exp_minus_1)
  have "unat (drop_bit ?s x) = unat x div 2 ^ ?s" "unat (take_bit ?s x) = unat x mod 2 ^ ?s" for x :: u64
    by (simp_all add: unat_drop_bit_eq unsigned_take_bit_eq flip: drop_bit_eq_div take_bit_eq_mod)
  then have "unat (join cs i v) = unat (drop_bit ?s (join cs i v)) * 2 ^ ?s + unat (take_bit ?s (join cs i v))"
    by (metis div_mult_mod_eq)
  then show ?thesis
    by (simp only: d t c(5))
qed

lemma free_vals_subset: "free_vals an \<subseteq> all_vals an"
proof (induction an)
  case (Anode a h cs)
  then show ?case
    by (cases "cs = []") (auto, blast intro: nth_mem)
qed

lemma all_vals_span: "anode_wf an \<Longrightarrow> v \<in> all_vals an \<Longrightarrow> unat v < an_span an"
proof (induction an arbitrary: v)
  case (Anode a h cs)
  show ?case
  proof (cases "cs = []")
    case True
    with Anode.prems show ?thesis
      using mem_all_vals_leaf [of "Anode a h cs" v] by (simp add: leaf_wf_def del: all_vals.simps)
  next
    case False
    with Anode.prems obtain i w where i: "i < length cs" and w: "w \<in> all_vals (cs ! i)"
      and v: "v = join cs i w" by auto
    have wf: "children_wf a cs" "anode_wf (cs ! i)"
      using Anode.prems False i by (auto simp: list_all_length)
    have "unat w < an_span (cs ! i)"
      using Anode.IH wf w i by simp
    moreover have "an_span (cs ! i) \<le> 2 ^ an_shift (an_info (hd cs))"
      by (rule children_wf_child [OF wf(1) i])
    moreover have "Suc i * 2 ^ an_shift (an_info (hd cs)) \<le> length cs * 2 ^ an_shift (an_info (hd cs))"
      using i by (intro mult_le_mono1) simp
    ultimately show ?thesis
      using v unat_join [OF wf(1) i] False by simp
  qed
qed

lemma free_vals_span: "anode_wf an \<Longrightarrow> v \<in> free_vals an \<Longrightarrow> unat v < an_span an"
  using all_vals_span free_vals_subset by blast

lemma join_eq_iff:
  assumes "children_wf a cs" "i < length cs" "j < length cs"
    "unat v < an_span (cs ! i)" "unat w < an_span (cs ! j)"
  shows "join cs i v = join cs j w \<longleftrightarrow> i = j \<and> v = w"
  by (metis assms anode_child_index_join option.inject)

lemma mem_free_vals_internal:
  assumes "anode_wf (Anode a h cs)" "i < length cs" "unat v < an_span (cs ! i)"
  shows "join cs i v \<in> free_vals (Anode a h cs) \<longleftrightarrow> v \<in> free_vals (cs ! i)"
proof -
  have cs: "cs \<noteq> []" "children_wf a cs" and wf: "\<And>j. j < length cs \<Longrightarrow> anode_wf (cs ! j)"
    using assms by (auto simp: list_all_length split: if_splits)
  show ?thesis
  proof
    assume "join cs i v \<in> free_vals (Anode a h cs)"
    with cs(1) obtain j u where j: "j < length cs" "u \<in> free_vals (cs ! j)" "join cs i v = join cs j u"
      by auto
    then have "i = j \<and> v = u"
      using join_eq_iff [OF cs(2) assms(2) j(1) assms(3)] free_vals_span [OF wf] by blast
    with j show "v \<in> free_vals (cs ! i)" by simp
  next
    assume "v \<in> free_vals (cs ! i)"
    with cs(1) assms(2) show "join cs i v \<in> free_vals (Anode a h cs)" by auto
  qed
qed

lemma accepts_join:
  assumes "anode_wf (Anode a h cs)" "i < length cs" "unat v < an_span (cs ! i)"
  shows "accepts f (Anode a h cs) (join cs i v) \<longleftrightarrow> accepts f (cs ! i) v"
proof -
  have cs: "cs \<noteq> []" "children_wf a cs"
    using assms by (auto split: if_splits)
  show ?thesis
    using cs anode_child_index_join [OF cs(2) assms(2,3)] assms(2) by (simp add: accepts_def)
qed

text \<open>The counter of a well-formed node is the number of free objects.\<close>

lemma finite_free_vals [simp]: "finite (free_vals an)"
  by (rule finite)

lemma nfree_card: "anode_wf an \<Longrightarrow> nfree an = int (card (free_vals an))"
proof (induction an)
  case (Anode a h cs)
  show ?case
  proof (cases "cs = []")
    case True
    with Anode.prems have wf: "leaf_wf a" by simp
    have inj: "inj_on (of_nat :: nat \<Rightarrow> u64) {k. k < an_nall a \<and> pfs_anode_isfree_obj a k}"
      using wf by (intro inj_onI) (auto simp: leaf_wf_def dest!: arg_cong [where f = unat] simp: unat_of_nat)
    have "{k. k < an_nall a \<and> pfs_anode_isfree_obj a k} = set (filter (pfs_anode_isfree_obj a) [0..<an_nall a])"
      by auto
    then have "card {k. k < an_nall a \<and> pfs_anode_isfree_obj a k} =
               length (filter (pfs_anode_isfree_obj a) [0..<an_nall a])"
      by (metis distinct_card distinct_filter distinct_upt)
    with True wf show ?thesis
      by (simp add: card_image [OF inj] leaf_wf_def)
  next
    case False
    with Anode.prems have wf: "children_wf a cs" "\<And>j. j < length cs \<Longrightarrow> anode_wf (cs ! j)"
      by (auto simp: list_all_length)
    let ?F = "\<lambda>i. join cs i ` free_vals (cs ! i)"
    have sp: "unat v < an_span (cs ! i)" if "i < length cs" "v \<in> free_vals (cs ! i)" for i v
      using that wf free_vals_span by blast
    have "card (\<Union>i\<in>{..<length cs}. ?F i) = (\<Sum>i<length cs. card (?F i))"
      using sp join_eq_iff [OF wf(1)] by (intro card_UN_disjoint) fastforce+
    also have "\<dots> = (\<Sum>i<length cs. card (free_vals (cs ! i)))"
    proof (rule sum.cong)
      fix i assume "i \<in> {..<length cs}"
      then show "card (?F i) = card (free_vals (cs ! i))"
        using sp join_eq_iff [OF wf(1)] by (intro card_image inj_onI) fastforce
    qed simp
    also have "int \<dots> = (\<Sum>i<length cs. nfree (cs ! i))"
      using Anode.IH wf by (simp add: of_nat_sum)
    also have "\<dots> = sum_list (map nfree cs)"
      by (simp add: sum_list_sum_nth atLeast0LessThan)
    finally show ?thesis
      using False wf(1) by (simp add: children_wf_def Let_def)
  qed
qed


section \<open>Allocation\<close>

lemma max_child_bounds:
  "max_child cs i mf mi = Some m \<Longrightarrow> (mi = Some m \<or> i \<le> m \<and> m < i + length cs)"
  by (induction cs arbitrary: i mf mi) (fastforce split: if_splits)+

lemma max_child_None:
  "max_child cs i mf mi = None \<Longrightarrow> mi = None \<and> (\<forall>c\<in>set cs. nfree c \<le> mf)"
proof (induction cs arbitrary: i mf mi)
  case (Cons c cs)
  show ?case
  proof (cases "nfree c > mf")
    case True
    with Cons.IH [of "Suc i" "nfree c" "Some i"] Cons.prems show ?thesis by simp
  next
    case False
    with Cons.IH [of "Suc i" mf mi] Cons.prems show ?thesis by simp
  qed
qed simp

lemma alloc_from_None: "alloc_from cs rs is = None \<Longrightarrow> \<exists>i\<in>set is. rs ! i = None"
  by (induction "is") (auto split: if_splits option.splits sum.splits)

lemma alloc_from_Inl:
  "alloc_from cs rs is = Some (Inl e) \<Longrightarrow>
     e = - ENOSPC \<and> (\<forall>i\<in>set is. nfree (cs ! i) > 0 \<longrightarrow> (\<exists>e. rs ! i = Some (Inl e)))"
  by (induction "is") (auto split: if_splits option.splits sum.splits)

lemma alloc_from_Inr:
  "alloc_from cs rs is = Some (Inr (i, v, can)) \<Longrightarrow>
     i \<in> set is \<and> nfree (cs ! i) > 0 \<and> rs ! i = Some (Inr (v, can))"
  by (induction "is") (auto split: if_splits option.splits sum.splits)

text \<open>
  One object \<open>v\<close> changed its state by \<open>d\<close> (\<open>1\<close> freed, \<open>-1\<close> taken, \<open>0\<close> unchanged) and
  nothing else did.
\<close>

definition upd_post :: "'h anode \<Rightarrow> u64 \<Rightarrow> int \<Rightarrow> 'h anode \<Rightarrow> bool" where
  "upd_post an v d an' \<longleftrightarrow>
     anode_wf an' \<and> an_span an' = an_span an \<and>
     an_id (an_info an') = an_id (an_info an) \<and> an_shift (an_info an') = an_shift (an_info an) \<and>
     nfree an' = nfree an + d \<and> all_vals an' = all_vals an \<and>
     free_vals an' = (if d = 1 then insert v (free_vals an)
                      else if d = -1 then free_vals an - {v} else free_vals an)"

text \<open>What allocation promises of one node: it takes one free object the host accepts,
  and nothing else changes; a refusal means no free object is acceptable.\<close>

definition alloc_post ::
    "('h \<Rightarrow> u64 \<Rightarrow> bool) \<Rightarrow> 'h anode \<Rightarrow> (int + u64 \<times> 'h anode) option \<Rightarrow> bool" where
  "alloc_post f an r \<longleftrightarrow>
     (case r of
        None \<Rightarrow> False
      | Some (Inl e) \<Rightarrow> (e = - EBUSY \<or> e = - ENOSPC) \<and> (\<forall>v\<in>free_vals an. \<not> accepts f an v)
      | Some (Inr (val, an')) \<Rightarrow>
          \<exists>v\<in>free_vals an. accepts f an v \<and>
            val = MONO_MAKE (push_bit (an_shift (an_info an)) (an_id (an_info an))) v \<and>
            upd_post an v (-1) an')"

lemma anode_wf_leaf: "an_children an = [] \<Longrightarrow> anode_wf an \<longleftrightarrow> leaf_wf (an_info an)"
  by (cases an) simp

lemma an_span_leaf: "an_children an = [] \<Longrightarrow> an_span an = an_nall (an_info an)"
  by (cases an) simp

lemma accepts_leaf: "an_children an = [] \<Longrightarrow> accepts f an v \<longleftrightarrow> f (an_host an) v"
  by (cases an) (simp add: accepts_def)

lemma all_vals_leaf_upd [simp]:
  "all_vals (set_next m (pfs_anode_nfree_inc (Anode a h1 []) v d)) = of_nat ` {..<an_nall a}"
  by (simp add: set_next_def Let_def)

lemma leaf_upd_post:
  assumes wf: "leaf_wf a" and v: "unat v < an_nall a" and m: "m < an_nall a"
    and d: "d \<in> {-1, 0, 1}" "d = -1 \<Longrightarrow> v \<in> free_vals (Anode a h [])" "d = 1 \<Longrightarrow> v \<notin> free_vals (Anode a h [])"
  shows "upd_post (Anode a h []) v d (set_next m (pfs_anode_nfree_inc (Anode a h1 []) v d))"
proof -
  let ?an = "Anode a h []"
  let ?an' = "set_next m (pfs_anode_nfree_inc (Anode a h1 []) v d)"
  have len: "unat v < 64 * length (an_free_bmp a)" and le: "an_nall a \<le> 2 ^ 32"
    using wf v by (auto simp: leaf_wf_def)
  have fr: "v \<in> free_vals ?an \<longleftrightarrow> pfs_anode_isfree_obj a (unat v)"
    using mem_free_vals_leaf [of ?an v] le v by simp
  have hh: "free_vals (Anode a h1 []) = free_vals ?an" by simp
  show ?thesis
  proof (cases "d = 0")
    case True
    have "pfs_anode_isfree_obj (an_info ?an') k = pfs_anode_isfree_obj a k" for k
      using nfree_inc_isfree [OF len, of h1 0 k] True by (simp del: pfs_anode_nfree_inc.simps)
    then have e: "pfs_anode_isfree_obj (an_info ?an') = pfs_anode_isfree_obj a"
      by blast
    have "leaf_wf (an_info ?an')"
      using wf m True unfolding leaf_wf_def e by (simp del: pfs_anode_nfree_inc.simps)
    moreover have "free_vals ?an' = free_vals ?an"
      using le mem_free_vals_leaf [of ?an'] mem_free_vals_leaf [of ?an] e
      by (auto simp del: pfs_anode_nfree_inc.simps free_vals.simps)
    ultimately show ?thesis
      using True by (simp add: upd_post_def anode_wf_leaf an_span_leaf del: pfs_anode_nfree_inc.simps free_vals.simps)
  next
    case False
    then have d': "d = (if pfs_anode_isfree_obj a (unat v) then -1 else 1)" "odd d"
      using d fr by auto
    show ?thesis
      using leaf_wf_flip [OF wf v m d'(1), of h1] free_vals_flip [OF wf v d'(2), of m h1] d' hh
      by (auto simp: upd_post_def anode_wf_leaf an_span_leaf simp del: pfs_anode_nfree_inc.simps free_vals.simps)
  qed
qed

lemma alloc_leaf_post:
  assumes wf: "leaf_wf a"
  shows "alloc_post f (Anode a h []) (anode_alloc_leaf f a h)"
proof -
  let ?an = "Anode a h []"
  have n: "an_next a < an_nall a" and le: "an_nall a \<le> 2 ^ 32"
    using wf by (auto simp: leaf_wf_def)
  have mem: "v \<in> free_vals ?an \<longleftrightarrow> unat v < an_nall a \<and> pfs_anode_isfree_obj a (unat v)" for v
    using mem_free_vals_leaf [of ?an v] le by simp
  show ?thesis
  proof (cases "leaf_scan f h a (circular (an_next a) (an_nall a))")
    case None
    have "\<not> f h v" if "v \<in> free_vals ?an" for v
      using leaf_scan_None [OF None] n that mem by (auto simp: less_imp_le dest: bspec [of _ _ "unat v"])
    then show ?thesis
      using None n by (auto simp: alloc_post_def anode_alloc_leaf_def accepts_leaf)
  next
    case (Some m)
    from leaf_scan_Some [OF this] n have m: "m < an_nall a" "pfs_anode_isfree_obj a m" "f h (of_nat m)"
      by auto
    have u: "unat (of_nat m :: u64) = m"
      using m(1) le by (simp add: unat_of_nat)
    let ?nxt = "if m + 1 \<ge> an_nall a then 0 else m + 1"
    let ?an' = "set_next ?nxt (pfs_anode_nfree_inc ?an (of_nat m) (-1))"
    have "of_nat m \<in> free_vals ?an" "?nxt < an_nall a"
      using m u mem by auto
    moreover from this have "upd_post ?an (of_nat m) (-1) ?an'"
      using m u wf by (intro leaf_upd_post) auto
    moreover have "anode_alloc_leaf f a h =
        Some (Inr (MONO_MAKE (push_bit (an_shift a) (an_id a)) (of_nat m), ?an'))"
      using Some n by (simp add: anode_alloc_leaf_def Let_def del: pfs_anode_nfree_inc.simps)
    ultimately show ?thesis
      using m(3) by (auto intro!: bexI [of _ "of_nat m"] simp: alloc_post_def accepts_leaf
          simp del: pfs_anode_nfree_inc.simps free_vals.simps)
  qed
qed

text \<open>Replacing one child.\<close>

lemma UN_change_one:
  assumes F': "\<And>j. j < n \<Longrightarrow> F' j = (if j \<noteq> i then F j else if d = 1 then insert w (F j)
      else if d = (-1::int) then F j - {w} else F j)"
    and i: "i < n"
    and inj: "\<And>j u. j < n \<Longrightarrow> u \<in> F j \<Longrightarrow> J j u = J i w \<Longrightarrow> j = i \<and> u = w"
  shows "(\<Union>j\<in>{..<n::nat}. J j ` F' j) =
    (if d = 1 then insert (J i w) (\<Union>j\<in>{..<n}. J j ` F j)
     else if d = -1 then (\<Union>j\<in>{..<n}. J j ` F j) - {J i w} else (\<Union>j\<in>{..<n}. J j ` F j))"
    (is "?A = ?B")
proof (intro set_eqI iffI)
  fix x assume "x \<in> ?A"
  then obtain j u where j: "j < n" "u \<in> F' j" "x = J j u" by blast
  then have "(u \<in> F j \<or> d = 1 \<and> j = i \<and> u = w) \<and> (d = -1 \<longrightarrow> \<not> (j = i \<and> u = w))"
    using F' [OF j(1)] by (auto split: if_splits)
  then show "x \<in> ?B"
    using j inj by (auto split: if_splits)
next
  fix x assume "x \<in> ?B"
  then obtain j u where "j < n" "x = J j u"
    "(u \<in> F j \<and> (d = -1 \<longrightarrow> x \<noteq> J i w)) \<or> (d = 1 \<and> j = i \<and> u = w)"
    using i by (auto split: if_splits)
  moreover from this have "u \<in> F' j"
    using F' [of j] by (auto split: if_splits)
  ultimately show "x \<in> ?A" by blast
qed

lemma upd_post_internal:
  assumes wf: "anode_wf (Anode a h cs)" and i: "i < length cs" and w: "w \<in> all_vals (cs ! i)"
    and c: "upd_post (cs ! i) w d c"
  shows "upd_post (Anode a h cs) (join cs i w) d (pfs_anode_nfree_inc (Anode a h (cs[i := c])) x d)"
proof -
  let ?an' = "pfs_anode_nfree_inc (Anode a h (cs[i := c])) x d"
  have cs: "cs \<noteq> []" "children_wf a cs" "list_all anode_wf cs"
    using wf i by (auto split: if_splits)
  have wfc: "anode_wf (cs ! j)" if "j < length cs" for j
    using cs(3) that by (simp add: list_all_length)
  have hd: "an_shift (an_info (hd (cs[i := c]))) = an_shift (an_info (hd cs))"
    using cs(1) i c by (cases cs; cases i) (auto simp: upd_post_def)
  have "children_wf (a\<lparr>an_nfree := an_nfree a + d\<rparr>) (cs[i := c])"
    using cs(2) i c hd
    by (auto simp: children_wf_def upd_post_def Let_def sum_list_update_diff nth_list_update)
  moreover have "list_all anode_wf (cs[i := c])"
    using cs(3) i c by (auto simp: upd_post_def list_all_length nth_list_update)
  ultimately have 1: "anode_wf ?an'"
    using cs(1) by (simp add: Let_def)
  have 2: "an_span ?an' = an_span (Anode a h cs)"
    using cs(1) hd by (simp add: Let_def)
  have "free_vals ?an' = (\<Union>j\<in>{..<length cs}. join cs j ` (map free_vals (cs[i := c]) ! j))"
    using cs(1) hd by (simp add: Let_def)
  also have "\<dots> = (if d = 1 then insert (join cs i w) (\<Union>j\<in>{..<length cs}. join cs j ` free_vals (cs ! j))
     else if d = -1 then (\<Union>j\<in>{..<length cs}. join cs j ` free_vals (cs ! j)) - {join cs i w}
     else (\<Union>j\<in>{..<length cs}. join cs j ` free_vals (cs ! j)))"
  proof (rule UN_change_one)
    show "map free_vals (cs[i := c]) ! j = (if j \<noteq> i then free_vals (cs ! j)
        else if d = 1 then insert w (free_vals (cs ! j))
        else if d = -1 then free_vals (cs ! j) - {w} else free_vals (cs ! j))" if "j < length cs" for j
      using that i c by (simp add: upd_post_def nth_list_update)
    show "j = i \<and> u = w" if "j < length cs" "u \<in> free_vals (cs ! j)" "join cs j u = join cs i w" for j u
      using that join_eq_iff [OF cs(2) that(1) i free_vals_span [OF wfc] all_vals_span [OF wfc w]] i by blast
  qed (rule i)
  finally have 3: "free_vals ?an' = \<dots>" .
  have "map all_vals (cs[i := c]) = map all_vals cs"
    using i c by (intro nth_equalityI) (auto simp: upd_post_def nth_list_update)
  then have "all_vals ?an' = all_vals (Anode a h cs)"
    using cs(1) hd by (simp add: Let_def)
  then show ?thesis
    using 1 2 3 cs(1) by (simp add: upd_post_def)
qed

lemma pfs_anode_alloc_post: "anode_wf an \<Longrightarrow> alloc_post f an (pfs_anode_alloc f an)"
proof (induction an)
  case (Anode a h cs)
  show ?case
  proof (cases "cs = []")
    case True
    with Anode.prems show ?thesis by (simp add: alloc_leaf_post)
  next
    case False
    with Anode.prems have wf: "children_wf a cs" "\<And>j. j < length cs \<Longrightarrow> anode_wf (cs ! j)"
      by (auto simp: list_all_length)
    let ?rs = "map (pfs_anode_alloc f) cs"
    have IH: "alloc_post f (cs ! j) (?rs ! j)" if "j < length cs" for j
      using Anode.IH wf that by simp
    have none: "\<not> accepts f (Anode a h cs) v"
      if v: "v \<in> free_vals (Anode a h cs)" and c: "\<And>i. i < length cs \<Longrightarrow> nfree (cs ! i) > 0 \<Longrightarrow>
        (\<exists>e. ?rs ! i = Some (Inl e))" for v
    proof -
      from v False obtain i w where i: "i < length cs" "w \<in> free_vals (cs ! i)" "v = join cs i w"
        by auto
      then have "nfree (cs ! i) > 0"
        using nfree_card [OF wf(2)] by (auto simp: card_gt_0_iff)
      then obtain e where "?rs ! i = Some (Inl e)"
        using c i by blast
      then have "\<not> accepts f (cs ! i) w"
        using IH [OF i(1)] i(2) by (simp add: alloc_post_def)
      then show ?thesis
        using accepts_join [OF Anode.prems i(1) free_vals_span [OF wf(2) [OF i(1)] i(2)]] i by simp
    qed
    show ?thesis
    proof (cases "max_child cs 0 0 None")
      case None
      then have "nfree (cs ! i) \<le> 0" if "i < length cs" for i
        using max_child_None [OF None] that by auto
      then have "\<not> accepts f (Anode a h cs) v" if "v \<in> free_vals (Anode a h cs)" for v
        using none [OF that] by (meson not_less)
      then show ?thesis
        using None False by (simp add: alloc_post_def del: free_vals.simps)
    next
      case (Some m)
      then have m: "m < length cs"
        using max_child_bounds [OF Some] by simp
      let ?r = "alloc_from cs ?rs (circular m (length cs))"
      have ne: "?r \<noteq> None"
        using alloc_from_None IH m by (fastforce simp: alloc_post_def)
      show ?thesis
      proof (cases "the ?r")
        case (Inl e)
        with ne have r: "?r = Some (Inl e)" by auto
        from alloc_from_Inl [OF r] m have e: "e = - ENOSPC"
          "\<And>i. i < length cs \<Longrightarrow> nfree (cs ! i) > 0 \<Longrightarrow> \<exists>e. ?rs ! i = Some (Inl e)"
          by auto
        show ?thesis
          using r Some False none e by (auto simp: alloc_post_def simp del: free_vals.simps)
      next
        case (Inr x)
        obtain i v can where x: "x = (i, v, can)" by (cases x)
        with Inr ne have r: "?r = Some (Inr (i, v, can))" by auto
        from alloc_from_Inr [OF r] m have i: "i < length cs" and ri: "?rs ! i = Some (Inr (v, can))"
          by auto
        from IH [OF i] ri obtain w where w: "w \<in> free_vals (cs ! i)" "accepts f (cs ! i) w"
          and v: "v = join cs i w" and can: "upd_post (cs ! i) w (-1) can"
          using children_wf_child [OF wf(1) i] by (auto simp: alloc_post_def MONO_MAKE_def)
        note sp = free_vals_span [OF wf(2) [OF i] w(1)]
        have "w \<in> all_vals (cs ! i)" using w(1) free_vals_subset by blast
        note post = upd_post_internal [OF Anode.prems i this can, of "of_nat i"]
        show ?thesis
          using r Some False post v w(2) accepts_join [OF Anode.prems i sp]
            mem_free_vals_internal [OF Anode.prems i sp] w(1)
          by (auto simp: alloc_post_def intro!: bexI [of _ v] simp del: free_vals.simps pfs_anode_nfree_inc.simps)
      qed
    qed
  qed
qed

section \<open>Free, undo and redo\<close>

lemma pfs_anode_free_post:
  assumes "anode_wf an" "v \<in> all_vals an" "v \<notin> free_vals an"
  shows "\<exists>an'. pfs_anode_free an v = Some an' \<and> upd_post an v 1 an'"
  using assms
proof (induction an arbitrary: v)
  case (Anode a h cs)
  show ?case
  proof (cases "cs = []")
    case True
    with Anode.prems(1,2) have a: "leaf_wf a" "unat v < an_nall a"
      using mem_all_vals_leaf [of "Anode a h cs" v] by (auto simp: leaf_wf_def simp del: all_vals.simps)
    then have "upd_post (Anode a h []) v 1
        (set_next (min (unat v) (an_next a)) (pfs_anode_nfree_inc (Anode a h []) v 1))"
      using Anode.prems(3) True by (intro leaf_upd_post) (auto simp del: free_vals.simps)
    then show ?thesis
      using True by (simp del: pfs_anode_nfree_inc.simps)
  next
    case False
    with Anode.prems(2) obtain i w where i: "i < length cs" and w: "w \<in> all_vals (cs ! i)"
      and v: "v = join cs i w" by auto
    have wf: "children_wf a cs" "anode_wf (cs ! i)"
      using Anode.prems(1) False i by (auto simp: list_all_length)
    note sp = all_vals_span [OF wf(2) w]
    have "w \<notin> free_vals (cs ! i)"
      using Anode.prems(3) v False i by auto
    then obtain c where c: "pfs_anode_free (cs ! i) w = Some c" "upd_post (cs ! i) w 1 c"
      using Anode.IH [of "cs ! i" w] wf i w by auto
    show ?thesis
      using upd_post_internal [OF Anode.prems(1) i w c(2), of "of_nat i"] c(1) i v False
        anode_child_index_join [OF wf(1) i sp]
      by (simp del: pfs_anode_nfree_inc.simps)
  qed
qed

lemma anode_apply_post:
  assumes "anode_wf an" "v \<in> all_vals an" "anode_apply fn an v s = Some (d, an', s')"
    and "d \<in> {-1, 0, 1}" "d = -1 \<Longrightarrow> v \<in> free_vals an" "d = 1 \<Longrightarrow> v \<notin> free_vals an"
  shows "upd_post an v d an'"
  using assms
proof (induction an arbitrary: v an')
  case (Anode a h cs)
  show ?case
  proof (cases "cs = []")
    case True
    with Anode.prems(1,2) have a: "leaf_wf a" "unat v < an_nall a"
      using mem_all_vals_leaf [of "Anode a h cs" v] by (auto simp: leaf_wf_def simp del: all_vals.simps)
    then have "upd_post (Anode a h []) v d
        (set_next 0 (pfs_anode_nfree_inc (Anode a h1 []) v d))" for h1
      using Anode.prems(4,5,6) True by (intro leaf_upd_post) (auto simp del: free_vals.simps)
    then show ?thesis
      using True Anode.prems(3) by (auto split: option.splits simp del: pfs_anode_nfree_inc.simps)
  next
    case False
    with Anode.prems(2) obtain i w where i: "i < length cs" and w: "w \<in> all_vals (cs ! i)"
      and v: "v = join cs i w" by auto
    have wf: "children_wf a cs" "anode_wf (cs ! i)"
      using Anode.prems(1) False i by (auto simp: list_all_length)
    note sp = all_vals_span [OF wf(2) w]
    obtain c where c: "anode_apply fn (cs ! i) w s = Some (d, c, s')"
      and an': "an' = pfs_anode_nfree_inc (Anode a h (cs[i := c])) (of_nat i) d"
      using Anode.prems(3) anode_child_index_join [OF wf(1) i sp] i v False
      by (auto split: option.splits simp del: pfs_anode_nfree_inc.simps)
    have "v \<in> free_vals (Anode a h cs) \<longleftrightarrow> w \<in> free_vals (cs ! i)"
      using mem_free_vals_internal [OF Anode.prems(1) i sp] v by simp
    then have "upd_post (cs ! i) w d c"
      using Anode.IH [of "cs ! i" w c] wf i w c Anode.prems(4,5,6) by (simp del: free_vals.simps)
    then show ?thesis
      using upd_post_internal [OF Anode.prems(1) i w, of d c "of_nat i"] an' v by simp
  qed
qed

lemma pfs_anode_visit_path:
  assumes "anode_wf an" "v \<in> all_vals an"
  shows "pfs_anode_visit visfn an v s \<noteq> None"
  using assms
proof (induction an arbitrary: v)
  case (Anode a h cs)
  show ?case
  proof (cases "cs = []")
    case False
    with Anode.prems(2) obtain i w where i: "i < length cs" and w: "w \<in> all_vals (cs ! i)"
      and v: "v = join cs i w" by auto
    have wf: "children_wf a cs" "anode_wf (cs ! i)"
      using Anode.prems(1) False i by (auto simp: list_all_length)
    show ?thesis
      using Anode.IH [of "cs ! i" w] wf i w v False anode_child_index_join [OF wf(1) i all_vals_span [OF wf(2) w]]
      by (auto split: option.splits)
  qed simp
qed

section \<open>The tree is a pool\<close>

text \<open>
  The root of a tree has identifier 0, so the number it returns is the object's number.
  With the host's callback taking every free object, the tree provides the pool contract.
\<close>

definition root_wf :: "'h anode \<Rightarrow> bool" where
  "root_wf an \<longleftrightarrow> anode_wf an \<and> an_id (an_info an) = 0"

lemma upd_post_root [pfs_wf]: "root_wf an \<Longrightarrow> upd_post an v d an' \<Longrightarrow> root_wf an'"
  by (simp add: root_wf_def upd_post_def)

lemma alloc_root_ok:
  assumes "root_wf an" "pfs_anode_alloc f an = Some (Inr (v, an'))"
  shows "v \<in> free_vals an" "accepts f an v" "upd_post an v (-1) an'"
  using pfs_anode_alloc_post [of an f] assms by (auto simp: alloc_post_def root_wf_def MONO_MAKE_def)

lemma alloc_root_total: "root_wf an \<Longrightarrow> pfs_anode_alloc f an \<noteq> None"
  using pfs_anode_alloc_post [of an f] by (auto simp: alloc_post_def root_wf_def split: option.splits)

lemma alloc_root_err:
  assumes "root_wf an" "pfs_anode_alloc f an = Some (Inl e)"
  shows "(e = - EBUSY \<or> e = - ENOSPC) \<and> (\<forall>v\<in>free_vals an. \<not> accepts f an v)"
  using pfs_anode_alloc_post [of an f] assms by (simp add: alloc_post_def root_wf_def)

interpretation anode_pool: obj_pool root_wf all_vals free_vals "pfs_anode_alloc f" pfs_anode_free for f
proof
  show "pfs_anode_alloc f p \<noteq> None" if "root_wf p" for p
    by (rule alloc_root_total [OF that])
  show "v \<in> free_vals p \<and> root_wf p' \<and> all_vals p' = all_vals p \<and> free_vals p' = free_vals p - {v}"
    if "root_wf p" "pfs_anode_alloc f p = Some (Inr (v, p'))" for p v p'
    using alloc_root_ok [OF that] that(1) by (simp add: upd_post_def root_wf_def)
  show "\<exists>p'. pfs_anode_free p v = Some p' \<and> root_wf p' \<and> all_vals p' = all_vals p \<and>
      free_vals p' = insert v (free_vals p)"
    if "root_wf p" "v \<in> all_vals p" "v \<notin> free_vals p" for p v
    using pfs_anode_free_post [of p v] that by (auto simp: root_wf_def upd_post_def)
  show "free_vals p \<subseteq> all_vals p" for p
    by (rule free_vals_subset)
qed

section \<open>Properties\<close>

text \<open>A two-chunk tree for the witnesses: objects 0 and 2 of the first leaf and object 1
  of the second are free.\<close>

definition demo_leaf :: "u64 \<Rightarrow> u64 \<Rightarrow> int \<Rightarrow> unit anode" where
  "demo_leaf i bmp n = Anode \<lparr>an_id = i, an_shift = 2, an_nall = 3, an_nfree = n, an_next = 1, an_free_bmp = [bmp]\<rparr> () []"

definition demo_anode :: "unit anode" where
  "demo_anode = pfs_init_anode () [demo_leaf 0 5 2, demo_leaf 1 2 1]"

lemma demo_leaf_free:
  "filter (pfs_anode_isfree_obj (an_info (demo_leaf i 5 n))) [0..<3] = [0, 2]"
  "filter (pfs_anode_isfree_obj (an_info (demo_leaf i 2 n))) [0..<3] = [1]"
  by (simp_all add: demo_leaf_def pfs_anode_isfree_obj_def bmp_word_def upt_rec)

lemma demo_root_wf: "root_wf demo_anode"
  using demo_leaf_free
  by (simp add: root_wf_def demo_anode_def demo_leaf_def pfs_init_anode_def children_wf_def leaf_wf_def
      less_Suc_eq)

lemma demo_alloc:
  "map_option (map_sum id fst) (pfs_anode_alloc (\<lambda>_ _. True) demo_anode) = Some (Inr 2)"
  by code_simp

text \<open>Claim C7: allocation from a well-formed tree either succeeds, returning a free object
  the host's callback accepts, marking exactly that object used, decrementing the root's
  counter and keeping the invariant; or it fails with \<open>-ENOSPC\<close> or \<open>-EBUSY\<close>, and
  then no free object of the tree is acceptable. It never aborts.\<close>

theorem anode_alloc_correct:
  assumes "root_wf an"
  shows "case pfs_anode_alloc allocfunc an of
      None \<Rightarrow> False
    | Some (Inl e) \<Rightarrow> e \<in> {- EBUSY, - ENOSPC} \<and> (\<forall>v\<in>free_vals an. \<not> accepts allocfunc an v)
    | Some (Inr (v, an')) \<Rightarrow>
        v \<in> free_vals an \<and> accepts allocfunc an v \<and> root_wf an' \<and>
        free_vals an' = free_vals an - {v} \<and> nfree an' = nfree an - 1"
  using alloc_root_total [OF assms, of allocfunc] alloc_root_ok [OF assms, of allocfunc]
    alloc_root_err [OF assms, of allocfunc] assms
  by (auto simp: upd_post_def root_wf_def split: option.splits sum.splits)

theorem anode_alloc_correct_witness:
  "root_wf demo_anode \<and>
   (\<exists>an'. pfs_anode_alloc (\<lambda>_ _. True) demo_anode = Some (Inr (2, an')) \<and>
      free_vals an' = free_vals demo_anode - {2} \<and> nfree an' = 2)"
  using anode_alloc_correct [OF demo_root_wf, of "\<lambda>_ _. True"] demo_root_wf demo_alloc
  by (auto simp: map_option_case split: option.splits sum.splits)
    (simp add: demo_anode_def demo_leaf_def pfs_init_anode_def)

text \<open>Claim C4: over any history of allocations and frees of a client that frees only what
  it holds, the objects held are distinct, none of them is free in the tree, and held and
  free objects together are exactly those free at the start: nothing is handed out twice
  and nothing leaks.\<close>

theorem anode_no_double_alloc:
  assumes "root_wf an" "run_ops (pfs_anode_alloc allocfunc) pfs_anode_free ops (an, []) = Some (an', held)"
  shows "distinct held \<and> set held \<inter> free_vals an' = {} \<and> set held \<union> free_vals an' = free_vals an"
  using assms by (rule anode_pool.run_ops_no_double)

theorem anode_no_double_alloc_witness:
  "\<exists>an'. run_ops (pfs_anode_alloc (\<lambda>_ _. True)) pfs_anode_free [Take, Take, Give 2, Take] (demo_anode, [])
     = Some (an', [2, 0]) \<and> {2, 0} \<inter> free_vals an' = {} \<and> {2, 0} \<union> free_vals an' = free_vals demo_anode"
proof -
  let ?r = "run_ops (pfs_anode_alloc (\<lambda>_ _. True)) pfs_anode_free [Take, Take, Give 2, Take] (demo_anode, [])"
  have "map_option snd ?r = Some [2, 0]" by code_simp
  then obtain an' where "?r = Some (an', [2, 0])" by (auto simp del: run_ops.simps)
  from this anode_no_double_alloc [OF demo_root_wf this] show ?thesis
    by (auto simp del: run_ops.simps)
qed



text \<open>Claim C15: undo and redo of one object move exactly that object between used and free,
  by the callback's \<open>delta\<close>, on every counter of the path, and keep the invariant.\<close>

theorem anode_undo_redo_correct:
  assumes "root_wf an" "v \<in> all_vals an"
    and "pfs_anode_undo fn an v s = Some (delta, an', s') \<or> pfs_anode_redo fn an v s = Some (delta, an', s')"
    and "(delta, v \<in> free_vals an) \<in> {(-1, True), (0, True), (0, False), (1, False)}"
  shows "root_wf an' \<and> nfree an' = nfree an + delta \<and>
    free_vals an' = (if delta = 1 then insert v (free_vals an)
                     else if delta = -1 then free_vals an - {v} else free_vals an)"
proof -
  have "upd_post an v delta an'"
    using assms anode_apply_post [of an v fn s delta an' s']
    by (auto simp: root_wf_def pfs_anode_undo_def pfs_anode_redo_def)
  then show ?thesis
    using assms(1) by (simp add: upd_post_def root_wf_def)
qed

theorem anode_undo_redo_correct_witness:
  "\<exists>an'. pfs_anode_redo (\<lambda>h v s. Some (-1, h, s)) demo_anode 5 () = Some (-1, an', ()) \<and>
     root_wf an' \<and> free_vals an' = free_vals demo_anode - {5}"
proof -
  let ?r = "pfs_anode_redo (\<lambda>h v s. Some (-1, h, s)) demo_anode 5 ()"
  have "map_option (\<lambda>(d, an, s). (d, s)) ?r = Some (-1, ())" "5 \<in> free_vals demo_anode" "5 \<in> all_vals demo_anode"
    by code_simp+
  then obtain an' where "?r = Some (-1, an', ())" by auto
  with anode_undo_redo_correct [OF demo_root_wf \<open>5 \<in> all_vals demo_anode\<close>, of _ "()" "-1" an' "()"]
    \<open>5 \<in> free_vals demo_anode\<close> show ?thesis by auto
qed

end
