(* ===== verification/Util.thy ===== *)
theory Util
  imports Pfs_Prelude
begin

text \<open>
  The helpers of \<open>pfs_core/pfs_util.cc\<close>: rounding up to a power of two, the bounded string
  copy, and the growing vector of object numbers.
\<close>

section \<open>Powers of two\<close>

definition roundup_power2 :: "u64 \<Rightarrow> u64" where
  "roundup_power2 val =
     (let v = val - 1;
          v = v OR drop_bit 1 v;
          v = v OR drop_bit 2 v;
          v = v OR drop_bit 4 v;
          v = v OR drop_bit 8 v;
          v = v OR drop_bit 16 v;
          v = v OR drop_bit 32 v
      in v + 1)"

text \<open>\<open>ffs\<close> of the C library: one plus the index of the lowest bit set, 0 when there is none.\<close>

definition ffs :: "u32 \<Rightarrow> nat" where
  "ffs w = (case List.find (bit w) [0..<32] of None \<Rightarrow> 0 | Some i \<Rightarrow> Suc i)"

text \<open>Each step doubles the range of bits that are smeared to the right.\<close>

definition smeared :: "nat \<Rightarrow> u64 \<Rightarrow> u64 \<Rightarrow> bool" where
  "smeared r v w \<longleftrightarrow> (\<forall>n. bit w n \<longleftrightarrow> (\<exists>j<r. bit v (n + j)))"

lemma smeared_step:
  assumes "smeared r v w"
  shows "smeared (r + r) v (w OR drop_bit r w)"
  unfolding smeared_def
proof
  fix n
  have "bit (w OR drop_bit r w) n \<longleftrightarrow> (\<exists>j<r. bit v (n + j)) \<or> (\<exists>j<r. bit v (n + (r + j)))"
    using assms by (simp add: smeared_def bit_or_iff bit_drop_bit_eq add.commute add.left_commute)
  also have "\<dots> \<longleftrightarrow> (\<exists>j<r + r. bit v (n + j))"
  proof (intro iffI; elim disjE exE conjE)
    fix j assume "j < r + r" "bit v (n + j)"
    then show "(\<exists>j<r. bit v (n + j)) \<or> (\<exists>j<r. bit v (n + (r + j)))"
      by (cases "j < r") (auto intro: exI [of _ "j - r"])
  next
    fix j assume "j < r" "bit v (n + j)"
    then show "\<exists>j<r + r. bit v (n + j)" by (intro exI [of _ j]) simp
  next
    fix j assume "j < r" "bit v (n + (r + j))"
    then show "\<exists>j<r + r. bit v (n + j)" by (intro exI [of _ "r + j"]) simp
  qed
  finally show "bit (w OR drop_bit r w) n \<longleftrightarrow> (\<exists>j<r + r. bit v (n + j))" .
qed

lemma roundup_smeared:
  "\<exists>w. smeared 64 (val - 1) w \<and> roundup_power2 val = w + 1"
proof -
  let ?v = "val - 1"
  define w1 where "w1 = ?v OR drop_bit 1 ?v"
  define w2 where "w2 = w1 OR drop_bit 2 w1"
  define w4 where "w4 = w2 OR drop_bit 4 w2"
  define w8 where "w8 = w4 OR drop_bit 8 w4"
  define w16 where "w16 = w8 OR drop_bit 16 w8"
  define w32 where "w32 = w16 OR drop_bit 32 w16"
  have "smeared 1 ?v ?v" by (simp add: smeared_def)
  then have "smeared 2 ?v w1" using smeared_step [of 1 ?v ?v] by (simp add: w1_def numeral_2_eq_2)
  then have "smeared 4 ?v w2" using smeared_step [of 2 ?v w1] by (simp add: w2_def)
  then have "smeared 8 ?v w4" using smeared_step [of 4 ?v w2] by (simp add: w4_def)
  then have "smeared 16 ?v w8" using smeared_step [of 8 ?v w4] by (simp add: w8_def)
  then have "smeared 32 ?v w16" using smeared_step [of 16 ?v w8] by (simp add: w16_def)
  then have "smeared 64 ?v w32" using smeared_step [of 32 ?v w16] by (simp add: w32_def)
  moreover have "roundup_power2 val = w32 + 1"
    by (simp add: roundup_power2_def Let_def w1_def w2_def w4_def w8_def w16_def w32_def)
  ultimately show ?thesis by blast
qed

lemma smeared_mask:
  assumes "smeared 64 v w" "unat v < 2 ^ k" "k > 0 \<Longrightarrow> 2 ^ (k - 1) \<le> unat v" "k \<le> 64"
  shows "w = mask k"
proof (rule bit_word_eqI)
  fix n assume n: "n < LENGTH(64)"
  have vk: "take_bit k v = v"
    using assms(2) by (simp add: unsigned_take_bit_eq take_bit_nat_eq_self word_unat_eq_iff)
  have top: "i < k" if b: "bit v i" for i
    using b bit_take_bit_iff [of k v i] by (simp add: vk)
  have hi: "bit v (k - 1)" if k: "k > 0"
  proof -
    have "unat v div 2 ^ (k - 1) = 1"
      using assms(2,3) k by (intro div_nat_eqI) (auto simp: power_eq_if)
    then have "bit (unat v) (k - 1)" by (simp add: bit_iff_odd)
    then show ?thesis by (simp add: bit_unsigned_iff)
  qed
  show "bit w n \<longleftrightarrow> bit (mask k :: u64) n"
  proof
    assume "bit w n"
    then show "bit (mask k :: u64) n"
      using assms(1) top n by (fastforce simp: smeared_def bit_mask_iff)
  next
    assume "bit (mask k :: u64) n"
    then have "n < k" by (simp add: bit_mask_iff)
    then show "bit w n"
      using assms(1,4) hi n by (auto simp: smeared_def intro!: exI [of _ "k - 1 - n"])
  qed
qed

lemma roundup_least:
  assumes "0 < val" "unat val \<le> 2 ^ 63"
  shows "\<exists>k\<le>63. unat (roundup_power2 val) = 2 ^ k \<and> unat val \<le> 2 ^ k \<and> (\<forall>j. unat val \<le> 2 ^ j \<longrightarrow> k \<le> j)"
proof -
  define k where "k = (LEAST k. unat val \<le> 2 ^ k)"
  have le: "unat val \<le> 2 ^ k" unfolding k_def by (rule LeastI [of _ 63]) (rule assms(2))
  have least: "k \<le> j" if "unat val \<le> 2 ^ j" for j unfolding k_def using that by (rule Least_le)
  have k63: "k \<le> 63" using least assms(2) by blast
  have v: "unat (val - 1) = unat val - 1" using assms(1) by (simp add: unat_minus_one word_neq_0_conv)
  have pos: "0 < unat val" using assms(1) by (simp add: word_less_nat_alt)
  have "2 ^ (k - 1) \<le> unat (val - 1)" if "k > 0"
  proof -
    have "\<not> unat val \<le> 2 ^ (k - 1)" using least [of "k - 1"] that by auto
    then show ?thesis using v by linarith
  qed
  then obtain w where w: "w = mask k" "roundup_power2 val = w + 1"
    using roundup_smeared [of val] smeared_mask [of "val - 1" _ k] le v pos k63 by fastforce
  have "(mask k :: u64) + 1 = 2 ^ k" by (simp add: mask_eq_exp_minus_1)
  then have "roundup_power2 val = of_nat (2 ^ k)" using w by simp
  then have "unat (roundup_power2 val) = 2 ^ k"
    using k63 by (simp only: unsigned_of_nat) (simp add: take_bit_nat_eq_self)
  with le least k63 show ?thesis by blast
qed

text \<open>Claim C19: for \<open>1 \<le> val \<le> 2 ^ 63\<close>, \<open>roundup_power2\<close> computes by shifts and ors the least
  power of two that is not below \<open>val\<close>.\<close>

theorem roundup_power2_least:
  assumes "0 < val" "unat val \<le> 2 ^ 63"
  shows "\<exists>k\<le>63. unat (roundup_power2 val) = 2 ^ k \<and> unat val \<le> 2 ^ k \<and> (\<forall>j. unat val \<le> 2 ^ j \<longrightarrow> k \<le> j)"
  using assms by (rule roundup_least)

theorem roundup_power2_least_witness:
  "unat (roundup_power2 80) = 128"
proof -
  have "\<exists>k\<le>63. unat (roundup_power2 80) = 2 ^ k \<and> unat (80 :: u64) \<le> 2 ^ k \<and>
      (\<forall>j. unat (80 :: u64) \<le> 2 ^ j \<longrightarrow> k \<le> j)"
    by (rule roundup_power2_least) simp_all
  then obtain k where k: "unat (roundup_power2 80) = 2 ^ k" "80 \<le> (2 :: nat) ^ k"
      "\<forall>j. 80 \<le> (2 :: nat) ^ j \<longrightarrow> k \<le> j" by auto
  have "k \<le> 7" using k(3) by simp
  moreover have "\<not> k \<le> 6" using k(2) power_increasing [of k 6 "2 :: nat"] by auto
  ultimately have "k = 7" by simp
  with k(1) show ?thesis by simp
qed

section \<open>Bounded copy\<close>

text \<open>\<open>strncpy_safe\<close> on strings without the final zero: \<open>strncpy\<close> pads with zeros, the last byte
  of the buffer is set to zero, and a string that did not fit is reported.\<close>

definition c_strlen :: "string \<Rightarrow> nat" where
  "c_strlen buf = length (takeWhile (\<lambda>c. c \<noteq> CHR 0x00) buf)"

definition c_strncpy :: "string \<Rightarrow> string \<Rightarrow> nat \<Rightarrow> string" where
  "c_strncpy dst src n = take n src @ replicate (n - length src) (CHR 0x00) @ drop n dst"

definition strncpy_safe :: "string \<Rightarrow> string \<Rightarrow> nat \<Rightarrow> int \<times> string" where
  "strncpy_safe dst src n =
     (let dst1 = (c_strncpy dst src n)[n - 1 := CHR 0x00]; ncopy = c_strlen dst1
      in (if ncopy \<noteq> length src then - 1 else int ncopy, dst1))"

text \<open>Claim C20: \<open>strncpy_safe\<close> always leaves a terminated string in the buffer, the longest
  prefix of the source that fits, and reports a source that did not fit with \<open>-1\<close>.\<close>

theorem strncpy_safe_correct:
  assumes "0 < n" "n \<le> length dst" "CHR 0x00 \<notin> set src"
  shows "strncpy_safe dst src n =
    (if length src < n then (int (length src), src @ replicate (n - length src) (CHR 0x00) @ drop n dst)
     else (- 1, take (n - 1) src @ CHR 0x00 # drop n dst))"
proof (cases "length src < n")
  case True
  let ?r = "src @ replicate (n - length src) (CHR 0x00) @ drop n dst"
  have "?r[n - 1 := CHR 0x00] = ?r"
    using True by (intro list_update_same_conv [THEN iffD2]) (auto simp: nth_append)
  moreover have "takeWhile (\<lambda>c. c \<noteq> CHR 0x00) ?r = src"
    using True assms(3) by (subst takeWhile_append2) (auto simp: Suc_diff_Suc [symmetric] simp del: Suc_diff_Suc)
  ultimately show ?thesis
    using True by (simp add: strncpy_safe_def c_strncpy_def c_strlen_def Let_def)
next
  case False
  have "(take n src @ drop n dst)[n - 1 := CHR 0x00] = take (n - 1) src @ CHR 0x00 # drop n dst"
    using False assms(1,2) by (intro nth_equalityI) (auto simp: nth_append nth_list_update nth_Cons' split: if_splits)
  moreover have "takeWhile (\<lambda>c. c \<noteq> CHR 0x00) (take (n - 1) src @ CHR 0x00 # drop n dst) = take (n - 1) src"
    using assms(3) by (subst takeWhile_append2) (auto dest: in_set_takeD)
  ultimately show ?thesis
    using False assms(1) by (simp add: strncpy_safe_def c_strncpy_def c_strlen_def Let_def)
qed

theorem strncpy_safe_correct_witness:
  "strncpy_safe ''________'' ''abc'' 8 = (3, ''abc'' @ replicate 5 (CHR 0x00)) \<and>
   strncpy_safe ''________'' ''abcdefghij'' 8 = (- 1, ''abcdefg'' @ [CHR 0x00])"
  using strncpy_safe_correct [of 8 "''________''" "''abc''"] strncpy_safe_correct [of 8 "''________''" "''abcdefghij''"]
  by simp_all

section \<open>Vectors of object numbers\<close>

text \<open>\<open>ov_size\<close> counts the slots allocated; the contents are the entries up to \<open>ov_next\<close>. \<open>mem\<close>
  tells whether the two reallocations succeed.\<close>

record oidvect =
  ov_buf :: "u64 list"
  ov_holeoff_buf :: "u32 list"
  ov_size :: nat

definition oidvect_init :: oidvect where
  "oidvect_init = \<lparr>ov_buf = [], ov_holeoff_buf = [], ov_size = 0\<rparr>"

definition oidvect_push :: "bool \<times> bool \<Rightarrow> oidvect \<Rightarrow> u64 \<Rightarrow> u32 \<Rightarrow> int \<times> oidvect" where
  "oidvect_push mem ov val holeoff =
     (let full = length (ov_buf ov) \<ge> ov_size ov
      in if full \<and> \<not> (fst mem \<and> snd mem) then (- ENOMEM, ov)
         else (0, ov\<lparr>ov_buf := ov_buf ov @ [val], ov_holeoff_buf := ov_holeoff_buf ov @ [holeoff],
                     ov_size := if full then ov_size ov + 512 else ov_size ov\<rparr>))"

definition oidvect_pop :: "oidvect \<Rightarrow> u64 \<times> oidvect" where
  "oidvect_pop ov =
     (if ov_buf ov = [] then (- 1, ov)
      else (last (ov_buf ov), ov\<lparr>ov_buf := butlast (ov_buf ov), ov_holeoff_buf := butlast (ov_holeoff_buf ov)\<rparr>))"

end
