(* ===== verification/Meta.thy ===== *)
theory Meta
  imports Anode Tx Util
begin

text \<open>
  The metadata layer (\<open>pfs_core/pfs_meta.cc\<close>): the objects of a type are spread over the
  chunks' metasets and numbered by an allocation tree whose leaves are the metasets. A write
  transaction reads and changes objects through its operations (\<open>Tx\<close>); the memory itself
  changes when the transaction has been committed, or when the journal of another host is
  replayed. Free blocks whose content has not been discarded are kept in the discard index
  (\<open>pfs_bd_*\<close> of \<open>pfs_mount.cc\<close>).

  A sector buffer \<open>ms_objbuf[si]\<close> is identified by the device address of its sector. An
  object inside an operation is identified by the operation's address: where the code returns
  a pointer to \<open>top_local\<close>, the model returns that address. What the layer tells the inode and
  name caches is recorded in \<open>mm_notes\<close>.
\<close>

section \<open>Versions\<close>

abbreviation PFS_FEATURE_BLKHOLE :: u64 where "PFS_FEATURE_BLKHOLE \<equiv> 1"
abbreviation PFS_FEATURE_EXTNAME :: u64 where "PFS_FEATURE_EXTNAME \<equiv> 2"
abbreviation PFS_FEATURE_PVTID :: u64 where "PFS_FEATURE_PVTID \<equiv> 4"

definition pfs_current_version :: u64 where
  "pfs_current_version = 2"

definition pfs_feature_table :: "u64 list" where
  "pfs_feature_table = [0, PFS_FEATURE_BLKHOLE, PFS_FEATURE_BLKHOLE OR PFS_FEATURE_EXTNAME,
     PFS_FEATURE_BLKHOLE OR PFS_FEATURE_EXTNAME OR PFS_FEATURE_PVTID]"

definition pfs_version_has_features :: "u64 \<Rightarrow> u64 \<Rightarrow> bool option" where
  "pfs_version_has_features rv features =
     (if rv \<le> pfs_current_version then Some (pfs_feature_table ! unat rv AND features = features) else None)"

section \<open>State\<close>

record metaset =
  ms_type :: u8
  ms_opps :: nat
  ms_sectbda :: u64
  ms_nsect :: u32
  ms_objsize :: u32

text \<open>Calls to the inode and name caches: a changed inode, an inode to drop, a changed block of
  an inode's index, a directory entry to forget.\<close>

datatype meta_note =
    InodeChange u64 inode_phy
  | InodeInvalidate u64
  | FindexChange u64 metaobj
  | NameDelete u64

datatype meta_lockst = Unlocked | RdLocked | WrLocked

record 'cb meta =
  mm_anode :: "u8 \<Rightarrow> metaset anode"
  mm_mem :: "u64 \<Rightarrow> metaobj list"
  mm_bdroot :: "u32 \<Rightarrow> u64 set"
  mm_tx :: "'cb tx option"
  mm_lock :: meta_lockst
  mm_inited :: bool
  mm_blksize :: u32
  mm_run_version :: u64
  mm_notes :: "meta_note list"

text \<open>The key of the root of a search tree: which one it is depends on the tree, whose shape
  is the C library's.\<close>

type_synonym root_key = "u64 set \<Rightarrow> u64"

section \<open>The lock\<close>

definition pfs_meta_lock :: "'cb meta \<Rightarrow> 'cb meta" where
  "pfs_meta_lock m =
     (if \<not> mm_inited m \<or> mm_lock m \<noteq> Unlocked then m
      else case mm_tx m of
             Some tx \<Rightarrow> m\<lparr>mm_lock := if t_type tx = TXT_WRITE \<or> t_type tx = TXT_REPLAY then WrLocked else RdLocked\<rparr>
           | None \<Rightarrow> m\<lparr>mm_lock := RdLocked\<rparr>)"

definition pfs_meta_unlock :: "'cb meta \<Rightarrow> 'cb meta" where
  "pfs_meta_unlock m = m\<lparr>mm_lock := Unlocked\<rparr>"

section \<open>The discard index\<close>

definition pfs_bd_add :: "u32 \<Rightarrow> u64 \<Rightarrow> 'cb meta \<Rightarrow> 'cb meta" where
  "pfs_bd_add bds btno m = m\<lparr>mm_bdroot := (mm_bdroot m)(bds := insert btno (mm_bdroot m bds))\<rparr>"

definition pfs_bd_del :: "u32 \<Rightarrow> u64 \<Rightarrow> 'cb meta \<Rightarrow> 'cb meta" where
  "pfs_bd_del bds btno m = m\<lparr>mm_bdroot := (mm_bdroot m)(bds := mm_bdroot m bds - {btno})\<rparr>"

definition pfs_bd_find :: "u32 \<Rightarrow> u64 \<Rightarrow> 'cb meta \<Rightarrow> bool" where
  "pfs_bd_find bds btno m \<longleftrightarrow> btno \<in> mm_bdroot m bds"

definition pfs_bd_get :: "root_key \<Rightarrow> u32 \<Rightarrow> 'cb meta \<Rightarrow> u64" where
  "pfs_bd_get rk bds m = (if mm_bdroot m bds = {} then - 1 else rk (mm_bdroot m bds))"

section \<open>Objects of a metaset\<close>

text \<open>The sector and the index of object \<open>oid\<close> of a metaset.\<close>

definition ms_place :: "metaset \<Rightarrow> u64 \<Rightarrow> (u64 \<times> nat) option" where
  "ms_place ms oid =
     (let si = drop_bit (ms_opps ms) oid; oi = oid - push_bit (ms_opps ms) si;
          sectsize = ucast (push_bit (ms_opps ms) (ms_objsize ms))
      in if si < ucast (ms_nsect ms) \<and> oi < push_bit (ms_opps ms) 1
         then Some (ms_sectbda ms + si * sectsize, unat oi) else None)"

definition mem_obj :: "(u64 \<Rightarrow> metaobj list) \<Rightarrow> u64 \<times> nat \<Rightarrow> metaobj option" where
  "mem_obj mem = (\<lambda>(buf, oi). if oi < length (mem buf) then Some (mem buf ! oi) else None)"

text \<open>\<open>pfs_metaset_getobject\<close> without an operation: the object as the current transaction sees
  it.\<close>

definition metaset_read :: "'cb tx option \<Rightarrow> (u64 \<Rightarrow> metaobj list) \<Rightarrow> metaset \<Rightarrow> u64 \<Rightarrow> metaobj option" where
  "metaset_read tx mem ms oid =
     (case ms_place ms oid of
        None \<Rightarrow> None
      | Some p \<Rightarrow> map_option (pfs_tx_get_mo tx) (mem_obj mem p))"

text \<open>With the operation \<open>a\<close>: the operation that holds the transaction's version of it.\<close>

definition metaset_get_top ::
    "'cb tx \<Rightarrow> nat \<Rightarrow> (u64 \<Rightarrow> metaobj list) \<Rightarrow> metaset \<Rightarrow> u64 \<Rightarrow> (nat \<times> 'cb tx) option" where
  "metaset_get_top tx a mem ms oid =
     (case ms_place ms oid of
        None \<Rightarrow> None
      | Some (buf, oi) \<Rightarrow>
          (case mem_obj mem (buf, oi) of
             None \<Rightarrow> None
           | Some mo \<Rightarrow> pfs_txop_init tx a buf mo oi buf))"

definition pfs_metaset_alloc :: "'cb meta \<Rightarrow> metaset \<Rightarrow> u64 \<Rightarrow> bool" where
  "pfs_metaset_alloc m ms oid =
     (case metaset_read (mm_tx m) (mm_mem m) ms oid of
        None \<Rightarrow> False
      | Some mo \<Rightarrow> mo_used mo = 0 \<and>
          (mo_type mo = MT_BLKTAG \<longrightarrow>
             (case MO2BT mo of Some bt \<Rightarrow> bt_dstatus bt \<noteq> BDS_INP | None \<Rightarrow> False)))"

text \<open>\<open>pfs_meta_get\<close>: reading, and reading for a change by operation \<open>a\<close>.\<close>

definition pfs_meta_get :: "u8 \<Rightarrow> u64 \<Rightarrow> 'cb meta \<Rightarrow> (metaobj \<times> 'cb meta) option" where
  "pfs_meta_get mtype objno m =
     (let m1 = pfs_meta_lock m
      in map_option (\<lambda>mo. (mo, m1)) (pfs_anode_get (metaset_read (mm_tx m1) (mm_mem m1)) (mm_anode m1 mtype) objno))"

definition anode_get_top :: "u8 \<Rightarrow> u64 \<Rightarrow> nat \<Rightarrow> 'cb meta \<Rightarrow> (nat \<times> 'cb meta) option" where
  "anode_get_top mtype objno a m =
     (case mm_tx m of
        None \<Rightarrow> None
      | Some tx \<Rightarrow>
          map_option (\<lambda>(d, tx1). (d, m\<lparr>mm_tx := Some tx1\<rparr>))
            (pfs_anode_get (metaset_get_top tx a (mm_mem m)) (mm_anode m mtype) objno))"

definition pfs_meta_get_top :: "u8 \<Rightarrow> u64 \<Rightarrow> nat \<Rightarrow> 'cb meta \<Rightarrow> (nat \<times> 'cb meta) option" where
  "pfs_meta_get_top mtype objno a m = anode_get_top mtype objno a (pfs_meta_lock m)"

text \<open>A block tag with a hole exists only on a volume that has the feature.\<close>

definition blktag_hole_ok :: "'cb meta \<Rightarrow> blktag \<Rightarrow> bool" where
  "blktag_hole_ok m bt \<longleftrightarrow> bt_holeoff bt = 0 \<and> bt_holelen bt = 0 \<or>
     pfs_version_has_features (mm_run_version m) PFS_FEATURE_BLKHOLE = Some True"

definition pfs_meta_get_blktag_flags :: "u64 \<Rightarrow> 'cb meta \<Rightarrow> (metaobj \<times> blktag \<times> 'cb meta) option" where
  "pfs_meta_get_blktag_flags objno m =
     (case pfs_meta_get MT_BLKTAG objno m of
        None \<Rightarrow> None
      | Some (mo, m1) \<Rightarrow>
          (case MO2BT mo of
             None \<Rightarrow> None
           | Some bt \<Rightarrow> if blktag_hole_ok m1 bt then Some (mo, bt, m1) else None))"

section \<open>Changing objects\<close>

definition tx_local :: "nat \<Rightarrow> 'cb meta \<Rightarrow> metaobj option" where
  "tx_local d m = (case mm_tx m of None \<Rightarrow> None | Some tx \<Rightarrow> map_option top_local (tx_op tx d))"

definition local_upd :: "nat \<Rightarrow> (metaobj \<Rightarrow> metaobj option) \<Rightarrow> 'cb meta \<Rightarrow> 'cb meta option" where
  "local_upd d f m =
     (case mm_tx m of
        None \<Rightarrow> None
      | Some tx \<Rightarrow>
          (case tx_op tx d of
             None \<Rightarrow> None
           | Some tp \<Rightarrow>
               (case f (top_local tp) of
                  None \<Rightarrow> None
                | Some mo \<Rightarrow> Some (m\<lparr>mm_tx := Some (tx_upd d (\<lambda>t. t\<lparr>top_local := mo\<rparr>) tx)\<rparr>))))"

abbreviation set_anode :: "u8 \<Rightarrow> metaset anode \<Rightarrow> 'cb meta \<Rightarrow> 'cb meta" where
  "set_anode mtype an m \<equiv> m\<lparr>mm_anode := (mm_anode m)(mtype := an)\<rparr>"

section \<open>Allocation\<close>

definition pfs_metaobj_use_one :: "metaset anode \<Rightarrow> u64 \<Rightarrow> unit \<Rightarrow> metaset anode \<times> unit" where
  "pfs_metaobj_use_one an oid u = (pfs_anode_nfree_inc an oid (- 1), u)"

text \<open>The number for a new block: a block that waits for its discard, or one from the tree.
  \<open>None\<close> inside is the answer \<open>NULL\<close>.\<close>

definition blktag_number :: "root_key \<Rightarrow> u8 \<Rightarrow> 'cb meta \<Rightarrow> (u64 \<times> bool \<times> 'cb meta) option option" where
  "blktag_number rk mtype m =
     (let val = pfs_bd_get rk BDS_READY m
      in if val \<noteq> - 1 then
           (case pfs_anode_visit pfs_metaobj_use_one (mm_anode m mtype) val () of
              None \<Rightarrow> None
            | Some (an, _) \<Rightarrow> Some (Some (val, True, set_anode mtype an (pfs_bd_del BDS_READY val m))))
         else
           (case pfs_anode_alloc (pfs_metaset_alloc m) (mm_anode m mtype) of
              None \<Rightarrow> None
            | Some (Inl e) \<Rightarrow> Some None
            | Some (Inr (v, an)) \<Rightarrow> Some (Some (v, False, set_anode mtype an m))))"

definition blktag_init :: "u8 \<Rightarrow> bool \<Rightarrow> u32 \<Rightarrow> metaobj \<Rightarrow> metaobj option" where
  "blktag_init mtype reused holelen mo =
     (case pfs_metaobj_init mo mtype of
        None \<Rightarrow> None
      | Some mo1 \<Rightarrow>
          (case mo_data mo1 of
             BT bt r \<Rightarrow>
               if (if reused then bt_dstatus bt = BDS_READY else bt_dstatus bt \<noteq> BDS_INP) \<and>
                  bt_holeoff bt = 0 \<and> bt_holelen bt = 0
               then Some (mo1\<lparr>mo_data := BT (bt\<lparr>bt_dstatus := BDS_NONE, bt_ndiscard := 0, bt_holeoff := 0,
                                               bt_holelen := holelen\<rparr>) r\<rparr>)
               else None
           | _ \<Rightarrow> None))"

definition pfs_metaobj_alloc_blktag ::
    "root_key \<Rightarrow> u8 \<Rightarrow> nat \<Rightarrow> 'cb meta \<Rightarrow> (nat \<times> 'cb meta) option option" where
  "pfs_metaobj_alloc_blktag rk mtype a m =
     (case blktag_number rk mtype m of
        None \<Rightarrow> None
      | Some None \<Rightarrow> Some None
      | Some (Some (val, reused, m1)) \<Rightarrow>
          (case (anode_get_top mtype val a m1, pfs_version_has_features (mm_run_version m1) PFS_FEATURE_BLKHOLE) of
             (Some (d, m2), Some hole) \<Rightarrow>
               map_option (\<lambda>m3. Some (d, m3))
                 (local_upd d (blktag_init mtype reused (if hole then mm_blksize m else 0)) m2)
           | _ \<Rightarrow> None))"

text \<open>For an error other than \<open>-ENOSPC\<close> the code goes on with a number that was never set; this
  is \<open>None\<close> here.\<close>

definition pfs_metaobj_alloc_common :: "u8 \<Rightarrow> nat \<Rightarrow> 'cb meta \<Rightarrow> (nat \<times> 'cb meta) option option" where
  "pfs_metaobj_alloc_common mtype a m =
     (case pfs_anode_alloc (pfs_metaset_alloc m) (mm_anode m mtype) of
        None \<Rightarrow> None
      | Some (Inl e) \<Rightarrow> if e = - ENOSPC then Some None else None
      | Some (Inr (val, an)) \<Rightarrow>
          (case anode_get_top mtype val a (set_anode mtype an m) of
             None \<Rightarrow> None
           | Some (d, m1) \<Rightarrow>
               map_option (\<lambda>m2. Some (d, m2)) (local_upd d (\<lambda>mo. pfs_metaobj_init mo mtype) m1)))"

definition pfs_meta_alloc :: "root_key \<Rightarrow> u8 \<Rightarrow> nat \<Rightarrow> 'cb meta \<Rightarrow> (nat \<times> 'cb meta) option option" where
  "pfs_meta_alloc rk mtype a m =
     (let m1 = pfs_meta_lock m
      in if mtype = MT_BLKTAG then pfs_metaobj_alloc_blktag rk mtype a m1
         else if mtype = MT_DIRENTRY \<or> mtype = MT_INODE then pfs_metaobj_alloc_common mtype a m1
         else None)"

section \<open>Release\<close>

definition anode_give :: "u8 \<Rightarrow> u64 \<Rightarrow> 'cb meta \<Rightarrow> 'cb meta option" where
  "anode_give mtype objno m = map_option (\<lambda>an. set_anode mtype an m) (pfs_anode_free (mm_anode m mtype) objno)"

definition pfs_metaobj_free_common :: "u8 \<Rightarrow> nat \<Rightarrow> 'cb meta \<Rightarrow> 'cb meta option" where
  "pfs_metaobj_free_common mtype d m =
     (case (tx_local d m, local_upd d (\<lambda>mo. pfs_metaobj_fini mo mtype) m) of
        (Some mo, Some m1) \<Rightarrow> anode_give mtype (mo_number mo) m1
      | _ \<Rightarrow> None)"

definition blktag_release :: "u8 \<Rightarrow> metaobj \<Rightarrow> metaobj option" where
  "blktag_release mtype mo =
     (case mo_data mo of
        BT bt r \<Rightarrow>
          if bt_ndiscard bt = 0 \<and> bt_dstatus bt = BDS_NONE
          then pfs_metaobj_fini (mo\<lparr>mo_data := BT (bt\<lparr>bt_dstatus := BDS_READY, bt_holeoff := 0,
                                                       bt_holelen := 0\<rparr>) r\<rparr>) mtype
          else None
      | _ \<Rightarrow> None)"

definition pfs_metaobj_free_blktag :: "u8 \<Rightarrow> nat \<Rightarrow> 'cb meta \<Rightarrow> 'cb meta option" where
  "pfs_metaobj_free_blktag mtype d m =
     (case (tx_local d m, local_upd d (blktag_release mtype) m) of
        (Some mo, Some m1) \<Rightarrow> anode_give mtype (mo_number mo) (pfs_bd_add BDS_READY (mo_number mo) m1)
      | _ \<Rightarrow> None)"

definition pfs_meta_free :: "u8 \<Rightarrow> nat \<Rightarrow> 'cb meta \<Rightarrow> 'cb meta option" where
  "pfs_meta_free mtype d m =
     (let m1 = pfs_meta_lock m
      in if mtype = MT_BLKTAG then pfs_metaobj_free_blktag mtype d m1
         else if mtype = MT_DIRENTRY \<or> mtype = MT_INODE then pfs_metaobj_free_common mtype d m1
         else None)"

section \<open>Notifications\<close>

definition pfs_meta_bd_change_index :: "u64 \<Rightarrow> blktag \<Rightarrow> 'cb meta \<Rightarrow> 'cb meta option" where
  "pfs_meta_bd_change_index btno bt m =
     (if bt_dstatus bt = BDS_READY then Some (pfs_bd_del BDS_INP btno (pfs_bd_add BDS_READY btno m))
      else if bt_dstatus bt = BDS_INP then Some (pfs_bd_del BDS_READY btno (pfs_bd_add BDS_INP btno m))
      else if bt_dstatus bt = BDS_NONE then Some (pfs_bd_del BDS_INP btno (pfs_bd_del BDS_READY btno m))
      else None)"

abbreviation add_note :: "meta_note \<Rightarrow> 'cb meta \<Rightarrow> 'cb meta" where
  "add_note n m \<equiv> m\<lparr>mm_notes := mm_notes m @ [n]\<rparr>"

text \<open>A discard does not concern the index of the inode.\<close>

definition pfs_meta_inode_change_findex :: "metaobj \<Rightarrow> blktag \<Rightarrow> 'cb meta \<Rightarrow> 'cb meta" where
  "pfs_meta_inode_change_findex mo bt m =
     (if bt_dstatus bt = BDS_INP \<or> bt_dstatus bt = BDS_NONE \<and> mo_used mo = 0 then m
      else add_note (FindexChange (bt_ino bt) mo) m)"

definition mt_undo :: "u8 \<Rightarrow> u64 \<Rightarrow> 'cb meta \<Rightarrow> 'cb meta option" where
  "mt_undo mtype objno m =
     (if mtype = MT_BLKTAG then
        (if mm_inited m then
           (case pfs_meta_get_blktag_flags objno m of
              None \<Rightarrow> None
            | Some (mo, bt, m1) \<Rightarrow> pfs_meta_bd_change_index (mo_number mo) bt m1)
         else Some m)
      else if mtype = MT_DIRENTRY then Some m
      else if mtype = MT_INODE then Some (if mm_inited m then add_note (InodeInvalidate objno) m else m)
      else None)"

definition mt_redo :: "u8 \<Rightarrow> u64 \<Rightarrow> 'cb meta \<Rightarrow> 'cb meta option" where
  "mt_redo mtype objno m =
     (if mtype = MT_BLKTAG then
        (if mm_inited m then
           (case pfs_meta_get_blktag_flags objno m of
              None \<Rightarrow> None
            | Some (mo, bt, m1) \<Rightarrow>
                map_option (pfs_meta_inode_change_findex mo bt) (pfs_meta_bd_change_index (mo_number mo) bt m1))
         else Some m)
      else if mtype = MT_DIRENTRY then Some (add_note (NameDelete objno) m)
      else if mtype = MT_INODE then
        (if mm_inited m then
           (case pfs_meta_get MT_INODE objno m of
              None \<Rightarrow> None
            | Some (mo, m1) \<Rightarrow>
                (case MO2IN mo of None \<Rightarrow> None | Some phyin \<Rightarrow> Some (add_note (InodeChange (mo_number mo) phyin) m1)))
         else Some m)
      else None)"

section \<open>Undo and redo\<close>

text \<open>Whether \<open>pfs_tx_get_mo\<close> returns the object in memory rather than a copy in an operation.\<close>

definition sees_memory :: "'cb tx option \<Rightarrow> metaobj \<Rightarrow> bool" where
  "sees_memory txo mo =
     (case txo of None \<Rightarrow> True | Some tx \<Rightarrow> t_done tx \<or> pfs_tx_find_mo tx mo = None)"

text \<open>\<open>pfs_txop_undo\<close> asserts that the object is not the copy of the operation it undoes.\<close>

definition pfs_metaset_undo ::
    "'cb txop \<Rightarrow> metaset \<Rightarrow> u64 \<Rightarrow> 'cb meta \<Rightarrow> (int \<times> metaset \<times> 'cb meta) option" where
  "pfs_metaset_undo tp ms oid m =
     (case ms_place ms oid of
        None \<Rightarrow> None
      | Some p \<Rightarrow>
          (case mem_obj (mm_mem m) p of
             None \<Rightarrow> None
           | Some mo \<Rightarrow>
               if sees_memory (mm_tx m) mo then
                 (case (pfs_txop_undo tp mo, mt_undo (mo_type mo) (mo_number mo) m) of
                    (Some delta, Some m1) \<Rightarrow> Some (delta, ms, m1)
                  | _ \<Rightarrow> None)
               else None))"

text \<open>The replaying transaction is marked done before its operations are replayed, so the object
  it overwrites is the one in memory.\<close>

definition pfs_metaset_redo ::
    "'cb txop \<Rightarrow> metaset \<Rightarrow> u64 \<Rightarrow> 'cb meta \<times> 'cb txop \<Rightarrow> (int \<times> metaset \<times> 'cb meta \<times> 'cb txop) option" where
  "pfs_metaset_redo tp ms oid = (\<lambda>(m, _).
     (case ms_place ms oid of
        None \<Rightarrow> None
      | Some (buf, oi) \<Rightarrow>
          (case mem_obj (mm_mem m) (buf, oi) of
             None \<Rightarrow> None
           | Some mo \<Rightarrow>
               if sees_memory (mm_tx m) mo then
                 (case pfs_txop_redo tp mo buf of
                    None \<Rightarrow> None
                  | Some (delta, mo1, tp1) \<Rightarrow>
                      (case mt_redo (mo_type mo1) (mo_number mo1)
                              (m\<lparr>mm_mem := (mm_mem m)(buf := (mm_mem m buf)[oi := mo1])\<rparr>) of
                         None \<Rightarrow> None
                       | Some m1 \<Rightarrow> Some (delta, ms, m1, tp1)))
               else None)))"

definition pfs_meta_undo :: "u8 \<Rightarrow> u64 \<Rightarrow> 'cb txop \<Rightarrow> 'cb meta \<Rightarrow> 'cb meta option" where
  "pfs_meta_undo mtype objno tp m =
     (let m1 = pfs_meta_lock m
      in map_option (\<lambda>(delta, an, m2). set_anode mtype an m2)
           (pfs_anode_undo (pfs_metaset_undo tp) (mm_anode m1 mtype) objno m1))"

definition pfs_meta_redo :: "u8 \<Rightarrow> u64 \<Rightarrow> 'cb txop \<Rightarrow> 'cb meta \<Rightarrow> ('cb meta \<times> 'cb txop) option" where
  "pfs_meta_redo mtype objno tp m =
     (let m1 = pfs_meta_lock m
      in map_option (\<lambda>(delta, an, m2, tp1). (set_anode mtype an m2, tp1))
           (pfs_anode_redo (pfs_metaset_redo tp) (mm_anode m1 mtype) objno (m1, tp)))"

section \<open>Transactions on the metadata\<close>

definition pfs_txop_rollback :: "'cb txop \<Rightarrow> 'cb meta \<Rightarrow> 'cb meta option" where
  "pfs_txop_rollback tp m =
     (if top_flags tp AND TOP_FLG_RECREATE \<noteq> 0 then None
      else if top_flags tp AND TOP_FLG_INITED = 0 \<or> top_dup_head tp \<noteq> Some (top_addr tp) then Some m
      else pfs_meta_undo (mo_type (top_local tp)) (mo_number (top_local tp)) tp m)"

fun rollback_ops :: "'cb txop list \<Rightarrow> 'cb meta \<Rightarrow> 'cb meta option" where
  "rollback_ops [] m = Some m"
| "rollback_ops (tp # tps) m =
     (case pfs_txop_rollback tp m of None \<Rightarrow> None | Some m1 \<Rightarrow> rollback_ops tps m1)"

definition pfs_tx_rollback :: "'cb tx \<Rightarrow> 'cb meta \<Rightarrow> 'cb meta option" where
  "pfs_tx_rollback tx m = rollback_ops (rev (t_ops tx)) m"

definition pfs_txop_replay :: "'cb txop \<Rightarrow> 'cb meta \<Rightarrow> ('cb meta \<times> 'cb txop) option" where
  "pfs_txop_replay tp m =
     (if top_flags tp AND TOP_FLG_RECREATE \<noteq> 0
      then pfs_meta_redo (mo_type (top_local tp)) (mo_number (top_local tp)) tp m else None)"

fun replay_ops :: "'cb txop list \<Rightarrow> 'cb meta \<Rightarrow> ('cb meta \<times> 'cb txop list) option" where
  "replay_ops [] m = Some (m, [])"
| "replay_ops (tp # tps) m =
     (case pfs_txop_replay tp m of
        None \<Rightarrow> None
      | Some (m1, tp1) \<Rightarrow> map_option (\<lambda>(m2, tps1). (m2, tp1 # tps1)) (replay_ops tps m1))"

text \<open>\<open>pfs_meta_redo_fini\<close> releases the inodes the replay held; nothing of the metadata changes.\<close>

definition pfs_tx_replay :: "'cb tx \<Rightarrow> 'cb meta \<Rightarrow> ('cb meta \<times> 'cb tx) option" where
  "pfs_tx_replay rtx m =
     (let rtx1 = rtx\<lparr>t_done := True\<rparr>
      in map_option (\<lambda>(m1, tps). (m1, rtx1\<lparr>t_ops := tps\<rparr>)) (replay_ops (t_ops rtx) (m\<lparr>mm_tx := Some rtx1\<rparr>)))"

fun replay_txs_in :: "'cb tx list \<Rightarrow> 'cb meta \<Rightarrow> ('cb meta \<times> 'cb tx list) option" where
  "replay_txs_in [] m = Some (m, [])"
| "replay_txs_in (rtx # rtxs) m =
     (if t_type rtx = TXT_REPLAY then
        (case pfs_tx_replay rtx m of
           None \<Rightarrow> None
         | Some (m1, rtx1) \<Rightarrow> map_option (\<lambda>(m2, rtxs1). (m2, rtx1 # rtxs1)) (replay_txs_in rtxs m1))
      else None)"

text \<open>\<open>pfs_txlist_replay\<close> up to the request \<open>LOG_REPLAYDONE\<close> it sends with the replayed
  transactions.\<close>

definition pfs_txlist_replay :: "'cb tx list \<Rightarrow> 'cb meta \<Rightarrow> ('cb meta \<times> 'cb tx list) option" where
  "pfs_txlist_replay rtxs m =
     (if rtxs = [] then None
      else
        let otx = mm_tx m;
            m1 = (case otx of Some _ \<Rightarrow> m | None \<Rightarrow> pfs_meta_lock (m\<lparr>mm_tx := Some (hd rtxs)\<rparr>))
        in if (case otx of Some tx \<Rightarrow> t_type tx = TXT_WRITE | None \<Rightarrow> True) \<and>
              t_id (last rtxs) - t_id (hd rtxs) + 1 = int (length rtxs)
           then map_option (\<lambda>(m2, rtxs1).
                  ((case otx of Some _ \<Rightarrow> m2\<lparr>mm_tx := otx\<rparr> | None \<Rightarrow> (pfs_meta_unlock m2)\<lparr>mm_tx := None\<rparr>), rtxs1))
                  (replay_txs_in rtxs m1)
           else None)"

definition pfs_tx_begin :: "bool \<Rightarrow> bool \<Rightarrow> 'cb meta \<Rightarrow> int + 'cb meta" where
  "pfs_tx_begin writable timeoutfail m =
     (if \<not> writable then Inl (- EROFS) else Inr (m\<lparr>mm_tx := Some (pfs_tx_get TXT_WRITE timeoutfail)\<rparr>))"

text \<open>
  \<open>pfs_tx_submit\<close>. The journal is an argument: \<open>log_request\<close> answers a write request with a
  code, transactions to replay, and the memory, to which the log thread applies a committed
  transaction; without an answer the caller does not return. The transactions to send back
  after the replay are part of the result.
\<close>

type_synonym 'cb log_request = "'cb tx \<Rightarrow> (u64 \<Rightarrow> metaobj list) \<Rightarrow> (int \<times> 'cb tx list \<times> (u64 \<Rightarrow> metaobj list)) option"

definition pfs_tx_submit ::
    "'cb log_request \<Rightarrow> 'cb tx \<Rightarrow> int \<Rightarrow> 'cb meta \<Rightarrow> (int \<times> 'cb meta \<times> 'cb tx list) option" where
  "pfs_tx_submit log_request tx err m =
     (if t_type tx \<noteq> TXT_WRITE then None
      else if t_ops tx = [] then Some (err, m, [])
      else if err \<noteq> 0 then map_option (\<lambda>m1. (err, m1, [])) (pfs_tx_rollback tx m)
      else
        (case log_request tx (mm_mem m) of
           None \<Rightarrow> None
         | Some (rv, rpl, mem1) \<Rightarrow>
             let m0 = m\<lparr>mm_mem := mem1\<rparr>
             in if rv < 0 then
                  (case pfs_tx_rollback tx m0 of
                     None \<Rightarrow> None
                   | Some m1 \<Rightarrow>
                       let rv1 = (if rv = - ETIMEDOUT \<and> \<not> t_timeoutfail tx then - EAGAIN else rv)
                       in if rpl = [] then Some (rv1, m1, [])
                          else map_option (\<lambda>(m2, rpl1). (rv1, m2, rpl1)) (pfs_txlist_replay rpl m1))
                else if rpl = [] then Some (rv, m0, []) else None))"

text \<open>\<open>pfs_tx_end\<close> on a mount that logs: the code, the state, and the calls of
  \<open>pfs_tx_do_callback\<close>.\<close>

definition pfs_tx_end ::
    "'cb log_request \<Rightarrow> int \<Rightarrow> 'cb meta \<Rightarrow>
     (int \<times> 'cb meta \<times> 'cb tx list \<times> ('cb \<times> metaobj) list \<times> ('cb \<times> int) list) option" where
  "pfs_tx_end log_request err m =
     (case mm_tx m of
        None \<Rightarrow> None
      | Some tx \<Rightarrow>
          if t_type tx \<noteq> TXT_WRITE then None
          else
            let tx1 = tx\<lparr>t_done := True\<rparr>
            in (case pfs_tx_submit log_request tx1 err (m\<lparr>mm_tx := Some tx1\<rparr>) of
                  None \<Rightarrow> None
                | Some (rv, m1, rpl) \<Rightarrow>
                    (case (pfs_tx_do_callback tx1, pfs_tx_put tx1) of
                       (Some (opcbs, txcbs), Some _) \<Rightarrow>
                         Some (rv, (pfs_meta_unlock m1)\<lparr>mm_tx := None\<rparr>, rpl, opcbs, txcbs)
                     | _ \<Rightarrow> None)))"

section \<open>Discard marks\<close>

definition new_op :: "'cb meta \<Rightarrow> (nat \<times> 'cb meta) option" where
  "new_op m =
     (case mm_tx m of
        None \<Rightarrow> None
      | Some tx \<Rightarrow>
          (case pfs_tx_new_op True tx of
             Inl e \<Rightarrow> None
           | Inr (a, tx1) \<Rightarrow> Some (a, m\<lparr>mm_tx := Some tx1\<rparr>)))"

definition done_op :: "(u32 \<Rightarrow> u8 list \<Rightarrow> u32) \<Rightarrow> nat \<Rightarrow> 'cb option \<Rightarrow> 'cb meta \<Rightarrow> 'cb meta option" where
  "done_op crc a cb m =
     (case mm_tx m of
        None \<Rightarrow> None
      | Some tx \<Rightarrow> map_option (\<lambda>tx1. m\<lparr>mm_tx := Some tx1\<rparr>) (pfs_tx_done_op crc tx a cb))"

text \<open>The new tag and whether it was marked, from the tag and whether its number is in the index
  of its status.\<close>

definition mark_inp_tag :: "bool \<Rightarrow> bool \<Rightarrow> blktag \<Rightarrow> (blktag \<times> bool) option" where
  "mark_inp_tag in_ready in_inp bt =
     (if bt_dstatus bt = BDS_READY then
        (if in_ready then Some (bt, False)
         else if bt_ndiscard bt = 0
         then Some (bt\<lparr>bt_dstatus := BDS_INP, bt_ndiscard := bt_ndiscard bt + 1\<rparr>, True) else None)
      else if bt_dstatus bt = BDS_INP then
        (if in_inp then Some (bt, False)
         else if bt_ndiscard bt > 0 then Some (bt\<lparr>bt_ndiscard := bt_ndiscard bt + 1\<rparr>, True) else None)
      else if bt_dstatus bt = BDS_NONE then Some (bt, False)
      else None)"

definition mark_done_tag :: "bool \<Rightarrow> bool \<Rightarrow> blktag \<Rightarrow> (blktag \<times> bool) option" where
  "mark_done_tag in_ready in_inp bt =
     (if bt_dstatus bt = BDS_INP then
        (if in_inp then Some (bt, False)
         else if bt_ndiscard bt > 0 then Some (bt\<lparr>bt_dstatus := BDS_NONE\<rparr>, True) else None)
      else if bt_dstatus bt = BDS_READY \<or> bt_dstatus bt = BDS_NONE then Some (bt, False)
      else None)"

text \<open>\<open>pfs_meta_bd_mark_inp\<close> and \<open>pfs_meta_bd_mark_done\<close> differ in the change of the tag only.\<close>

definition bd_mark ::
    "(u32 \<Rightarrow> u8 list \<Rightarrow> u32) \<Rightarrow> (bool \<Rightarrow> bool \<Rightarrow> blktag \<Rightarrow> (blktag \<times> bool) option) \<Rightarrow> u64 \<Rightarrow> 'cb meta \<Rightarrow>
     (bool \<times> 'cb meta) option" where
  "bd_mark crc tag btno m =
     (case new_op m of
        None \<Rightarrow> None
      | Some (a, m1) \<Rightarrow>
          (case pfs_meta_get_top MT_BLKTAG btno a m1 of
             None \<Rightarrow> None
           | Some (d, m2) \<Rightarrow>
               (case tx_local d m2 of
                  None \<Rightarrow> None
                | Some mo \<Rightarrow>
                    (case mo_data mo of
                       BT bt r \<Rightarrow>
                         if blktag_hole_ok m2 bt then
                           (case tag (pfs_bd_find BDS_READY btno m2) (pfs_bd_find BDS_INP btno m2) bt of
                              None \<Rightarrow> None
                            | Some (bt1, marked) \<Rightarrow>
                                (case local_upd d (\<lambda>mo. Some (mo\<lparr>mo_data := BT bt1 r\<rparr>)) m2 of
                                   None \<Rightarrow> None
                                 | Some m3 \<Rightarrow> map_option (\<lambda>m4. (marked, m4)) (done_op crc a None m3)))
                         else None
                     | _ \<Rightarrow> None))))"

definition pfs_meta_bd_mark_inp where "pfs_meta_bd_mark_inp crc = bd_mark crc mark_inp_tag"

definition pfs_meta_bd_mark_done where "pfs_meta_bd_mark_done crc = bd_mark crc mark_done_tag"

section \<open>Lists of objects\<close>

text \<open>The objects of an inode form a doubly linked list: \<open>mo_next\<close> and \<open>mo_prev\<close> of the inode
  are its head and tail. The inode and the object are operations \<open>h\<close> and \<open>d\<close>. \<open>mem\<close> tells
  whether there is memory for another operation.\<close>

definition link_op ::
    "(u32 \<Rightarrow> u8 list \<Rightarrow> u32) \<Rightarrow> bool \<Rightarrow> u8 \<Rightarrow> u64 \<Rightarrow> (nat \<Rightarrow> 'cb meta \<Rightarrow> 'cb meta option) \<Rightarrow> 'cb meta \<Rightarrow>
     (int \<times> 'cb meta) option" where
  "link_op crc mem mtype objno change m =
     (if \<not> mem then Some (- ENOMEM, m)
      else
        (case new_op m of
           None \<Rightarrow> None
         | Some (a, m1) \<Rightarrow>
             (case pfs_meta_get_top mtype objno a m1 of
                None \<Rightarrow> None
              | Some (t, m2) \<Rightarrow>
                  (case change t m2 of
                     None \<Rightarrow> None
                   | Some m3 \<Rightarrow> map_option (\<lambda>m4. (0, m4)) (done_op crc a None m3)))))"

definition set_local :: "nat \<Rightarrow> (metaobj \<Rightarrow> metaobj) \<Rightarrow> 'cb meta \<Rightarrow> 'cb meta option" where
  "set_local d f m = local_upd d (\<lambda>mo. Some (f mo)) m"

definition pfs_meta_list_insert ::
    "(u32 \<Rightarrow> u8 list \<Rightarrow> u32) \<Rightarrow> bool \<Rightarrow> nat \<Rightarrow> nat \<Rightarrow> 'cb meta \<Rightarrow> (int \<times> 'cb meta) option" where
  "pfs_meta_list_insert crc mem h d m =
     (case (tx_local h m, tx_local d m) of
        (Some headmo, Some mo) \<Rightarrow>
          if mo_type headmo \<noteq> MT_INODE then None
          else
            let fin = (\<lambda>(err, m1).
                  if err < 0 then Some (err, m1)
                  else map_option (\<lambda>m2. (0, m2)) (set_local h (\<lambda>x. x\<lparr>mo_prev := mo_number mo\<rparr>) m1))
            in (if mo_next headmo = 0 then
                  (case set_local h (\<lambda>x. x\<lparr>mo_next := mo_number mo\<rparr>) m of
                     None \<Rightarrow> None
                   | Some m1 \<Rightarrow> fin (0, m1))
                else
                  (case link_op crc mem (mo_type mo) (mo_prev headmo) (\<lambda>t m2.
                          case tx_local t m2 of
                            None \<Rightarrow> None
                          | Some tailmo \<Rightarrow>
                              (case set_local d (\<lambda>x. x\<lparr>mo_prev := mo_number tailmo\<rparr>) m2 of
                                 None \<Rightarrow> None
                               | Some m3 \<Rightarrow> set_local t (\<lambda>x. x\<lparr>mo_next := mo_number mo\<rparr>) m3)) m of
                     None \<Rightarrow> None
                   | Some r \<Rightarrow> fin r))
      | _ \<Rightarrow> None)"

definition pfs_meta_list_delete ::
    "(u32 \<Rightarrow> u8 list \<Rightarrow> u32) \<Rightarrow> bool \<Rightarrow> bool \<Rightarrow> nat \<Rightarrow> nat \<Rightarrow> 'cb meta \<Rightarrow> (int \<times> 'cb meta) option" where
  "pfs_meta_list_delete crc mem1 mem2 h d m =
     (case (tx_local h m, tx_local d m) of
        (Some headmo, Some mo) \<Rightarrow>
          if mo_type headmo \<noteq> MT_INODE then None
          else
            (case (if mo_prev mo \<noteq> 0
                   then link_op crc mem1 (mo_type mo) (mo_prev mo)
                          (\<lambda>t. set_local t (\<lambda>x. x\<lparr>mo_next := mo_next mo\<rparr>)) m
                   else map_option (\<lambda>m1. (0, m1)) (set_local h (\<lambda>x. x\<lparr>mo_next := mo_next mo\<rparr>) m)) of
               None \<Rightarrow> None
             | Some (err, m1) \<Rightarrow>
                 if err < 0 then Some (err, m1)
                 else
                   (case (if mo_next mo \<noteq> 0
                          then link_op crc mem2 (mo_type mo) (mo_next mo)
                                 (\<lambda>t. set_local t (\<lambda>x. x\<lparr>mo_prev := mo_prev mo\<rparr>)) m1
                          else map_option (\<lambda>m2. (0, m2)) (set_local h (\<lambda>x. x\<lparr>mo_prev := mo_prev mo\<rparr>) m1)) of
                      None \<Rightarrow> None
                    | Some (err1, m2) \<Rightarrow>
                        if err1 < 0 then Some (err1, m2)
                        else map_option (\<lambda>m3. (0, m3)) (set_local d (\<lambda>x. x\<lparr>mo_prev := 0, mo_next := 0\<rparr>) m2)))
      | _ \<Rightarrow> None)"

section \<open>Loading\<close>

text \<open>The objects of a metaset in memory, in the order of their numbers.\<close>

definition ms_buf :: "metaset \<Rightarrow> nat \<Rightarrow> u64" where
  "ms_buf ms si = ms_sectbda ms + of_nat si * ucast (push_bit (ms_opps ms) (ms_objsize ms))"

definition ms_objects :: "(u64 \<Rightarrow> metaobj list) \<Rightarrow> metaset \<Rightarrow> metaobj list" where
  "ms_objects mem ms = concat (map (\<lambda>si. take (2 ^ ms_opps ms) (mem (ms_buf ms si))) [0..<unat (ms_nsect ms)])"

definition pfs_metaset_check_crc :: "(u32 \<Rightarrow> u8 list \<Rightarrow> u32) \<Rightarrow> (u64 \<Rightarrow> metaobj list) \<Rightarrow> metaset \<Rightarrow> bool" where
  "pfs_metaset_check_crc crc mem ms \<longleftrightarrow>
     list_all (\<lambda>si. pfs_metaobj_check_crc_buf crc (mem (ms_buf ms si)) (2 ^ ms_opps ms)) [0..<unat (ms_nsect ms)]"

definition init_anode_step :: "metaobj \<Rightarrow> metaset anode \<times> nat option \<Rightarrow> metaset anode \<times> nat option" where
  "init_anode_step mo = (\<lambda>(an, nxt).
     let k = an_nall (an_info an);
         an1 = Anode ((an_info an)\<lparr>an_nall := Suc k\<rparr>) (an_host an) []
     in if mo_used mo = 0
        then (pfs_anode_nfree_inc an1 (of_nat k) 1, case nxt of None \<Rightarrow> Some k | Some n \<Rightarrow> Some n)
        else (an1, nxt))"

definition pfs_metaset_init_anode :: "(u64 \<Rightarrow> metaobj list) \<Rightarrow> metaset \<Rightarrow> u64 \<Rightarrow> metaset anode" where
  "pfs_metaset_init_anode mem ms ckno =
     (let an = Anode \<lparr>an_id = ckno, an_shift = ms_opps ms + ffs (ucast (roundup_power2 (ucast (ms_nsect ms)))) - 1, an_nall = 0,
                      an_nfree = 0, an_next = 0, an_free_bmp = replicate 40 0\<rparr> ms [];
          (an1, nxt) = fold init_anode_step (ms_objects mem ms) (an, None)
      in (case nxt of None \<Rightarrow> an1 | Some n \<Rightarrow> set_next n an1))"

definition bd_build_obj :: "metaobj \<Rightarrow> 'cb meta option \<Rightarrow> 'cb meta option" where
  "bd_build_obj mo mo_m =
     (case mo_m of
        None \<Rightarrow> None
      | Some m \<Rightarrow>
          if mo_used mo \<noteq> 0 then Some m
          else
            (case MO2BT mo of
               None \<Rightarrow> None
             | Some bt \<Rightarrow>
                 if bt_dstatus bt = BDS_READY \<or> bt_dstatus bt = BDS_INP
                 then Some (pfs_bd_add (bt_dstatus bt) (mo_number mo) m)
                 else if bt_dstatus bt = BDS_NONE then Some m else None))"

definition pfs_metaset_bd_build_index :: "metaset anode \<Rightarrow> 'cb meta option \<Rightarrow> int \<times> 'cb meta option" where
  "pfs_metaset_bd_build_index an mo_m =
     (if an_children an \<noteq> [] then (0, mo_m)
      else (0, case mo_m of None \<Rightarrow> None | Some m \<Rightarrow> fold bd_build_obj (ms_objects (mm_mem m) (an_host an)) (Some m)))"

definition pfs_meta_bd_build_index :: "'cb meta \<Rightarrow> 'cb meta option" where
  "pfs_meta_bd_build_index m =
     snd (pfs_anode_walk pfs_metaset_bd_build_index (mm_anode m MT_BLKTAG) (Some m))"

end
