(* ===== verification/Meta_Tree.thy ===== *)
theory Meta_Tree
  imports Meta
begin

text \<open>
  Facts on allocation trees whose leaves are metasets: what a lookup depends on, and that the
  operations on the counters leave it alone.
\<close>

section \<open>Lookup\<close>

text \<open>The host of the leaf that owns a number, and the number inside it.\<close>

definition leaf_of :: "'h anode \<Rightarrow> u64 \<Rightarrow> ('h \<times> u64) option" where
  "leaf_of an v = pfs_anode_get (\<lambda>h w. Some (h, w)) an v"

lemma child_index_less: "anode_child_index cs v = Some i \<Longrightarrow> i < length cs"
  by (auto simp: anode_child_index_def Let_def split: if_splits)

lemma leaf_of_simps:
  "leaf_of (Anode a h cs) v =
     (if cs = [] then Some (h, v)
      else (case anode_child_index cs v of
              None \<Rightarrow> None
            | Some ci \<Rightarrow> leaf_of (cs ! ci) (anode_submask (cs ! ci) v)))"
  by (auto simp: leaf_of_def child_index_less split: option.splits)

lemma anode_get_leaf:
  "pfs_anode_get g an v = (case leaf_of an v of None \<Rightarrow> None | Some (h, w) \<Rightarrow> g h w)"
proof (induction an arbitrary: v)
  case (Anode a h cs)
  show ?case
    using Anode [OF nth_mem] child_index_less [of cs v]
    by (auto simp: leaf_of_simps split: option.splits)
qed

text \<open>A tree without the parts that allocation changes.\<close>

primrec skel :: "'h anode \<Rightarrow> 'h anode" where
  "skel (Anode a h cs) = Anode (a\<lparr>an_nfree := 0, an_next := 0, an_free_bmp := []\<rparr>) h (map skel cs)"

lemma skel_child_index: "cs \<noteq> [] \<Longrightarrow> anode_child_index (map skel cs) v = anode_child_index cs v"
  by (cases cs; cases "hd cs") (auto simp: anode_child_index_def)

lemma skel_shift [simp]: "an_shift (an_info (skel an)) = an_shift (an_info an)"
  by (cases an) simp

lemma leaf_of_skel: "leaf_of (skel an) v = leaf_of an v"
proof (induction an arbitrary: v)
  case (Anode a h cs)
  then show ?case
    using child_index_less [of cs v]
    by (auto simp: leaf_of_simps skel_child_index anode_submask_def split: option.splits)
qed

lemma leaf_of_cong: "skel an = skel an' \<Longrightarrow> leaf_of an v = leaf_of an' v"
  by (metis leaf_of_skel)

section \<open>Operations keep the skeleton\<close>

lemma skel_nfree_inc [simp]: "skel (pfs_anode_nfree_inc an v d) = skel an"
  by (cases an) (simp add: Let_def)

lemma skel_set_next [simp]: "skel (set_next n an) = skel an"
  by (cases an) (simp add: set_next_def)

lemma skel_children: "skel c = skel (cs ! i) \<Longrightarrow> i < length cs \<Longrightarrow> skel (Anode a h (cs[i := c])) = skel (Anode a h cs)"
  by (simp add: map_update list_update_same_conv)

lemma skel_alloc: "pfs_anode_alloc f an = Some (Inr (v, an')) \<Longrightarrow> skel an' = skel an"
proof (induction an arbitrary: v an')
  case (Anode a h cs)
  show ?case
  proof (cases "cs = []")
    case True
    with Anode.prems show ?thesis
      by (auto simp: anode_alloc_leaf_def Let_def simp del: pfs_anode_nfree_inc.simps split: if_splits option.splits)
  next
    case False
    with Anode.prems obtain m i w can where
      r: "alloc_from cs (map (pfs_anode_alloc f) cs) (circular m (length cs)) = Some (Inr (i, w, can))"
        "an' = pfs_anode_nfree_inc (Anode a h (cs[i := can])) (of_nat i) (- 1)" "max_child cs 0 0 None = Some m"
      by (auto simp del: pfs_anode_nfree_inc.simps split: option.splits sum.splits prod.splits)
    have i: "i < length cs" "pfs_anode_alloc f (cs ! i) = Some (Inr (w, can))"
      using alloc_from_Inr [OF r(1)] max_child_bounds [OF r(3)] by auto
    then have "skel can = skel (cs ! i)" using Anode.IH [OF nth_mem] by blast
    then show ?thesis
      using r(2) skel_children [OF _ i(1), of can] by (simp del: pfs_anode_nfree_inc.simps skel.simps)
  qed
qed

lemma skel_free: "pfs_anode_free an v = Some an' \<Longrightarrow> skel an' = skel an"
proof (induction an arbitrary: v an')
  case (Anode a h cs)
  show ?case
  proof (cases "cs = []")
    case False
    with Anode.prems obtain i c where
      r: "anode_child_index cs v = Some i" "pfs_anode_free (cs ! i) (anode_submask (cs ! i) v) = Some c"
        "an' = pfs_anode_nfree_inc (Anode a h (cs[i := c])) (of_nat i) 1"
      by (auto simp: child_index_less simp del: pfs_anode_nfree_inc.simps split: option.splits)
    then show ?thesis
      using Anode.IH [OF nth_mem] skel_children [of c cs i a h] child_index_less [OF r(1)]
      by (simp del: pfs_anode_nfree_inc.simps skel.simps)
  qed (use Anode.prems in \<open>auto simp: Let_def simp del: pfs_anode_nfree_inc.simps\<close>)
qed

lemma skel_visit_use: "pfs_anode_visit pfs_metaobj_use_one an v s = Some (an', s') \<Longrightarrow> skel an' = skel an"
proof (induction an arbitrary: v an' s')
  case (Anode a h cs)
  show ?case
  proof (cases "cs = []")
    case False
    with Anode.prems obtain i c s1 where
      r: "anode_child_index cs v = Some i"
        "pfs_anode_visit pfs_metaobj_use_one (cs ! i) (anode_submask (cs ! i) v) s = Some (c, s1)"
        "pfs_metaobj_use_one (Anode a h (cs[i := c])) v s1 = (an', s')"
      by (auto simp: child_index_less simp del: pfs_anode_nfree_inc.simps split: option.splits)
    from r(3) have "an' = pfs_anode_nfree_inc (Anode a h (cs[i := c])) v (- 1)" by (simp add: pfs_metaobj_use_one_def)
    with r(1,2) show ?thesis
      using Anode.IH [OF nth_mem] skel_children [of c cs i a h] child_index_less [OF r(1)]
      by (simp del: pfs_anode_nfree_inc.simps skel.simps)
  qed (use Anode.prems in \<open>auto simp: pfs_metaobj_use_one_def simp del: pfs_anode_nfree_inc.simps\<close>)
qed

lemma visit_use_post:
  assumes "anode_wf an" "v \<in> free_vals an"
  shows "\<exists>an'. pfs_anode_visit pfs_metaobj_use_one an v s = Some (an', s) \<and> upd_post an v (- 1) an'"
  using assms
proof (induction an arbitrary: v)
  case (Anode a h cs)
  show ?case
  proof (cases "cs = []")
    case True
    with Anode.prems(1,2) have a: "leaf_wf a" "unat v < an_nall a"
      using mem_free_vals_leaf [of "Anode a h cs" v] by (auto simp: leaf_wf_def simp del: free_vals.simps)
    then have "upd_post (Anode a h []) v (- 1) (set_next (an_next a) (pfs_anode_nfree_inc (Anode a h []) v (- 1)))"
      using Anode.prems(2) True by (intro leaf_upd_post) (auto simp: leaf_wf_def simp del: free_vals.simps)
    moreover have "set_next (an_next a) (pfs_anode_nfree_inc (Anode a h []) v (- 1)) = pfs_anode_nfree_inc (Anode a h []) v (- 1)"
      by (simp add: set_next_def Let_def)
    ultimately show ?thesis
      using True by (simp add: pfs_metaobj_use_one_def del: pfs_anode_nfree_inc.simps)
  next
    case False
    with Anode.prems(2) obtain i w where i: "i < length cs" and w: "w \<in> free_vals (cs ! i)"
      and v: "v = join cs i w" by auto
    have wf: "children_wf a cs" "anode_wf (cs ! i)"
      using Anode.prems(1) False i by (auto simp: list_all_length)
    note sp = free_vals_span [OF wf(2) w]
    obtain c where c: "pfs_anode_visit pfs_metaobj_use_one (cs ! i) w s = Some (c, s)" "upd_post (cs ! i) w (- 1) c"
      using Anode.IH [of "cs ! i" w] wf i w by auto
    have "w \<in> all_vals (cs ! i)" using w free_vals_subset by blast
    from upd_post_internal [OF Anode.prems(1) i this c(2), of v]
    have "upd_post (Anode a h cs) v (- 1) (fst (pfs_metaobj_use_one (Anode a h (cs[i := c])) v s))"
      by (simp add: v pfs_metaobj_use_one_def del: pfs_anode_nfree_inc.simps)
    moreover have "snd (pfs_metaobj_use_one (Anode a h (cs[i := c])) v s) = s" by (simp add: pfs_metaobj_use_one_def)
    ultimately show ?thesis
      using c(1) i v False anode_child_index_join [OF wf(1) i sp]
      by (cases "pfs_metaobj_use_one (Anode a h (cs[i := c])) v s") auto
  qed
qed

text \<open>An undo or redo whose callback leaves the host alone: one call at the leaf.\<close>

lemma anode_apply_leaf:
  assumes "\<And>h w s d h1 s1. fn h w s = Some (d, h1, s1) \<Longrightarrow> h1 = h"
  shows "case leaf_of an v of
      None \<Rightarrow> anode_apply fn an v s = None
    | Some (h, w) \<Rightarrow>
        (case fn h w s of
           None \<Rightarrow> anode_apply fn an v s = None
         | Some (d, h1, s1) \<Rightarrow> \<exists>an'. anode_apply fn an v s = Some (d, an', s1) \<and> skel an' = skel an)"
proof (induction an arbitrary: v)
  case (Anode a h cs)
  show ?case
  proof (cases "cs = []")
    case True
    then show ?thesis
      using assms by (auto simp: leaf_of_simps simp del: pfs_anode_nfree_inc.simps split: option.splits)
  next
    case False
    show ?thesis
    proof (cases "anode_child_index cs v")
      case (Some i)
      note i = child_index_less [OF Some]
      show ?thesis
        using Anode.IH [OF nth_mem [OF i], of "anode_submask (cs ! i) v"] Some i False skel_children [of _ cs i a h]
        by (auto simp: leaf_of_simps simp del: pfs_anode_nfree_inc.simps skel.simps split: option.splits)
    qed (use False in \<open>simp add: leaf_of_simps\<close>)
  qed
qed

lemma all_vals_skel: "all_vals (skel an) = all_vals an"
proof (induction an)
  case (Anode a h cs)
  show ?case
  proof (cases "cs = []")
    case False
    have "an_shift (an_info (hd (map skel cs))) = an_shift (an_info (hd cs))" using False by (simp add: hd_map)
    moreover have "map all_vals (map skel cs) = map all_vals cs" using Anode by simp
    ultimately show ?thesis using False by simp
  qed simp
qed

lemma all_vals_cong: "skel an = skel an' \<Longrightarrow> all_vals an = all_vals an'"
  by (metis all_vals_skel)

lemma children_skel: "skel an = skel an' \<Longrightarrow> an_children an = [] \<longleftrightarrow> an_children an' = []"
  by (cases an; cases an') auto

text \<open>A tree with an inner root and nothing free answers \<open>-ENOSPC\<close>.\<close>

lemma alloc_nothing_free:
  assumes "anode_wf an" "an_children an \<noteq> []" "free_vals an = {}"
  shows "pfs_anode_alloc f an = Some (Inl (- ENOSPC))"
proof (cases an)
  case (Anode a h cs)
  have cs: "cs \<noteq> []" "children_wf a cs" "list_all anode_wf cs" using assms(1,2) Anode by auto
  have "nfree c \<ge> 0" if "c \<in> set cs" for c
    using nfree_card [of c] cs(3) that by (auto simp: list_all_iff)
  moreover have "sum_list (map nfree cs) = 0"
    using nfree_card [OF assms(1)] assms(3) cs(2) Anode by (simp add: children_wf_def Let_def)
  ultimately have z: "\<forall>c\<in>set cs. nfree c = 0" by (subst (asm) sum_list_nonneg_eq_0_iff) auto
  have "max_child cs i 0 None = None" for i
    using z by (induction cs arbitrary: i) auto
  then show ?thesis using cs(1) Anode by simp
qed

end
