(* ===== verification/Tx_Wf.thy ===== *)
theory Tx_Wf
  imports Meta
begin

text \<open>
  A write transaction under construction, seen as a map from addresses to operations: lookups
  after the updates of \<open>Tx\<close>, and what initialising and completing an operation do to the map.
\<close>

section \<open>Operations by address\<close>

abbreviation op_addrs :: "'cb tx \<Rightarrow> nat list" where
  "op_addrs tx \<equiv> map top_addr (t_ops tx)"

lemma tx_op_addr: "tx_op tx a = Some tp \<Longrightarrow> top_addr tp = a \<and> tp \<in> set (t_ops tx)"
  by (auto simp: tx_op_def find_Some_iff)

lemma tx_op_mem: "distinct (op_addrs tx) \<Longrightarrow> tp \<in> set (t_ops tx) \<Longrightarrow> tx_op tx (top_addr tp) = Some tp"
  unfolding tx_op_def
proof (induction "t_ops tx" arbitrary: tx)
  case (Cons x xs)
  from Cons.hyps(1) [of "tx\<lparr>t_ops := xs\<rparr>"] Cons.prems Cons.hyps(2) [symmetric] show ?case
    by (auto simp: rev_image_eqI)
qed simp

lemma find_map_addr:
  assumes "\<And>t. top_addr (f t) = top_addr t"
  shows "List.find (\<lambda>t. top_addr t = b) (map (\<lambda>t. if top_addr t = a then f t else t) ts) =
    (if a = b then map_option f (List.find (\<lambda>t. top_addr t = b) ts) else List.find (\<lambda>t. top_addr t = b) ts)"
  by (induction ts) (auto simp: assms)

lemma tx_op_upd [simp]:
  "(\<And>t. top_addr (f t) = top_addr t) \<Longrightarrow>
     tx_op (tx_upd a f tx) b = (if a = b then map_option f (tx_op tx b) else tx_op tx b)"
  by (simp add: tx_op_def tx_upd_def find_map_addr)

lemma tx_upd_fields [simp]:
  "t_type (tx_upd a f tx) = t_type tx" "t_done (tx_upd a f tx) = t_done tx"
  "t_nops (tx_upd a f tx) = t_nops tx" "t_opsroot (tx_upd a f tx) = t_opsroot tx"
  "t_addr (tx_upd a f tx) = t_addr tx" "length (t_ops (tx_upd a f tx)) = length (t_ops tx)"
  "t_cbs (tx_upd a f tx) = t_cbs tx" "t_ncbs (tx_upd a f tx) = t_ncbs tx"
  "t_timeoutfail (tx_upd a f tx) = t_timeoutfail tx"
  by (simp_all add: tx_upd_def)

lemma tx_upd_id: "tx_upd a (\<lambda>t. t) tx = tx"
  by (simp add: tx_upd_def)

lemma op_addrs_upd [simp]: "(\<And>t. top_addr (f t) = top_addr t) \<Longrightarrow> op_addrs (tx_upd a f tx) = op_addrs tx"
  by (auto simp: tx_upd_def)

lemma find_filter_addr:
  "List.find (\<lambda>t. top_addr t = b) (filter (\<lambda>t. top_addr t \<noteq> a) ts) =
     (if a = b then None else List.find (\<lambda>t. top_addr t = b) ts)"
  by (induction ts) auto

lemma tx_op_remove [simp]:
  "tx_op (tx\<lparr>t_ops := filter (\<lambda>t. top_addr t \<noteq> a) (t_ops tx), t_nops := n\<rparr>) b = (if a = b then None else tx_op tx b)"
  by (simp add: tx_op_def find_filter_addr)

lemma tx_op_other [simp]:
  "tx_op (tx\<lparr>t_opsroot := r\<rparr>) b = tx_op tx b" "tx_op (tx\<lparr>t_done := e\<rparr>) b = tx_op tx b"
  by (simp_all add: tx_op_def)

section \<open>Well-formed transactions\<close>

text \<open>An operation is new, initialised, or done; once initialised it knows the operation that
  holds the transaction's version of its object, and an operation that is done is that one.\<close>

definition op_ok :: "'cb tx \<Rightarrow> nat \<Rightarrow> 'cb txop \<Rightarrow> bool" where
  "op_ok tx a tp \<longleftrightarrow> top_flags tp \<in> {0, TOP_FLG_INITED, TOP_FLG_INITED OR TOP_FLG_DONE} \<and>
     (top_flags tp \<noteq> 0 \<longrightarrow> (\<exists>d. top_dup_head tp = Some d \<and> t_opsroot tx (txop_key (top_local tp)) = Some d)) \<and>
     (top_flags tp = TOP_FLG_INITED OR TOP_FLG_DONE \<longrightarrow> top_dup_head tp = Some a)"

text \<open>Somebody is working on the object held by \<open>d\<close>.\<close>

definition is_open :: "'cb tx \<Rightarrow> nat \<Rightarrow> bool" where
  "is_open tx d \<longleftrightarrow> (\<exists>b tp. tx_op tx b = Some tp \<and> top_dup_head tp = Some d \<and> top_flags tp = TOP_FLG_INITED)"

definition tx_wf :: "'cb tx \<Rightarrow> bool" where
  "tx_wf tx \<longleftrightarrow> t_type tx = TXT_WRITE \<and> distinct (op_addrs tx) \<and> t_nops tx = int (length (t_ops tx)) \<and>
     t_ncbs tx = int (length (t_cbs tx)) \<and>
     (\<forall>a tp. tx_op tx a = Some tp \<longrightarrow> a < t_addr tx \<and> op_ok tx a tp) \<and>
     (\<forall>k d. t_opsroot tx k = Some d \<longrightarrow>
        (\<exists>tp. tx_op tx d = Some tp \<and> top_flags tp \<noteq> 0 \<and> top_dup_head tp = Some d \<and> txop_key (top_local tp) = k))"

text \<open>The transaction's version of an object: by its key.\<close>

definition tx_version :: "'cb tx \<Rightarrow> u8 \<times> u64 \<Rightarrow> metaobj option" where
  "tx_version tx k = (case t_opsroot tx k of None \<Rightarrow> None | Some d \<Rightarrow> map_option top_local (tx_op tx d))"

lemma find_mo_version: "pfs_tx_find_mo tx mo = tx_version tx (txop_key mo)"
  by (simp add: pfs_tx_find_mo_def tx_version_def split: option.splits)

lemma tx_wfD:
  assumes "tx_wf tx"
  shows "t_type tx = TXT_WRITE" "distinct (op_addrs tx)" "t_nops tx = int (length (t_ops tx))"
    "t_ncbs tx = int (length (t_cbs tx))" "tx_op tx a = Some tp \<Longrightarrow> a < t_addr tx" "tx_op tx a = Some tp \<Longrightarrow> op_ok tx a tp"
  using assms by (auto simp: tx_wf_def)

lemma tx_wf_head:
  assumes "tx_wf tx" "t_opsroot tx k = Some d"
  obtains tp where "tx_op tx d = Some tp" "top_flags tp \<noteq> 0" "top_dup_head tp = Some d"
    "txop_key (top_local tp) = k" "tx_version tx k = Some (top_local tp)"
proof -
  have "\<exists>tp. tx_op tx d = Some tp \<and> top_flags tp \<noteq> 0 \<and> top_dup_head tp = Some d \<and> txop_key (top_local tp) = k"
    using assms unfolding tx_wf_def by blast
  then obtain tp where tp: "tx_op tx d = Some tp" "top_flags tp \<noteq> 0" "top_dup_head tp = Some d"
    "txop_key (top_local tp) = k" by blast
  then have "tx_version tx k = Some (top_local tp)" using assms(2) by (simp add: tx_version_def)
  with tp show thesis by (rule that)
qed

lemma tx_wf_key_inj:
  assumes "tx_wf tx" "t_opsroot tx k = Some d" "t_opsroot tx k' = Some d"
  shows "k = k'"
proof -
  obtain tp where "tx_op tx d = Some tp" "txop_key (top_local tp) = k" by (rule tx_wf_head [OF assms(1,2)])
  moreover obtain tp' where "tx_op tx d = Some tp'" "txop_key (top_local tp') = k'" by (rule tx_wf_head [OF assms(1,3)])
  ultimately show ?thesis by simp
qed

section \<open>Creating an operation\<close>

lemma find_append: "List.find P (xs @ ys) = (case List.find P xs of None \<Rightarrow> List.find P ys | Some x \<Rightarrow> Some x)"
  by (induction xs) auto

lemma tx_new_op_wf:
  assumes "tx_wf tx" "pfs_tx_new_op True tx = Inr (a, tx')"
  shows "tx_wf tx'" "tx_op tx' a = Some (pfs_txop_create a 0)" "t_opsroot tx' = t_opsroot tx"
    "tx_op tx a = None" "b \<noteq> a \<Longrightarrow> tx_op tx' b = tx_op tx b" "t_done tx' = t_done tx"
proof -
  have a: "a = t_addr tx"
    and tx': "tx' = tx\<lparr>t_nops := t_nops tx + 1, t_ops := t_ops tx @ [pfs_txop_create a 0], t_addr := Suc a\<rparr>"
    using assms(2) by (auto simp: pfs_tx_new_op_def)
  show none: "tx_op tx a = None"
    using assms(1) a by (cases "tx_op tx a") (auto simp: tx_wf_def)
  have find: "tx_op tx' b = (if b = a then Some (pfs_txop_create a 0) else tx_op tx b)" for b
    using none by (auto simp: tx' tx_op_def pfs_txop_create_def find_append split: option.splits)
  show "tx_op tx' a = Some (pfs_txop_create a 0)" "t_opsroot tx' = t_opsroot tx" "t_done tx' = t_done tx"
    using find by (simp_all add: tx')
  show "b \<noteq> a \<Longrightarrow> tx_op tx' b = tx_op tx b" using find by simp
  have "a \<notin> set (op_addrs tx)" using none by (force simp: tx_op_def find_None_iff)
  then have "distinct (op_addrs tx')" "t_nops tx' = int (length (t_ops tx'))"
    using tx_wfD(2,3) [OF assms(1)] by (auto simp: tx' pfs_txop_create_def)
  moreover have f: "t_addr tx' = Suc a" "t_opsroot tx' = t_opsroot tx" by (simp_all add: tx')
  moreover have "b < t_addr tx' \<and> op_ok tx' b tp" if b: "tx_op tx' b = Some tp" for b tp
  proof (cases "b = a")
    case False
    then have "tx_op tx b = Some tp" using b find by simp
    from tx_wfD(5,6) [OF assms(1) this] show ?thesis by (simp add: f a op_ok_def)
  qed (use b in \<open>auto simp: find f op_ok_def pfs_txop_create_def\<close>)
  moreover have "\<exists>tp. tx_op tx' d = Some tp \<and> top_flags tp \<noteq> 0 \<and> top_dup_head tp = Some d \<and> txop_key (top_local tp) = k"
    if k: "t_opsroot tx' k = Some d" for k d
  proof -
    have "t_opsroot tx k = Some d" using k f by simp
    then obtain tp where "tx_op tx d = Some tp" "top_flags tp \<noteq> 0" "top_dup_head tp = Some d" "txop_key (top_local tp) = k"
      by (rule tx_wf_head [OF assms(1)])
    with none find [of d] show ?thesis by (intro exI [of _ tp]) auto
  qed
  moreover have "t_type tx' = TXT_WRITE" "t_ncbs tx' = int (length (t_cbs tx'))"
    using tx_wfD(1,4) [OF assms(1)] by (simp_all add: tx')
  ultimately show "tx_wf tx'" unfolding tx_wf_def by blast
qed

section \<open>Initialising an operation\<close>

text \<open>What of an operation matters to others; the counters that guard the nesting do not.\<close>

definition op_core :: "'cb txop \<Rightarrow> metaobj \<times> u64 option \<times> u64 \<times> nat \<times> u32 \<times> nat option" where
  "op_core tp = (top_local tp, top_buf tp, top_bda tp, top_idx tp, top_flags tp, top_dup_head tp)"

definition core :: "'cb tx \<Rightarrow> nat \<Rightarrow> (metaobj \<times> u64 option \<times> u64 \<times> nat \<times> u32 \<times> nat option) option" where
  "core tx a = map_option op_core (tx_op tx a)"

lemma core_Some:
  "core tx a = Some (l, b, bda, i, f, d) \<longleftrightarrow>
     (\<exists>tp. tx_op tx a = Some tp \<and> top_local tp = l \<and> top_buf tp = b \<and> top_bda tp = bda \<and> top_idx tp = i \<and>
        top_flags tp = f \<and> top_dup_head tp = d)"
  by (cases "tx_op tx a") (auto simp: core_def op_core_def)

text \<open>Well-formedness in terms of the cores.\<close>

lemma tx_wf_core:
  "tx_wf tx \<longleftrightarrow> t_type tx = TXT_WRITE \<and> distinct (op_addrs tx) \<and> t_nops tx = int (length (t_ops tx)) \<and>
     t_ncbs tx = int (length (t_cbs tx)) \<and>
     (\<forall>a l b bda i f dh. core tx a = Some (l, b, bda, i, f, dh) \<longrightarrow>
        a < t_addr tx \<and> f \<in> {0, TOP_FLG_INITED, TOP_FLG_INITED OR TOP_FLG_DONE} \<and>
        (f \<noteq> 0 \<longrightarrow> (\<exists>d. dh = Some d \<and> t_opsroot tx (txop_key l) = Some d)) \<and>
        (f = TOP_FLG_INITED OR TOP_FLG_DONE \<longrightarrow> dh = Some a)) \<and>
     (\<forall>k d. t_opsroot tx k = Some d \<longrightarrow>
        (\<exists>l b bda i f. core tx d = Some (l, b, bda, i, f, Some d) \<and> f \<noteq> 0 \<and> txop_key l = k))"
  unfolding tx_wf_def core_Some op_ok_def by (intro conj_cong refl iffI) blast+

lemma is_open_core: "is_open tx d \<longleftrightarrow> (\<exists>b l bf bda i. core tx b = Some (l, bf, bda, i, TOP_FLG_INITED, Some d))"
  unfolding is_open_def core_Some by blast

lemma tx_version_core: "tx_version tx k = (case t_opsroot tx k of None \<Rightarrow> None | Some d \<Rightarrow> map_option fst (core tx d))"
  by (auto simp: tx_version_def core_def op_core_def option.map_comp comp_def split: option.splits)

lemma core_upd:
  "(\<And>t. top_addr (f t) = top_addr t) \<Longrightarrow>
     core (tx_upd a f tx) b = (if a = b then map_option (op_core \<circ> f) (tx_op tx b) else core tx b)"
  by (simp add: core_def option.map_comp)

lemma txop_init_core:
  assumes wf: "tx_wf tx" and a: "tx_op tx a = Some tp" "top_flags tp = 0"
  shows "\<exists>d tx'. pfs_txop_init tx a buf mo oid bda = Some (d, tx') \<and>
    d = (case t_opsroot tx (txop_key mo) of None \<Rightarrow> a | Some d \<Rightarrow> d) \<and>
    t_opsroot tx' = (t_opsroot tx)(txop_key mo := Some d) \<and>
    core tx' = (core tx)(a := Some (if d = a then mo else (top_local tp)\<lparr>mo_type := mo_type mo, mo_number := mo_number mo\<rparr>,
      Some buf, bda, oid, TOP_FLG_INITED, Some d)) \<and>
    op_addrs tx' = op_addrs tx \<and> t_type tx' = t_type tx \<and> t_nops tx' = t_nops tx \<and> t_addr tx' = t_addr tx \<and>
    t_cbs tx' = t_cbs tx \<and> t_ncbs tx' = t_ncbs tx \<and> t_done tx' = t_done tx \<and> length (t_ops tx') = length (t_ops tx)"
proof (cases "t_opsroot tx (txop_key mo)")
  case None
  then show ?thesis
    using a by (simp add: pfs_txop_init_def Let_def pfs_tx_index_op_def fun_eq_iff core_upd op_core_def core_def)
next
  case (Some d)
  then obtain dt where "tx_op tx d = Some dt" "top_flags dt \<noteq> 0" by (rule tx_wf_head [OF wf])
  moreover from this a have "d \<noteq> a" by auto
  ultimately show ?thesis
    using a Some
    by (simp add: pfs_txop_init_def Let_def pfs_tx_index_op_def fun_eq_iff core_upd op_core_def core_def fun_upd_triv)
qed

lemma tx_wf_coreD:
  assumes "tx_wf tx" "core tx a = Some (l, b, bda, i, f, dh)"
  shows "a < t_addr tx" "f \<in> {0, TOP_FLG_INITED, TOP_FLG_INITED OR TOP_FLG_DONE}"
    "f \<noteq> 0 \<Longrightarrow> \<exists>d. dh = Some d \<and> t_opsroot tx (txop_key l) = Some d"
    "f = TOP_FLG_INITED OR TOP_FLG_DONE \<Longrightarrow> dh = Some a"
  using assms unfolding tx_wf_core by blast+

lemma tx_wf_coreI:
  assumes "t_type tx = TXT_WRITE" "distinct (op_addrs tx)" "t_nops tx = int (length (t_ops tx))"
    "t_ncbs tx = int (length (t_cbs tx))"
    "\<And>a l b bda i f dh. core tx a = Some (l, b, bda, i, f, dh) \<Longrightarrow>
        a < t_addr tx \<and> f \<in> {0, TOP_FLG_INITED, TOP_FLG_INITED OR TOP_FLG_DONE} \<and>
        (f \<noteq> 0 \<longrightarrow> (\<exists>d. dh = Some d \<and> t_opsroot tx (txop_key l) = Some d)) \<and>
        (f = TOP_FLG_INITED OR TOP_FLG_DONE \<longrightarrow> dh = Some a)"
    "\<And>k d. t_opsroot tx k = Some d \<Longrightarrow>
        \<exists>l b bda i f. core tx d = Some (l, b, bda, i, f, Some d) \<and> f \<noteq> 0 \<and> txop_key l = k"
  shows "tx_wf tx"
  unfolding tx_wf_core using assms by blast

lemma tx_wf_root:
  assumes "tx_wf tx" "t_opsroot tx k = Some d"
  shows "\<exists>l b bda i f. core tx d = Some (l, b, bda, i, f, Some d) \<and> f \<noteq> 0 \<and> txop_key l = k"
  using assms unfolding tx_wf_core by blast

lemma txop_init_wf:
  assumes wf: "tx_wf tx" and a: "tx_op tx a = Some tp" "top_flags tp = 0"
    and init: "pfs_txop_init tx a buf mo oid bda = Some (d, tx')"
  shows "tx_wf tx'" "t_opsroot tx' = (t_opsroot tx)(txop_key mo := Some d)" "is_open tx' d"
    "is_open tx e \<Longrightarrow> is_open tx' e" "t_done tx' = t_done tx"
    "tx_version tx' k = (if k = txop_key mo then Some (case tx_version tx k of None \<Rightarrow> mo | Some x \<Rightarrow> x) else tx_version tx k)"
    "t_opsroot tx (txop_key mo) = Some e \<Longrightarrow> e = d"
    "t_opsroot tx (txop_key mo) = None \<Longrightarrow> core tx' d = Some (mo, Some buf, bda, oid, TOP_FLG_INITED, Some d)"
    "t_opsroot tx k = Some e \<Longrightarrow> core tx' e = core tx e"
proof -
  let ?k = "txop_key mo"
  let ?l = "if d = a then mo else (top_local tp)\<lparr>mo_type := mo_type mo, mo_number := mo_number mo\<rparr>"
  have d: "d = (case t_opsroot tx ?k of None \<Rightarrow> a | Some d \<Rightarrow> d)"
    and root: "t_opsroot tx' = (t_opsroot tx)(?k := Some d)"
    and core: "core tx' = (core tx)(a := Some (?l, Some buf, bda, oid, TOP_FLG_INITED, Some d))"
    and flds: "op_addrs tx' = op_addrs tx" "t_type tx' = t_type tx" "t_nops tx' = t_nops tx" "t_addr tx' = t_addr tx"
      "t_cbs tx' = t_cbs tx" "t_ncbs tx' = t_ncbs tx" "t_done tx' = t_done tx" "length (t_ops tx') = length (t_ops tx)"
    using txop_init_core [OF wf a, of buf mo oid bda] init by auto
  have fl: "core tx a = Some (top_local tp, top_buf tp, top_bda tp, top_idx tp, 0, top_dup_head tp)"
    using a by (simp add: core_def op_core_def)
  have na: "e \<noteq> a" if "t_opsroot tx k = Some e" for k e
    using tx_wf_root [OF wf that] fl by auto
  have key: "txop_key ?l = ?k" by (simp add: txop_key_def)
  show "t_opsroot tx' = (t_opsroot tx)(?k := Some d)" "t_done tx' = t_done tx" by (fact root flds)+
  show "is_open tx' d" unfolding is_open_core using core by (auto simp: fun_upd_def)
  show "is_open tx' e" if "is_open tx e"
  proof -
    obtain b l bf bd i where b: "core tx b = Some (l, bf, bd, i, TOP_FLG_INITED, Some e)"
      using \<open>is_open tx e\<close> unfolding is_open_core by blast
    then have "b \<noteq> a" using fl by auto
    then show ?thesis unfolding is_open_core using b core by (intro exI [of _ b]) auto
  qed
  show "e = d" if "t_opsroot tx ?k = Some e" using that d by simp
  show "core tx' d = Some (mo, Some buf, bda, oid, TOP_FLG_INITED, Some d)" if "t_opsroot tx ?k = None"
    using that d core by simp
  show other: "core tx' e = core tx e" if "t_opsroot tx k = Some e" for k e
    using na [OF that] core by simp
  show "tx_version tx' k = (if k = ?k then Some (case tx_version tx k of None \<Rightarrow> mo | Some x \<Rightarrow> x) else tx_version tx k)"
  proof (cases "k = ?k \<and> t_opsroot tx ?k = None")
    case True
    then show ?thesis using d core root by (simp add: tx_version_core)
  next
    case False
    show ?thesis
    proof (cases "t_opsroot tx k")
      case None
      with False root show ?thesis by (auto simp: tx_version_core)
    next
      case (Some e)
      then have "t_opsroot tx' k = Some e" using root d by (auto split: option.splits)
      with Some other [OF Some] tx_wf_root [OF wf Some] show ?thesis by (auto simp: tx_version_core)
    qed
  qed
  show "tx_wf tx'"
  proof (rule tx_wf_coreI)
    show "b < t_addr tx' \<and> f \<in> {0, TOP_FLG_INITED, TOP_FLG_INITED OR TOP_FLG_DONE} \<and>
        (f \<noteq> 0 \<longrightarrow> (\<exists>d. dh = Some d \<and> t_opsroot tx' (txop_key l) = Some d)) \<and>
        (f = TOP_FLG_INITED OR TOP_FLG_DONE \<longrightarrow> dh = Some b)"
      if b: "core tx' b = Some (l, bf, bd, i, f, dh)" for b l bf bd i f dh
    proof (cases "b = a")
      case True
      then have "l = ?l" "f = TOP_FLG_INITED" "dh = Some d" using b core by auto
      then show ?thesis using True key root flds tx_wf_coreD(1) [OF wf fl] by simp
    next
      case False
      then have "core tx b = Some (l, bf, bd, i, f, dh)" using b core by simp
      note c = tx_wf_coreD [OF wf this]
      show ?thesis using c flds root d by (auto split: option.splits)
    qed
    show "\<exists>l bf bd i f. core tx' e = Some (l, bf, bd, i, f, Some e) \<and> f \<noteq> 0 \<and> txop_key l = k"
      if k: "t_opsroot tx' k = Some e" for k e
    proof (cases "t_opsroot tx k")
      case None
      then have "k = ?k" "e = d" using k root by (auto split: if_splits)
      then show ?thesis using None d core by simp
    next
      case (Some e')
      then have "e' = e" using k root d by (auto split: if_splits)
      then show ?thesis using tx_wf_root [OF wf Some] other [OF Some] by simp
    qed
  qed (use flds tx_wfD(1-4) [OF wf] in simp_all)
qed

section \<open>Changing and completing\<close>

lemma core_addr_upd:
  assumes "\<And>t. top_addr (f t) = top_addr t" "tx_op tx d = Some tp"
  shows "core (tx_upd d f tx) = (core tx)(d := Some (op_core (f tp)))"
  using assms by (auto simp: fun_eq_iff core_upd)

lemma local_upd_wf:
  assumes wf: "tx_wf tx" and d: "t_opsroot tx k = Some d" and key: "txop_key mo = k"
    and tx': "tx' = tx_upd d (\<lambda>t. t\<lparr>top_local := mo\<rparr>) tx"
  shows "tx_wf tx'" "t_opsroot tx' = t_opsroot tx" "t_done tx' = t_done tx" "is_open tx' e = is_open tx e"
    "tx_version tx' k' = (if k' = k then Some mo else tx_version tx k')"
    "core tx d = Some (l, b, bda, i, f, dh) \<Longrightarrow> core tx' d = Some (mo, b, bda, i, f, dh)"
    "e \<noteq> d \<Longrightarrow> core tx' e = core tx e"
proof -
  obtain tp where tp: "tx_op tx d = Some tp" "top_dup_head tp = Some d" "txop_key (top_local tp) = k"
    by (rule tx_wf_head [OF wf d])
  have core: "core tx' = (core tx)(d := Some (mo, snd (op_core tp)))"
    unfolding tx' using core_addr_upd [OF _ tp(1), of "\<lambda>t. t\<lparr>top_local := mo\<rparr>"] by (simp add: op_core_def)
  have cd: "core tx d = Some (op_core tp)" using tp by (simp add: core_def)
  have same: "core tx' e = Some (l, r) \<longleftrightarrow>
      (\<exists>l0. core tx e = Some (l0, r) \<and> l = (if e = d then mo else l0))" for e l r
    using core cd by (cases "e = d") (auto simp: op_core_def)
  show root: "t_opsroot tx' = t_opsroot tx" and "t_done tx' = t_done tx" by (simp_all add: tx')
  show "e \<noteq> d \<Longrightarrow> core tx' e = core tx e" for e using core by simp
  show "core tx d = Some (l, b, bda, i, f, dh) \<Longrightarrow> core tx' d = Some (mo, b, bda, i, f, dh)"
    using core cd by (simp add: op_core_def)
  show "is_open tx' e = is_open tx e" unfolding is_open_core same by blast
  show "tx_version tx' k' = (if k' = k then Some mo else tx_version tx k')"
  proof (cases "t_opsroot tx k'")
    case (Some e)
    have "k' = k \<longleftrightarrow> e = d" using tx_wf_key_inj [OF wf d, of k'] Some d by auto
    then show ?thesis using core root Some d cd by (simp add: tx_version_core)
  qed (use root d in \<open>auto simp: tx_version_core\<close>)
  show "tx_wf tx'"
  proof (rule tx_wf_coreI)
    show "b < t_addr tx' \<and> f \<in> {0, TOP_FLG_INITED, TOP_FLG_INITED OR TOP_FLG_DONE} \<and>
        (f \<noteq> 0 \<longrightarrow> (\<exists>d. dh = Some d \<and> t_opsroot tx' (txop_key l) = Some d)) \<and>
        (f = TOP_FLG_INITED OR TOP_FLG_DONE \<longrightarrow> dh = Some b)"
      if b: "core tx' b = Some (l, bf, bd, i, f, dh)" for b l bf bd i f dh
    proof -
      obtain l0 where l0: "core tx b = Some (l0, bf, bd, i, f, dh)" "l = (if b = d then mo else l0)"
        using b unfolding same by blast
      have "txop_key l = txop_key l0" using l0 tp(3) cd key by (auto simp: op_core_def split: if_splits)
      then show ?thesis using tx_wf_coreD [OF wf l0(1)] root by (simp add: tx')
    qed
    show "\<exists>l bf bd i f. core tx' e = Some (l, bf, bd, i, f, Some e) \<and> f \<noteq> 0 \<and> txop_key l = k'"
      if k: "t_opsroot tx' k' = Some e" for k' e
    proof -
      have e: "t_opsroot tx k' = Some e" using k root by simp
      then obtain l bf bd i f where l: "core tx e = Some (l, bf, bd, i, f, Some e)" "f \<noteq> 0" "txop_key l = k'"
        using tx_wf_root [OF wf] by blast
      then have "core tx' e = Some (if e = d then mo else l, bf, bd, i, f, Some e)" unfolding same by blast
      moreover have "e = d \<Longrightarrow> k' = k" using tx_wf_key_inj [OF wf d] e by blast
      ultimately show ?thesis using l key by auto
    qed
  qed (use tx_wfD(1-4) [OF wf] in \<open>simp_all add: tx'\<close>)
qed

text \<open>Completing an operation stamps the checksum on the object; an operation that is not the
  holder of its object leaves the transaction.\<close>

definition stamp :: "(u32 \<Rightarrow> u8 list \<Rightarrow> u32) \<Rightarrow> metaobj \<Rightarrow> metaobj" where
  "stamp crc mo = mo\<lparr>mo_checksum := metaobj_crc crc mo\<rparr>"

lemma stamp_fields [simp]:
  "mo_number (stamp crc mo) = mo_number mo" "mo_type (stamp crc mo) = mo_type mo" "mo_used (stamp crc mo) = mo_used mo"
  "mo_data (stamp crc mo) = mo_data mo" "mo_prev (stamp crc mo) = mo_prev mo" "mo_next (stamp crc mo) = mo_next mo"
  "mo_padding (stamp crc mo) = mo_padding mo" "txop_key (stamp crc mo) = txop_key mo"
  by (simp_all add: stamp_def txop_key_def)

lemma inited_flags:
  "f \<in> {0, TOP_FLG_INITED, TOP_FLG_INITED OR TOP_FLG_DONE} \<Longrightarrow>
     f AND (TOP_FLG_INITED OR TOP_FLG_DONE) = TOP_FLG_INITED \<Longrightarrow> f = TOP_FLG_INITED"
  by auto

lemma txop_update_tx:
  assumes wf: "tx_wf tx" and up: "pfs_txop_update crc tx a cb = Some tx1"
  obtains tp dh dt where "tx_op tx a = Some tp" "top_flags tp = TOP_FLG_INITED" "top_dup_head tp = Some dh"
    "tx_op tx dh = Some dt"
    "tx1 = tx_upd dh (\<lambda>t. t\<lparr>top_dup_cnt := top_dup_cnt t - 1\<rparr>)
       (tx_upd a (\<lambda>t. t\<lparr>top_cb := cb, top_flags := top_flags t OR TOP_FLG_DONE\<rparr>)
         (tx_upd dh (\<lambda>t. t\<lparr>top_local := (top_local t)\<lparr>mo_checksum := metaobj_crc crc (top_local t)\<rparr>\<rparr>) tx))"
proof -
  obtain tp where tp: "tx_op tx a = Some tp" using up by (auto simp: pfs_txop_update_def split: option.splits)
  have "top_flags tp AND (TOP_FLG_INITED OR TOP_FLG_DONE) = TOP_FLG_INITED"
    using up tp by (auto simp: pfs_txop_update_def split: if_splits)
  moreover have "op_ok tx a tp" using tx_wfD(6) [OF wf tp] .
  ultimately have fl: "top_flags tp = TOP_FLG_INITED" unfolding op_ok_def using inited_flags by blast
  with \<open>op_ok tx a tp\<close> obtain dh where dh: "top_dup_head tp = Some dh" "t_opsroot tx (txop_key (top_local tp)) = Some dh"
    by (auto simp: op_ok_def)
  from dh(2) obtain dt where dt: "tx_op tx dh = Some dt" by (rule tx_wf_head [OF wf])
  show thesis
    by (rule that [OF tp fl dh(1) dt])
       (use up tp dh dt in \<open>auto simp: pfs_txop_update_def Let_def split: if_splits option.splits\<close>)
qed

lemma filter_addr_length:
  "distinct (map top_addr ts) \<Longrightarrow> a \<in> top_addr ` set ts \<Longrightarrow>
     Suc (length (filter (\<lambda>t. top_addr t \<noteq> a) ts)) = length ts"
proof (induction ts)
  case (Cons t ts)
  show ?case
  proof (cases "top_addr t = a")
    case True
    have "top_addr x \<noteq> a" if "x \<in> set ts" for x
      using imageI [OF that, of top_addr] True Cons.prems(1) by auto
    then have "filter (\<lambda>t. top_addr t \<noteq> a) ts = ts" by (simp add: filter_id_conv)
    with True show ?thesis by simp
  next
    case False
    then have "a \<in> top_addr ` set ts" using Cons.prems(2) by auto
    with Cons.IH Cons.prems(1) False show ?thesis by simp
  qed
qed simp

lemma done_op_core:
  assumes wf: "tx_wf tx" and fin: "pfs_tx_done_op crc tx a cb = Some tx'"
  obtains tp dh dt where "tx_op tx a = Some tp" "top_flags tp = TOP_FLG_INITED" "top_dup_head tp = Some dh"
    "tx_op tx dh = Some dt"
    "core tx' = (if dh = a
       then (core tx)(a := Some (stamp crc (top_local tp), top_buf tp, top_bda tp, top_idx tp, TOP_FLG_INITED OR TOP_FLG_DONE, Some a))
       else (core tx)(dh := Some (stamp crc (top_local dt), snd (op_core dt)), a := None))"
    "t_opsroot tx' = t_opsroot tx" "t_type tx' = t_type tx" "t_addr tx' = t_addr tx" "t_cbs tx' = t_cbs tx"
    "t_ncbs tx' = t_ncbs tx" "t_done tx' = t_done tx" "distinct (op_addrs tx')" "t_nops tx' = int (length (t_ops tx'))"
proof -
  obtain tx1 where up: "pfs_txop_update crc tx a cb = Some tx1"
    using fin by (auto simp: pfs_tx_done_op_def split: option.splits)
  obtain tp dh dt where tp: "tx_op tx a = Some tp" "top_flags tp = TOP_FLG_INITED" "top_dup_head tp = Some dh"
      "tx_op tx dh = Some dt"
    and tx1: "tx1 = tx_upd dh (\<lambda>t. t\<lparr>top_dup_cnt := top_dup_cnt t - 1\<rparr>)
       (tx_upd a (\<lambda>t. t\<lparr>top_cb := cb, top_flags := top_flags t OR TOP_FLG_DONE\<rparr>)
         (tx_upd dh (\<lambda>t. t\<lparr>top_local := (top_local t)\<lparr>mo_checksum := metaobj_crc crc (top_local t)\<rparr>\<rparr>) tx))"
    by (rule txop_update_tx [OF wf up])
  show thesis
  proof (cases "dh = a")
    case True
    have tx': "tx' = tx1" using fin up tp True by (auto simp: pfs_tx_done_op_def tx1 split: if_splits)
    have "core tx' = (core tx)(a := Some (stamp crc (top_local tp), top_buf tp, top_bda tp, top_idx tp, TOP_FLG_INITED OR TOP_FLG_DONE, Some a))"
      using tp True by (auto simp: tx' tx1 fun_eq_iff core_def op_core_def stamp_def)
    with True tp show thesis
      by (intro that [of tp dh dt]) (use tx_wfD(2,3) [OF wf] in \<open>simp_all add: tx' tx1\<close>)
  next
    case False
    obtain tpa where tpa: "tx_op tx1 a = Some tpa" "top_dup_head tpa = Some dh"
      using tp False by (auto simp: tx1)
    let ?tx2 = "tx1\<lparr>t_ops := filter (\<lambda>t. top_addr t \<noteq> a) (t_ops tx1), t_nops := t_nops tx1 - 1\<rparr>"
    have "pfs_txop_merge ?tx2 dh tpa = Some tx'"
      using fin up tpa False by (simp add: pfs_tx_done_op_def)
    then obtain f where tx': "tx' = tx_upd dh f ?tx2"
      and "f = (\<lambda>t. t) \<or> (\<exists>cb. f = (\<lambda>t. t\<lparr>top_shadow := cb # top_shadow t\<rparr>))"
      using tx_upd_id [of dh ?tx2] by (force simp: pfs_txop_merge_def split: option.splits if_splits)
    then have f: "\<And>t. top_addr (f t) = top_addr t" "\<And>t. op_core (f t) = op_core t" by (auto simp: op_core_def)
    have len: "Suc (length (t_ops ?tx2)) = length (t_ops tx1)"
      using filter_addr_length [of "t_ops tx1" a] tx_wfD(2) [OF wf] tx_op_addr [OF tpa(1)]
      by (auto simp: tx1)
    have "core tx' = (core tx)(dh := Some (stamp crc (top_local dt), snd (op_core dt)), a := None)"
    proof
      fix b
      have "tx_op tx' b = (if dh = b then map_option f (tx_op ?tx2 b) else tx_op ?tx2 b)"
        unfolding tx' by (rule tx_op_upd [OF f(1)])
      moreover have "tx_op ?tx2 b = (if a = b then None else tx_op tx1 b)" by (rule tx_op_remove)
      moreover have "core tx1 b = (if b = dh then Some (stamp crc (top_local dt), snd (op_core dt)) else core tx b)" if "b \<noteq> a"
        using that tp False by (auto simp: tx1 core_def stamp_def op_core_def)
      ultimately show "core tx' b = ((core tx)(dh := Some (stamp crc (top_local dt), snd (op_core dt)), a := None)) b"
        using False f(2) by (auto simp: core_def option.map_comp comp_def)
    qed
    moreover have "distinct (op_addrs tx')"
      using tx_wfD(2) [OF wf] by (simp add: tx' f(1) distinct_map_filter tx1)
    ultimately show thesis
      using tp False len tx_wfD(3) [OF wf] by (intro that [of tp dh dt]) (simp_all add: tx' tx1)
  qed
qed

lemma done_op_wf:
  assumes wf: "tx_wf tx" and fin: "pfs_tx_done_op crc tx a cb = Some tx'"
  obtains k d l bf bda i f f' where "t_opsroot tx k = Some d" "core tx d = Some (l, bf, bda, i, f, Some d)"
    "core tx' d = Some (stamp crc l, bf, bda, i, f', Some d)" "f' \<noteq> 0"
    "tx_wf tx'" "t_opsroot tx' = t_opsroot tx" "t_done tx' = t_done tx"
    "\<And>k'. tx_version tx' k' = (if k' = k then Some (stamp crc l) else tx_version tx k')"
    "\<And>k' e. t_opsroot tx k' = Some e \<Longrightarrow> e \<noteq> d \<Longrightarrow> core tx' e = core tx e"
    "\<And>e. is_open tx e \<Longrightarrow> e \<noteq> d \<Longrightarrow> is_open tx' e"
proof -
  obtain tp d dt where tp: "tx_op tx a = Some tp" "top_flags tp = TOP_FLG_INITED" "top_dup_head tp = Some d"
      "tx_op tx d = Some dt"
    and core: "core tx' = (if d = a
       then (core tx)(a := Some (stamp crc (top_local tp), top_buf tp, top_bda tp, top_idx tp, TOP_FLG_INITED OR TOP_FLG_DONE, Some a))
       else (core tx)(d := Some (stamp crc (top_local dt), snd (op_core dt)), a := None))"
    and flds: "t_opsroot tx' = t_opsroot tx" "t_type tx' = t_type tx" "t_addr tx' = t_addr tx" "t_cbs tx' = t_cbs tx"
      "t_ncbs tx' = t_ncbs tx" "t_done tx' = t_done tx" "distinct (op_addrs tx')" "t_nops tx' = int (length (t_ops tx'))"
    by (rule done_op_core [OF wf fin])
  define k where "k = txop_key (top_local tp)"
  have ca: "core tx a = Some (top_local tp, top_buf tp, top_bda tp, top_idx tp, TOP_FLG_INITED, Some d)"
    using tp by (simp add: core_def op_core_def)
  have kd: "t_opsroot tx k = Some d" using tx_wf_coreD(3) [OF wf ca] by (simp add: k_def)
  have cd: "core tx d = Some (op_core dt)" using tp by (simp add: core_def)
  obtain l bf bda i f where l: "core tx d = Some (l, bf, bda, i, f, Some d)" "f \<noteq> 0" "txop_key l = k"
    using tx_wf_root [OF wf kd] by blast
  have dt: "op_core dt = (l, bf, bda, i, f, Some d)" "top_local dt = l" using l(1) cd by (auto simp: op_core_def)
  define f' where "f' = (if d = a then TOP_FLG_INITED OR TOP_FLG_DONE else f)"
  have cd': "core tx' d = Some (stamp crc l, bf, bda, i, f', Some d)"
    using core dt l(1) ca by (auto simp: f'_def)
  have f': "f' \<noteq> 0" "f' \<in> {0, TOP_FLG_INITED, TOP_FLG_INITED OR TOP_FLG_DONE}"
    using l(2) tx_wf_coreD(2) [OF wf l(1)] by (auto simp: f'_def)
  have other: "core tx' e = (if e = a then None else core tx e)" if "e \<noteq> d" for e
    using that core by auto
  have heads: "core tx' e = core tx e" if "t_opsroot tx k' = Some e" "e \<noteq> d" for k' e
  proof -
    have "e \<noteq> a" using tx_wf_root [OF wf that(1)] ca that(2) by auto
    then show ?thesis using other that by simp
  qed
  have ver: "tx_version tx' k' = (if k' = k then Some (stamp crc l) else tx_version tx k')" for k'
  proof (cases "t_opsroot tx k'")
    case (Some e)
    have "k' = k \<longleftrightarrow> e = d" using tx_wf_key_inj [OF wf kd, of k'] Some kd by auto
    then show ?thesis using cd' heads [OF Some] flds(1) Some by (auto simp: tx_version_core)
  qed (use flds(1) kd in \<open>auto simp: tx_version_core\<close>)
  have opn: "is_open tx' e" if op: "is_open tx e" and ne: "e \<noteq> d" for e
  proof -
    obtain b l2 bf2 bd2 i2 where b: "core tx b = Some (l2, bf2, bd2, i2, TOP_FLG_INITED, Some e)"
      using op unfolding is_open_core by blast
    then have "b \<noteq> a" "b \<noteq> d" using ca l(1) ne by auto
    then show ?thesis unfolding is_open_core using b other by (intro exI [of _ b]) auto
  qed
  have "tx_wf tx'"
  proof (rule tx_wf_coreI)
    show "b < t_addr tx' \<and> f2 \<in> {0, TOP_FLG_INITED, TOP_FLG_INITED OR TOP_FLG_DONE} \<and>
        (f2 \<noteq> 0 \<longrightarrow> (\<exists>d. dh = Some d \<and> t_opsroot tx' (txop_key l2) = Some d)) \<and>
        (f2 = TOP_FLG_INITED OR TOP_FLG_DONE \<longrightarrow> dh = Some b)"
      if b: "core tx' b = Some (l2, bf2, bd2, i2, f2, dh)" for b l2 bf2 bd2 i2 f2 dh
    proof (cases "b = d")
      case True
      then have "l2 = stamp crc l" "f2 = f'" "dh = Some d" using b cd' by auto
      then show ?thesis using True flds f' l(3) kd tx_wf_coreD(1) [OF wf l(1)] by simp
    next
      case False
      then have "core tx b = Some (l2, bf2, bd2, i2, f2, dh)" using b other by (auto split: if_splits)
      from tx_wf_coreD [OF wf this] show ?thesis by (simp add: flds)
    qed
    show "\<exists>l2 bf2 bd2 i2 f2. core tx' e = Some (l2, bf2, bd2, i2, f2, Some e) \<and> f2 \<noteq> 0 \<and> txop_key l2 = k'"
      if k': "t_opsroot tx' k' = Some e" for k' e
    proof (cases "e = d")
      case True
      then have "k' = k" using k' flds(1) tx_wf_key_inj [OF wf kd, of k'] by simp
      then show ?thesis using True cd' f' l(3) by simp
    next
      case False
      then show ?thesis using tx_wf_root [OF wf] heads k' flds(1) by metis
    qed
  qed (use flds tx_wfD(1,4) [OF wf] in simp_all)
  with kd l(1) cd' f'(1) flds(1,6) ver heads opn show thesis by (intro that) blast+
qed

end
