(* ===== verification/Meta_Inv.thy ===== *)
theory Meta_Inv
  imports Meta_Tree Tx_Wf
begin

text \<open>
  The invariant of the metadata layer. The bitmaps of the allocation trees say of every object
  what the current transaction sees: free means unused. An unused object is clean, so that it
  can be handed out again, and the discard index only names free blocks in its state. The
  invariant holds between transactions and inside one; it is what lets a rollback restore the
  bitmaps and the index from memory alone.
\<close>

section \<open>Objects by number\<close>

definition mtypes :: "u8 set" where
  "mtypes = {MT_BLKTAG, MT_DIRENTRY, MT_INODE}"

abbreviation objs :: "'cb meta \<Rightarrow> u8 \<Rightarrow> u64 set" where
  "objs m t \<equiv> all_vals (mm_anode m t)"

definition place :: "'cb meta \<Rightarrow> u8 \<Rightarrow> u64 \<Rightarrow> (u64 \<times> nat) option" where
  "place m t v = pfs_anode_get ms_place (mm_anode m t) v"

text \<open>The object in memory, and as the current transaction sees it.\<close>

definition mobj :: "'cb meta \<Rightarrow> u8 \<Rightarrow> u64 \<Rightarrow> metaobj option" where
  "mobj m t v = Option.bind (place m t v) (mem_obj (mm_mem m))"

definition cur :: "'cb meta \<Rightarrow> u8 \<Rightarrow> u64 \<Rightarrow> metaobj option" where
  "cur m t v = map_option (pfs_tx_get_mo (mm_tx m)) (mobj m t v)"

section \<open>The invariant\<close>

definition has_hole :: "'cb meta \<Rightarrow> bool" where
  "has_hole m \<longleftrightarrow> pfs_version_has_features (mm_run_version m) PFS_FEATURE_BLKHOLE = Some True"

definition tag_ok :: "bool \<Rightarrow> bool \<Rightarrow> blktag \<Rightarrow> bool" where
  "tag_ok hole used bt \<longleftrightarrow>
     (if used then bt_dstatus bt = BDS_NONE \<and> bt_ndiscard bt = 0
      else bt_dstatus bt \<in> {BDS_NONE, BDS_READY, BDS_INP} \<and> bt_holeoff bt = 0 \<and> bt_holelen bt = 0) \<and>
     (hole \<or> bt_holeoff bt = 0 \<and> bt_holelen bt = 0)"

definition obj_ok :: "bool \<Rightarrow> metaobj \<Rightarrow> bool" where
  "obj_ok hole mo \<longleftrightarrow> metaobj_typed mo \<and> mo_used mo \<in> {0, 1} \<and> (mo_used mo = 0 \<longrightarrow> mo_prev mo = 0 \<and> mo_next mo = 0) \<and>
     (case mo_data mo of BT bt r \<Rightarrow> tag_ok hole (mo_used mo = 1) bt | _ \<Rightarrow> True)"

definition layout_ok :: "'cb meta \<Rightarrow> bool" where
  "layout_ok m \<longleftrightarrow> mm_run_version m \<le> pfs_current_version \<and>
     (\<forall>t\<in>mtypes. root_wf (mm_anode m t) \<and> an_children (mm_anode m t) \<noteq> [] \<and>
        (\<forall>v\<in>objs m t. \<exists>b i mo. place m t v = Some (b, i) \<and> i < 2 ^ 32 \<and> mobj m t v = Some mo \<and>
           txop_key mo = (t, v) \<and> obj_ok (has_hole m) mo))"

text \<open>The operation that holds the transaction's version of an object points to its place; its
  checksum is right unless somebody is still working on it.\<close>

definition head_ok :: "(u32 \<Rightarrow> u8 list \<Rightarrow> u32) \<Rightarrow> 'cb meta \<Rightarrow> 'cb tx \<Rightarrow> u8 \<times> u64 \<Rightarrow> nat \<Rightarrow> bool" where
  "head_ok crc m tx k d \<longleftrightarrow> fst k \<in> mtypes \<and> snd k \<in> objs m (fst k) \<and>
     (\<exists>l b i f mo. core tx d = Some (l, Some b, b, i, f, Some d) \<and> place m (fst k) (snd k) = Some (b, i) \<and>
        mobj m (fst k) (snd k) = Some mo \<and> same_shape l mo \<and> obj_ok (has_hole m) l \<and>
        (is_open tx d \<or> pfs_metaobj_check_crc crc l))"

definition heads_ok :: "(u32 \<Rightarrow> u8 list \<Rightarrow> u32) \<Rightarrow> 'cb meta \<Rightarrow> 'cb tx \<Rightarrow> bool" where
  "heads_ok crc m tx \<longleftrightarrow> (\<forall>k d. t_opsroot tx k = Some d \<longrightarrow> head_ok crc m tx k d)"

definition free_ok :: "'cb meta \<Rightarrow> bool" where
  "free_ok m \<longleftrightarrow> (\<forall>t\<in>mtypes. free_vals (mm_anode m t) = {v \<in> objs m t. \<exists>mo. cur m t v = Some mo \<and> mo_used mo = 0})"

definition bd_in :: "'cb meta \<Rightarrow> u32 \<Rightarrow> u64 \<Rightarrow> bool" where
  "bd_in m s v \<longleftrightarrow> v \<in> objs m MT_BLKTAG \<and>
     (\<exists>mo bt r. cur m MT_BLKTAG v = Some mo \<and> mo_used mo = 0 \<and> mo_data mo = BT bt r \<and> bt_dstatus bt = s)"

definition bd_ok :: "'cb meta \<Rightarrow> bool" where
  "bd_ok m \<longleftrightarrow> mm_inited m \<longrightarrow> (\<forall>s\<in>{BDS_READY, BDS_INP}. \<forall>v\<in>mm_bdroot m s. bd_in m s v)"

definition meta_inv :: "(u32 \<Rightarrow> u8 list \<Rightarrow> u32) \<Rightarrow> 'cb meta \<Rightarrow> bool" where
  "meta_inv crc m \<longleftrightarrow> layout_ok m \<and> free_ok m \<and> bd_ok m \<and>
     (case mm_tx m of None \<Rightarrow> True | Some tx \<Rightarrow> tx_wf tx \<and> \<not> t_done tx \<and> heads_ok crc m tx)"

section \<open>Reading\<close>

lemma anode_get_read:
  "pfs_anode_get (metaset_read tx (mm_mem m)) (mm_anode m t) v = map_option (pfs_tx_get_mo tx) (mobj m t v)"
  by (auto simp: anode_get_leaf mobj_def place_def metaset_read_def split: option.splits)

lemma layout_obj:
  assumes "layout_ok m" "t \<in> mtypes" "v \<in> objs m t"
  obtains b i mo where "place m t v = Some (b, i)" "i < 2 ^ 32" "mobj m t v = Some mo" "txop_key mo = (t, v)"
    "obj_ok (has_hole m) mo" "i < length (mm_mem m b)" "mo = mm_mem m b ! i"
proof -
  have "\<exists>b i mo. place m t v = Some (b, i) \<and> i < 2 ^ 32 \<and> mobj m t v = Some mo \<and> txop_key mo = (t, v) \<and>
      obj_ok (has_hole m) mo"
    using assms unfolding layout_ok_def by blast
  then obtain b i mo where *: "place m t v = Some (b, i)" "i < 2 ^ 32" "mobj m t v = Some mo" "txop_key mo = (t, v)"
      "obj_ok (has_hole m) mo" by blast
  moreover have "i < length (mm_mem m b)" "mo = mm_mem m b ! i"
    using *(1,3) by (auto simp: mobj_def mem_obj_def split: if_splits)
  ultimately show thesis by (rule that)
qed

text \<open>The current object in terms of the transaction's versions.\<close>

definition pick :: "'cb tx option \<Rightarrow> u8 \<times> u64 \<Rightarrow> metaobj \<Rightarrow> metaobj" where
  "pick txo k mo =
     (case txo of
        None \<Rightarrow> mo
      | Some tx \<Rightarrow> if t_done tx then mo else (case tx_version tx k of None \<Rightarrow> mo | Some l \<Rightarrow> l))"

lemma get_mo_pick: "pfs_tx_get_mo txo mo = pick txo (txop_key mo) mo"
  by (simp add: pfs_tx_get_mo_def pick_def find_mo_version split: option.splits)

lemma cur_pick:
  assumes "layout_ok m" "t \<in> mtypes" "v \<in> objs m t" "mobj m t v = Some mo"
  shows "cur m t v = Some (pick (mm_tx m) (t, v) mo)"
proof -
  obtain mo' where "mobj m t v = Some mo'" "txop_key mo' = (t, v)" by (rule layout_obj [OF assms(1-3)])
  with assms(4) show ?thesis by (simp add: cur_def get_mo_pick)
qed

text \<open>Distinct objects have distinct places.\<close>

lemma place_inj:
  assumes l: "layout_ok m" and a: "t \<in> mtypes" "v \<in> objs m t" "place m t v = Some p"
    and b: "t' \<in> mtypes" "v' \<in> objs m t'" "place m t' v' = Some p"
  shows "(t, v) = (t', v')"
proof -
  obtain mo where "mobj m t v = Some mo" "txop_key mo = (t, v)" by (rule layout_obj [OF l a(1,2)])
  moreover obtain mo' where "mobj m t' v' = Some mo'" "txop_key mo' = (t', v')" by (rule layout_obj [OF l b(1,2)])
  moreover have "mobj m t v = mobj m t' v'" using a(3) b(3) by (simp add: mobj_def)
  ultimately show ?thesis by simp
qed

section \<open>Frames\<close>

text \<open>A state with the same memory and the same numbering of objects.\<close>

definition frame :: "'cb meta \<Rightarrow> 'cb meta \<Rightarrow> bool" where
  "frame m m' \<longleftrightarrow> mm_mem m' = mm_mem m \<and> mm_run_version m' = mm_run_version m \<and> mm_inited m' = mm_inited m \<and>
     mm_blksize m' = mm_blksize m \<and>
     (\<forall>t\<in>mtypes. skel (mm_anode m' t) = skel (mm_anode m t) \<and> root_wf (mm_anode m' t))"

lemma frame_refl [simp]: "layout_ok m \<Longrightarrow> frame m m"
  by (simp add: frame_def layout_ok_def)

lemma frame_trans: "frame m m1 \<Longrightarrow> frame m1 m2 \<Longrightarrow> frame m m2"
  by (simp add: frame_def)

lemma frame_objs: "frame m m' \<Longrightarrow> t \<in> mtypes \<Longrightarrow> objs m' t = objs m t"
  using all_vals_cong by (auto simp: frame_def)

lemma frame_place: "frame m m' \<Longrightarrow> t \<in> mtypes \<Longrightarrow> place m' t v = place m t v"
  using leaf_of_cong [of "mm_anode m' t" "mm_anode m t"] by (simp add: frame_def place_def anode_get_leaf)

lemma frame_mobj: "frame m m' \<Longrightarrow> t \<in> mtypes \<Longrightarrow> mobj m' t v = mobj m t v"
  by (simp add: mobj_def frame_place) (simp add: frame_def)

lemma frame_hole: "frame m m' \<Longrightarrow> has_hole m' = has_hole m"
  by (simp add: frame_def has_hole_def)

lemma frame_children: "frame m m' \<Longrightarrow> t \<in> mtypes \<Longrightarrow> an_children (mm_anode m' t) = [] \<longleftrightarrow> an_children (mm_anode m t) = []"
  using children_skel by (auto simp: frame_def)

lemma frame_layout: "frame m m' \<Longrightarrow> layout_ok m \<Longrightarrow> layout_ok m'"
  unfolding layout_ok_def
  by (auto simp: frame_objs frame_place frame_mobj frame_hole frame_children) (auto simp: frame_def)

lemma frame_heads: "frame m m' \<Longrightarrow> heads_ok crc m' tx = heads_ok crc m tx"
  unfolding heads_ok_def head_ok_def
  by (intro all_cong1 imp_cong refl conj_cong ex_cong1) (auto simp: frame_objs frame_place frame_mobj frame_hole)

lemmas frame_simps = frame_objs frame_place frame_mobj frame_hole frame_heads

text \<open>Nothing a reader sees has changed.\<close>

lemma inv_same_view:
  assumes inv: "meta_inv crc m" and tx: "mm_tx m = Some tx" "mm_tx m' = Some tx'"
    and fr: "frame m m'" "mm_anode m' = mm_anode m" "mm_bdroot m' = mm_bdroot m"
    and wf: "tx_wf tx'" "\<not> t_done tx'" "heads_ok crc m tx'"
    and ver: "\<And>t v mo. t \<in> mtypes \<Longrightarrow> v \<in> objs m t \<Longrightarrow> mobj m t v = Some mo \<Longrightarrow>
      pick (Some tx') (t, v) mo = pick (Some tx) (t, v) mo"
  shows "meta_inv crc m'"
proof -
  have l: "layout_ok m" "layout_ok m'" using inv frame_layout [OF fr(1)] by (auto simp: meta_inv_def)
  have cur: "cur m' t v = cur m t v" if tv: "t \<in> mtypes" "v \<in> objs m t" for t v
  proof -
    obtain mo where mo: "mobj m t v = Some mo" by (rule layout_obj [OF l(1) tv])
    show ?thesis
      using cur_pick [OF l(1) tv mo] cur_pick [OF l(2) tv(1), of v mo] tv mo tx ver [OF tv mo] fr(1) by (simp add: frame_simps)
  qed
  have "free_ok m'" using inv cur fr(2) by (auto simp: meta_inv_def free_ok_def)
  moreover have "bd_ok m'"
    using inv cur [of MT_BLKTAG] fr by (auto simp: meta_inv_def bd_ok_def bd_in_def frame_def mtypes_def)
  ultimately show ?thesis using l wf tx fr by (simp add: meta_inv_def frame_heads)
qed

section \<open>New operations\<close>

lemma new_op_tx:
  assumes "meta_inv crc m" "new_op m = Some (a, m')"
  obtains tx tx' where "mm_tx m = Some tx" "pfs_tx_new_op True tx = Inr (a, tx')" "m' = m\<lparr>mm_tx := Some tx'\<rparr>"
    "tx_wf tx" "\<not> t_done tx" "heads_ok crc m tx" "layout_ok m"
  using assms by (auto simp: new_op_def meta_inv_def split: option.splits sum.splits)

lemma heads_ok_mono:
  assumes "heads_ok crc m tx" "t_opsroot tx' = t_opsroot tx"
    and "\<And>k d. t_opsroot tx k = Some d \<Longrightarrow> core tx' d = core tx d"
    and "\<And>d. is_open tx d \<Longrightarrow> is_open tx' d"
  shows "heads_ok crc m tx'"
  unfolding heads_ok_def
proof (intro allI impI)
  fix k d assume "t_opsroot tx' k = Some d"
  then have d: "t_opsroot tx k = Some d" using assms(2) by simp
  with assms(1) have h: "head_ok crc m tx k d" unfolding heads_ok_def by blast
  show "head_ok crc m tx' k d"
    using h assms(3) [OF d] assms(4) [of d] unfolding head_ok_def by metis
qed

lemma new_op_inv:
  assumes inv: "meta_inv crc m" and n: "new_op m = Some (a, m')"
  shows "meta_inv crc m'" "frame m m'"
proof -
  obtain tx tx' where tx: "mm_tx m = Some tx" "pfs_tx_new_op True tx = Inr (a, tx')" "m' = m\<lparr>mm_tx := Some tx'\<rparr>"
      "tx_wf tx" "\<not> t_done tx" "heads_ok crc m tx" "layout_ok m" by (rule new_op_tx [OF inv n])
  note w = tx_new_op_wf [OF tx(4,2)]
  show fr: "frame m m'" using tx(3,7) by (simp add: frame_def layout_ok_def)
  have na: "d \<noteq> a" if "t_opsroot tx k = Some d" for k d
    using tx_wf_root [OF tx(4) that] w(4) by (auto simp: core_def)
  have core: "core tx' d = core tx d" if "t_opsroot tx k = Some d" for k d
    using w(5) [of d] na [OF that] by (simp add: core_def)
  have opn: "is_open tx' d" if op: "is_open tx d" for d
    using op w(4,5) unfolding is_open_def by (metis option.distinct(1))
  have ver: "tx_version tx' k = tx_version tx k" for k
    using core w(3) by (auto simp: tx_version_core split: option.splits)
  show "meta_inv crc m'"
    by (rule inv_same_view [OF inv tx(1), of m' tx'])
       (use tx fr w(1,3,6) core opn ver in \<open>auto simp: pick_def intro: heads_ok_mono\<close>)
qed

section \<open>Getting an object\<close>

definition txok :: "(u32 \<Rightarrow> u8 list \<Rightarrow> u32) \<Rightarrow> 'cb meta \<Rightarrow> 'cb tx \<Rightarrow> bool" where
  "txok crc m tx \<longleftrightarrow> layout_ok m \<and> tx_wf tx \<and> \<not> t_done tx \<and> heads_ok crc m tx"

lemma meta_inv_txok: "meta_inv crc m \<Longrightarrow> mm_tx m = Some tx \<Longrightarrow> txok crc m tx"
  by (simp add: meta_inv_def txok_def)

lemma same_shape_refl: "obj_ok h mo \<Longrightarrow> same_shape mo mo"
  by (simp add: obj_ok_def same_shape_def)

lemma head_ok_keep:
  assumes "head_ok crc m tx k d" "core tx' d = core tx d" "is_open tx d \<Longrightarrow> is_open tx' d"
  shows "head_ok crc m tx' k d"
  using assms unfolding head_ok_def by metis

lemma get_top_ok:
  assumes ok: "txok crc m tx" and tv: "t \<in> mtypes" "v \<in> objs m t" and a: "tx_op tx a = Some tp" "top_flags tp = 0"
  obtains d tx' where "pfs_anode_get (metaset_get_top tx a (mm_mem m)) (mm_anode m t) v = Some (d, tx')"
    "txok crc m tx'" "t_opsroot tx' (t, v) = Some d" "is_open tx' d"
    "\<And>e. is_open tx e \<Longrightarrow> is_open tx' e"
    "\<And>mo. mobj m t v = Some mo \<Longrightarrow> tx_version tx' (t, v) = Some (pick (Some tx) (t, v) mo)"
    "\<And>k. k \<noteq> (t, v) \<Longrightarrow> tx_version tx' k = tx_version tx k"
proof -
  have l: "layout_ok m" "tx_wf tx" "\<not> t_done tx" "heads_ok crc m tx" using ok by (auto simp: txok_def)
  obtain b i mo where o: "place m t v = Some (b, i)" "mobj m t v = Some mo" "txop_key mo = (t, v)"
      "obj_ok (has_hole m) mo" "i < length (mm_mem m b)" "mo = mm_mem m b ! i"
    by (rule layout_obj [OF l(1) tv])
  obtain h w where leaf: "leaf_of (mm_anode m t) v = Some (h, w)" "ms_place h w = Some (b, i)"
    using o(1) by (auto simp: place_def anode_get_leaf split: option.splits)
  have get: "pfs_anode_get (metaset_get_top tx a (mm_mem m)) (mm_anode m t) v = pfs_txop_init tx a b mo i b"
    using leaf o(5,6) by (simp add: anode_get_leaf metaset_get_top_def mem_obj_def)
  obtain d tx' where init: "pfs_txop_init tx a b mo i b = Some (d, tx')"
    using txop_init_core [OF l(2) a, of b mo i b] by blast
  note w = txop_init_wf [OF l(2) a init]
  have "head_ok crc m tx' k e" if k: "t_opsroot tx' k = Some e" for k e
  proof (cases "t_opsroot tx k")
    case (Some e')
    have "e' = e" using k w(2,7) Some o(3) by (cases "k = (t, v)") auto
    moreover have "head_ok crc m tx k e'" using l(4) Some unfolding heads_ok_def by blast
    ultimately show ?thesis using w(9) [OF Some] w(4) by (auto intro: head_ok_keep)
  next
    case None
    then have k: "k = (t, v)" "e = d" using k w(2) o(3) by (auto split: if_splits)
    have "core tx' d = Some (mo, Some b, b, i, TOP_FLG_INITED, Some d)" using w(8) None k o(3) by simp
    then show ?thesis unfolding head_ok_def using k tv o w(3) same_shape_refl by auto
  qed
  then have "txok crc m tx'" using l w(1,5) unfolding txok_def heads_ok_def by blast
  moreover have "tx_version tx' (t, v) = Some (pick (Some tx) (t, v) mo')" if "mobj m t v = Some mo'" for mo'
    using w(6) [of "(t, v)"] that o(2,3) l(3) by (simp add: pick_def split: option.splits)
  ultimately show thesis
    using get init w(2,3,4,6) o(3) by (intro that [of d tx']) auto
qed

lemma pick_get:
  assumes "txok crc m tx" "txok crc m tx'" "t \<in> mtypes" "v \<in> objs m t"
    "\<And>mo. mobj m t v = Some mo \<Longrightarrow> tx_version tx' (t, v) = Some (pick (Some tx) (t, v) mo)"
    "\<And>k. k \<noteq> (t, v) \<Longrightarrow> tx_version tx' k = tx_version tx k"
    "mobj m t' v' = Some mo"
  shows "pick (Some tx') (t', v') mo = pick (Some tx) (t', v') mo"
  using assms by (cases "(t', v') = (t, v)") (auto simp: pick_def txok_def)

lemma meta_get_top_inv:
  assumes inv: "meta_inv crc m" and tx: "mm_tx m = Some tx" and tv: "t \<in> mtypes" "v \<in> objs m t"
    and a: "tx_op tx a = Some tp" "top_flags tp = 0"
  obtains d m' tx' where "pfs_meta_get_top t v a m = Some (d, m')" "meta_inv crc m'" "frame m m'" "mm_tx m' = Some tx'"
    "t_opsroot tx' (t, v) = Some d" "is_open tx' d" "\<And>e. is_open tx e \<Longrightarrow> is_open tx' e"
    "mm_anode m' = mm_anode m" "mm_bdroot m' = mm_bdroot m" "tx_version tx' (t, v) = cur m t v"
    "\<And>k. k \<noteq> (t, v) \<Longrightarrow> tx_version tx' k = tx_version tx k"
proof -
  let ?m = "pfs_meta_lock m"
  have m: "mm_tx ?m = mm_tx m" "mm_mem ?m = mm_mem m" "mm_anode ?m = mm_anode m" "mm_bdroot ?m = mm_bdroot m"
      "frame m ?m"
    using inv by (auto simp: pfs_meta_lock_def frame_def meta_inv_def layout_ok_def split: option.splits)
  note ok = meta_inv_txok [OF inv tx]
  obtain d tx' where g: "pfs_anode_get (metaset_get_top tx a (mm_mem m)) (mm_anode m t) v = Some (d, tx')"
    "txok crc m tx'" "t_opsroot tx' (t, v) = Some d" "is_open tx' d" "\<And>e. is_open tx e \<Longrightarrow> is_open tx' e"
    "\<And>mo. mobj m t v = Some mo \<Longrightarrow> tx_version tx' (t, v) = Some (pick (Some tx) (t, v) mo)"
    "\<And>k. k \<noteq> (t, v) \<Longrightarrow> tx_version tx' k = tx_version tx k"
    by (rule get_top_ok [OF ok tv a]) blast
  let ?m' = "?m\<lparr>mm_tx := Some tx'\<rparr>"
  have fr: "frame m ?m'" using m(5) by (simp add: frame_def)
  have l: "layout_ok m" using ok by (simp add: txok_def)
  obtain mo where mo: "mobj m t v = Some mo" by (rule layout_obj [OF l tv])
  have "meta_inv crc ?m'"
    by (rule inv_same_view [OF inv tx, of ?m' tx'])
       (use fr m g(2) pick_get [OF ok g(2) tv g(6,7)] in \<open>auto simp: txok_def\<close>)
  moreover have "pfs_meta_get_top t v a m = Some (d, ?m')"
    using g(1) tx m by (simp add: pfs_meta_get_top_def anode_get_top_def)
  moreover have "tx_version tx' (t, v) = cur m t v" using g(6) [OF mo] cur_pick [OF l tv mo] tx by simp
  ultimately show thesis using fr g(3-7) m by (intro that [of d ?m' tx']) auto
qed

section \<open>Changing an object\<close>

definition change_ok :: "bool \<Rightarrow> metaobj \<Rightarrow> metaobj \<Rightarrow> bool" where
  "change_ok hole l mo \<longleftrightarrow> txop_key mo = txop_key l \<and> mo_rest (mo_data mo) = mo_rest (mo_data l) \<and> obj_ok hole mo"

lemma same_shape_change: "same_shape l mo0 \<Longrightarrow> change_ok h l mo \<Longrightarrow> same_shape mo mo0"
  by (simp add: same_shape_def change_ok_def obj_ok_def txop_key_def)

lemma local_change_ok:
  assumes ok: "txok crc m tx" and d: "t_opsroot tx k = Some d" "is_open tx d" "tx_version tx k = Some l"
    and ch: "change_ok (has_hole m) l mo" and tx': "tx' = tx_upd d (\<lambda>t. t\<lparr>top_local := mo\<rparr>) tx"
  shows "txok crc m tx'" and "tx_version tx' k' = (if k' = k then Some mo else tx_version tx k')"
    and "t_opsroot tx' = t_opsroot tx" and "is_open tx' e = is_open tx e"
proof -
  have l: "layout_ok m" "tx_wf tx" "\<not> t_done tx" "heads_ok crc m tx" using ok by (auto simp: txok_def)
  obtain tp where tp: "tx_op tx d = Some tp" "txop_key (top_local tp) = k" "tx_version tx k = Some (top_local tp)"
    by (rule tx_wf_head [OF l(2) d(1)])
  then have key: "txop_key mo = k" using d(3) ch by (simp add: change_ok_def)
  note w = local_upd_wf [OF l(2) d(1) key tx']
  have "head_ok crc m tx' k' e" if k': "t_opsroot tx' k' = Some e" for k' e
  proof -
    have e: "t_opsroot tx k' = Some e" using k' w(2) by simp
    then have h: "head_ok crc m tx k' e" using l(4) unfolding heads_ok_def by blast
    show ?thesis
    proof (cases "e = d")
      case False
      then show ?thesis using h w(4,7) by (auto intro: head_ok_keep)
    next
      case True
      then have k: "k' = k" using tx_wf_key_inj [OF l(2) d(1), of k'] e by simp
      obtain l0 b i f mo0 where c: "core tx d = Some (l0, Some b, b, i, f, Some d)"
          "place m (fst k) (snd k) = Some (b, i)" "mobj m (fst k) (snd k) = Some mo0" "same_shape l0 mo0"
          "fst k \<in> mtypes" "snd k \<in> objs m (fst k)"
        using h True k unfolding head_ok_def by blast
      have "l0 = l" using c(1) d(3) tp by (auto simp: core_def op_core_def)
      then have "same_shape mo mo0" using same_shape_change [OF c(4)] ch by blast
      moreover have "is_open tx' d" using w(4) d(2) by simp
      ultimately show ?thesis
        unfolding head_ok_def using True k c(2,3,5,6) w(6) [OF c(1)] ch by (auto simp: change_ok_def)
    qed
  qed
  then show "txok crc m tx'" using l w(1,3) unfolding txok_def heads_ok_def by blast
  show "tx_version tx' k' = (if k' = k then Some mo else tx_version tx k')" "t_opsroot tx' = t_opsroot tx"
    "is_open tx' e = is_open tx e" by (fact w(5) w(2) w(4))+
qed

text \<open>A change of one object with the matching change of its bit and of the discard index.\<close>

lemma inv_one_change:
  assumes ok: "txok crc m tx" "txok crc m tx'" and m: "mm_tx m = Some tx" "free_ok m" "bd_ok m"
    and m': "mm_tx m' = Some tx'" "frame m m'"
    and tv: "t \<in> mtypes" "v \<in> objs m t"
    and ver: "tx_version tx' (t, v) = Some mo" "\<And>k. k \<noteq> (t, v) \<Longrightarrow> tx_version tx' k = tx_version tx k"
    and free: "\<And>t'. t' \<in> mtypes \<Longrightarrow> free_vals (mm_anode m' t') =
      (if t' = t then (if mo_used mo = 0 then insert v (free_vals (mm_anode m t)) else free_vals (mm_anode m t) - {v})
       else free_vals (mm_anode m t'))"
    and bd: "\<And>s u. s \<in> {BDS_READY, BDS_INP} \<Longrightarrow> mm_inited m \<Longrightarrow> u \<in> mm_bdroot m' s \<Longrightarrow>
      (if (MT_BLKTAG, u) = (t, v) then mo_used mo = 0 \<and> (\<exists>bt r. mo_data mo = BT bt r \<and> bt_dstatus bt = s)
       else u \<in> mm_bdroot m s)"
  shows "meta_inv crc m'"
proof -
  have l: "layout_ok m" "layout_ok m'" "\<not> t_done tx'" "\<not> t_done tx"
    using ok frame_layout [OF m'(2)] by (auto simp: txok_def)
  have cur: "cur m' t' u = (if (t', u) = (t, v) then Some mo else cur m t' u)" if tu: "t' \<in> mtypes" "u \<in> objs m t'" for t' u
  proof -
    obtain mo0 where mo0: "mobj m t' u = Some mo0" by (rule layout_obj [OF l(1) tu])
    have "cur m' t' u = Some (pick (Some tx') (t', u) mo0)"
      using cur_pick [OF l(2) tu(1), of u mo0] tu mo0 m' by (simp add: frame_simps)
    moreover have "cur m t' u = Some (pick (Some tx) (t', u) mo0)" using cur_pick [OF l(1) tu mo0] m by simp
    ultimately show ?thesis using ver(1) ver(2) [of "(t', u)"] l by (auto simp: pick_def)
  qed
  have "free_ok m'"
    unfolding free_ok_def
  proof
    fix t' assume t': "t' \<in> mtypes"
    have "free_vals (mm_anode m t') = {u \<in> objs m t'. \<exists>mo. cur m t' u = Some mo \<and> mo_used mo = 0}"
      using m(2) t' by (simp add: free_ok_def)
    then show "free_vals (mm_anode m' t') = {u \<in> objs m' t'. \<exists>mo. cur m' t' u = Some mo \<and> mo_used mo = 0}"
      using free [OF t'] cur [OF t'] tv frame_objs [OF m'(2) t'] by (auto split: if_splits)
  qed
  moreover have "bd_ok m'"
    unfolding bd_ok_def
  proof (intro impI ballI)
    fix s u assume i: "mm_inited m'" and s: "s \<in> {BDS_READY, BDS_INP}" and u: "u \<in> mm_bdroot m' s"
    have i': "mm_inited m" using i m'(2) by (simp add: frame_def)
    have o: "objs m' MT_BLKTAG = objs m MT_BLKTAG" using frame_objs [OF m'(2)] by (simp add: mtypes_def)
    show "bd_in m' s u"
    proof (cases "(MT_BLKTAG, u) = (t, v)")
      case True
      then show ?thesis using bd [OF s i' u] tv cur [OF tv] o by (auto simp: bd_in_def)
    next
      case False
      then have "bd_in m s u" using bd [OF s i' u] m(3) i' s by (auto simp: bd_ok_def)
      then show ?thesis using False cur [of MT_BLKTAG u] o by (auto simp: bd_in_def mtypes_def)
    qed
  qed
  ultimately show ?thesis
    using l(2) ok(2) m' by (simp add: meta_inv_def txok_def frame_heads)
qed

section \<open>Edits\<close>

lemma cur_version:
  assumes "txok crc m tx" "mm_tx m = Some tx" "t \<in> mtypes" "v \<in> objs m t" "tx_version tx (t, v) = Some l"
  shows "cur m t v = Some l"
proof -
  have l: "layout_ok m" "\<not> t_done tx" using assms(1) by (auto simp: txok_def)
  obtain mo where mo: "mobj m t v = Some mo" by (rule layout_obj [OF l(1) assms(3,4)])
  show ?thesis using cur_pick [OF l(1) assms(3,4) mo] assms(2,5) l(2) by (simp add: pick_def)
qed

lemma head_key:
  assumes "txok crc m tx" "t_opsroot tx (t, v) = Some d"
  shows "t \<in> mtypes" "v \<in> objs m t" "\<exists>tp. tx_op tx d = Some tp \<and> tx_version tx (t, v) = Some (top_local tp)"
proof -
  have "tx_wf tx" "head_ok crc m tx (t, v) d" using assms unfolding txok_def heads_ok_def by blast+
  then show "t \<in> mtypes" "v \<in> objs m t" by (auto simp: head_ok_def)
  obtain tp where "tx_op tx d = Some tp" "tx_version tx (t, v) = Some (top_local tp)"
    by (rule tx_wf_head [OF \<open>tx_wf tx\<close> assms(2)])
  then show "\<exists>tp. tx_op tx d = Some tp \<and> tx_version tx (t, v) = Some (top_local tp)" by blast
qed

lemma local_upd_version:
  assumes "txok crc m tx" "mm_tx m' = Some tx" "t_opsroot tx (t, v) = Some d" "tx_version tx (t, v) = Some l"
  shows "local_upd d f m' = map_option (\<lambda>mo. m'\<lparr>mm_tx := Some (tx_upd d (\<lambda>t. t\<lparr>top_local := mo\<rparr>) tx)\<rparr>) (f l)"
    and "tx_local d m' = Some l"
  using head_key(3) [OF assms(1,3)] assms(2,4) by (auto simp: local_upd_def tx_local_def split: option.splits)

lemma free_iff_unused:
  assumes "meta_inv crc m" "t \<in> mtypes" "v \<in> objs m t" "cur m t v = Some l"
  shows "v \<in> free_vals (mm_anode m t) \<longleftrightarrow> mo_used l = 0"
  using assms by (auto simp: meta_inv_def free_ok_def)

text \<open>A change that keeps the object used or unused, and right for the discard index.\<close>

lemma edit_gen:
  assumes inv: "meta_inv crc m" and tx: "mm_tx m = Some tx" and d: "t_opsroot tx (t, v) = Some d" "is_open tx d"
    and l: "tx_version tx (t, v) = Some l" and ch: "change_ok (has_hole m) l (f l)" "mo_used (f l) = mo_used l"
    and bd: "\<And>s. s \<in> {BDS_READY, BDS_INP} \<Longrightarrow> t = MT_BLKTAG \<Longrightarrow> mm_inited m \<Longrightarrow> v \<in> mm_bdroot m s \<Longrightarrow>
      mo_used l = 0 \<and> (\<exists>bt r. mo_data (f l) = BT bt r \<and> bt_dstatus bt = s)"
  obtains m' tx' where "set_local d f m = Some m'" "meta_inv crc m'" "frame m m'" "mm_tx m' = Some tx'"
    "t_opsroot tx' = t_opsroot tx" "\<And>e. is_open tx' e = is_open tx e" "mm_anode m' = mm_anode m" "mm_bdroot m' = mm_bdroot m"
    "\<And>k. tx_version tx' k = (if k = (t, v) then Some (f l) else tx_version tx k)"
proof -
  note ok = meta_inv_txok [OF inv tx]
  define tx' where "tx' = tx_upd d (\<lambda>t. t\<lparr>top_local := f l\<rparr>) tx"
  note w = local_change_ok [OF ok d l(1) ch(1) tx'_def]
  let ?m' = "m\<lparr>mm_tx := Some tx'\<rparr>"
  have lay: "layout_ok m" using ok by (simp add: txok_def)
  note tv = head_key(1,2) [OF ok d(1)]
  note fu = free_iff_unused [OF inv tv cur_version [OF ok tx tv l(1)]]
  have fr: "frame m ?m'" using lay by (simp add: frame_def layout_ok_def)
  have bd': "if (MT_BLKTAG, u) = (t, v) then mo_used (f l) = 0 \<and> (\<exists>bt r. mo_data (f l) = BT bt r \<and> bt_dstatus bt = s)
       else u \<in> mm_bdroot m s" if "s \<in> {BDS_READY, BDS_INP}" "mm_inited m" "u \<in> mm_bdroot ?m' s" for s u
    using bd [OF that(1) _ that(2)] that(3) ch(2) by auto
  have "meta_inv crc ?m'"
    by (rule inv_one_change [OF ok w(1) tx _ _ _ fr tv _ _ _ bd'])
       (use inv w(2) ch(2) fu in \<open>auto simp: meta_inv_def\<close>)
  moreover have "set_local d f m = Some ?m'"
    unfolding set_local_def using local_upd_version(1) [OF ok tx d(1) l(1), of "\<lambda>mo. Some (f mo)"] by (simp add: tx'_def)
  ultimately show thesis using fr w(2-4) by (intro that [of ?m' tx']) auto
qed

lemma not_indexed:
  assumes "meta_inv crc m" "cur m MT_BLKTAG v = Some l" "mm_inited m" "s \<in> {BDS_READY, BDS_INP}" "v \<in> mm_bdroot m s"
  shows "mo_used l = 0" "\<exists>bt r. mo_data l = BT bt r \<and> bt_dstatus bt = s"
  using assms by (auto simp: meta_inv_def bd_ok_def bd_in_def)

lemma edit_inv:
  assumes inv: "meta_inv crc m" and tx: "mm_tx m = Some tx" and d: "t_opsroot tx (t, v) = Some d" "is_open tx d"
    and l: "tx_version tx (t, v) = Some l" "mo_used l = 1" and ch: "change_ok (has_hole m) l (f l)" "mo_used (f l) = 1"
  obtains m' tx' where "set_local d f m = Some m'" "meta_inv crc m'" "frame m m'" "mm_tx m' = Some tx'"
    "t_opsroot tx' = t_opsroot tx" "\<And>e. is_open tx' e = is_open tx e" "mm_anode m' = mm_anode m" "mm_bdroot m' = mm_bdroot m"
    "\<And>k. tx_version tx' k = (if k = (t, v) then Some (f l) else tx_version tx k)"
proof (rule edit_gen [where f = f, OF inv tx d l(1) ch(1)], goal_cases)
  case (2 s)
  note ok = meta_inv_txok [OF inv tx]
  have "cur m t v = Some l" by (rule cur_version [OF ok tx head_key(1,2) [OF ok d(1)] l(1)])
  then show ?case using not_indexed(1) [OF inv, of v l s] 2 l(2) by simp
qed (use l(2) ch(2) that in auto)

section \<open>Allocation\<close>

lemma accepts_cur:
  assumes "layout_ok m" "t \<in> mtypes" "v \<in> objs m t" "cur m t v = Some mo"
  shows "accepts (pfs_metaset_alloc m) (mm_anode m t) v \<longleftrightarrow> mo_used mo = 0 \<and>
    (mo_type mo = MT_BLKTAG \<longrightarrow> (case MO2BT mo of Some bt \<Rightarrow> bt_dstatus bt \<noteq> BDS_INP | None \<Rightarrow> False))"
proof -
  obtain b i where "place m t v = Some (b, i)" by (rule layout_obj [OF assms(1-3)])
  then obtain h w where leaf: "leaf_of (mm_anode m t) v = Some (h, w)"
    by (auto simp: place_def anode_get_leaf split: option.splits)
  have "metaset_read (mm_tx m) (mm_mem m) h w = Some mo"
    using anode_get_read [of "mm_tx m" m t v] assms(4) leaf by (simp add: anode_get_leaf cur_def)
  then show ?thesis by (simp add: accepts_def anode_get_leaf leaf pfs_metaset_alloc_def)
qed

text \<open>What allocation gives: a free object, now in use, held by an operation of the transaction.\<close>

definition allocated ::
    "(u32 \<Rightarrow> u8 list \<Rightarrow> u32) \<Rightarrow> 'cb meta \<Rightarrow> 'cb tx \<Rightarrow> u8 \<Rightarrow> nat \<Rightarrow> 'cb meta \<Rightarrow> u64 \<Rightarrow> metaobj \<Rightarrow> bool" where
  "allocated crc m tx t d m' v mo \<longleftrightarrow> meta_inv crc m' \<and> frame m m' \<and> v \<in> free_vals (mm_anode m t) \<and> mo_used mo = 1 \<and>
     (\<exists>tx'. mm_tx m' = Some tx' \<and> t_opsroot tx' (t, v) = Some d \<and> is_open tx' d \<and> tx_version tx' (t, v) = Some mo \<and>
        (\<forall>e. is_open tx e \<longrightarrow> is_open tx' e) \<and> (\<forall>k. k \<noteq> (t, v) \<longrightarrow> tx_version tx' k = tx_version tx k))"

lemma take_obj:
  assumes inv: "meta_inv crc m" and tx: "mm_tx m = Some tx" and t: "t \<in> mtypes" and v: "v \<in> free_vals (mm_anode m t)"
    and a: "tx_op tx a = Some tp" "top_flags tp = 0"
    and an: "skel an = skel (mm_anode m t)" "root_wf an" "free_vals an = free_vals (mm_anode m t) - {v}"
    and m1: "m1 = m\<lparr>mm_bdroot := bd, mm_anode := (mm_anode m)(t := an)\<rparr>"
    and bd: "\<And>s. bd s \<subseteq> mm_bdroot m s" "t = MT_BLKTAG \<Longrightarrow> mm_inited m \<Longrightarrow> v \<notin> bd BDS_READY \<and> v \<notin> bd BDS_INP"
    and l: "cur m t v = Some l" "init l = Some mo" "change_ok (has_hole m) l mo" "mo_used mo = 1"
  obtains d m2 m3 where "anode_get_top t v a m1 = Some (d, m2)" "local_upd d init m2 = Some m3"
    "allocated crc m tx t d m3 v mo"
proof -
  have vo: "v \<in> objs m t" using v free_vals_subset by blast
  have lay: "layout_ok m" using inv by (simp add: meta_inv_def)
  have fr1: "frame m m1" using lay an(1,2) by (auto simp: frame_def m1 layout_ok_def)
  note ok = meta_inv_txok [OF inv tx]
  then have ok1: "txok crc m1 tx" using frame_layout [OF fr1] frame_heads [OF fr1] by (simp add: txok_def)
  have vo1: "v \<in> objs m1 t" using vo frame_objs [OF fr1 t] by simp
  obtain d tx2 where g: "pfs_anode_get (metaset_get_top tx a (mm_mem m1)) (mm_anode m1 t) v = Some (d, tx2)"
    "txok crc m1 tx2" "t_opsroot tx2 (t, v) = Some d" "is_open tx2 d" "\<And>e. is_open tx e \<Longrightarrow> is_open tx2 e"
    "\<And>mo. mobj m1 t v = Some mo \<Longrightarrow> tx_version tx2 (t, v) = Some (pick (Some tx) (t, v) mo)"
    "\<And>k. k \<noteq> (t, v) \<Longrightarrow> tx_version tx2 k = tx_version tx k"
    by (rule get_top_ok [OF ok1 t vo1 a]) blast
  obtain mo0 where mo0: "mobj m t v = Some mo0" by (rule layout_obj [OF lay t vo])
  have ver: "tx_version tx2 (t, v) = Some l"
    using g(6) [of mo0] cur_pick [OF lay t vo mo0] mo0 l(1) tx frame_mobj [OF fr1 t] by simp
  have ok2: "txok crc m tx2" using g(2) frame_heads [OF fr1] lay by (simp add: txok_def)
  define tx3 where "tx3 = tx_upd d (\<lambda>t. t\<lparr>top_local := mo\<rparr>) tx2"
  note w = local_change_ok [OF ok2 g(3,4) ver l(3) tx3_def]
  let ?m2 = "m1\<lparr>mm_tx := Some tx2\<rparr>" and ?m3 = "m1\<lparr>mm_tx := Some tx3\<rparr>"
  have get: "anode_get_top t v a m1 = Some (d, ?m2)" using g(1) tx by (simp add: anode_get_top_def m1)
  have upd: "local_upd d init ?m2 = Some ?m3"
    using local_upd_version(1) [OF ok2 _ g(3) ver, of ?m2 init] l(2) by (simp add: tx3_def)
  have fr: "frame m ?m3" using fr1 by (simp add: frame_def)
  have "meta_inv crc ?m3"
    by (rule inv_one_change [OF ok w(1) tx _ _ _ fr t vo, of mo])
       (use inv w(2) g(7) an(3) bd l(4) in \<open>auto simp: meta_inv_def m1 subset_iff\<close>)
  then have "allocated crc m tx t d ?m3 v mo"
    unfolding allocated_def using fr v l(4) w g(3-5,7) by auto
  with get upd show thesis by (rule that)
qed

lemma cur_obj:
  assumes inv: "meta_inv crc m" and tv: "t \<in> mtypes" "v \<in> objs m t"
  obtains l where "cur m t v = Some l" "obj_ok (has_hole m) l" "txop_key l = (t, v)"
proof -
  have lay: "layout_ok m" using inv by (simp add: meta_inv_def)
  obtain mo where mo: "mobj m t v = Some mo" "obj_ok (has_hole m) mo" "txop_key mo = (t, v)"
    by (rule layout_obj [OF lay tv])
  note c = cur_pick [OF lay tv mo(1)]
  show thesis
  proof (cases "mm_tx m")
    case None
    with c mo show thesis by (intro that) (auto simp: pick_def)
  next
    case (Some tx)
    note ok = meta_inv_txok [OF inv Some]
    show thesis
    proof (cases "t_opsroot tx (t, v)")
      case None
      with Some c mo show thesis by (intro that [of mo]) (auto simp: pick_def tx_version_def)
    next
      case (Some d)
      have wf: "tx_wf tx" and h: "head_ok crc m tx (t, v) d" using ok Some unfolding txok_def heads_ok_def by blast+
      obtain tp where tp: "tx_op tx d = Some tp" "txop_key (top_local tp) = (t, v)" "tx_version tx (t, v) = Some (top_local tp)"
        by (rule tx_wf_head [OF wf Some])
      then have "obj_ok (has_hole m) (top_local tp)" using h by (auto simp: head_ok_def core_def op_core_def)
      moreover have "cur m t v = Some (top_local tp)" using cur_version [OF ok _ tv tp(3)] \<open>mm_tx m = Some tx\<close> .
      ultimately show thesis using tp(2) by (intro that)
    qed
  qed
qed

lemma free_cur:
  assumes inv: "meta_inv crc m" and t: "t \<in> mtypes" and v: "v \<in> free_vals (mm_anode m t)"
  obtains l where "cur m t v = Some l" "obj_ok (has_hole m) l" "txop_key l = (t, v)" "mo_used l = 0" "v \<in> objs m t"
proof -
  have vo: "v \<in> objs m t" using v free_vals_subset by blast
  obtain l where l: "cur m t v = Some l" "obj_ok (has_hole m) l" "txop_key l = (t, v)" by (rule cur_obj [OF inv t vo])
  moreover have "mo_used l = 0" using inv t v l(1) by (auto simp: meta_inv_def free_ok_def)
  ultimately show thesis using vo by (rule that)
qed

lemma typed_upd [simp]:
  "metaobj_typed (mo\<lparr>mo_used := u\<rparr>) = metaobj_typed mo" "metaobj_typed (mo\<lparr>mo_prev := p\<rparr>) = metaobj_typed mo"
  "metaobj_typed (mo\<lparr>mo_next := n\<rparr>) = metaobj_typed mo" "metaobj_typed (mo\<lparr>mo_checksum := c\<rparr>) = metaobj_typed mo"
  by (simp_all add: metaobj_typed.simps split: modata.splits)

lemma init_common:
  assumes "obj_ok h l" "txop_key l = (t, v)" "mo_used l = 0" "t \<noteq> MT_BLKTAG"
  shows "pfs_metaobj_init l t = Some (l\<lparr>mo_used := 1\<rparr>)" "change_ok h l (l\<lparr>mo_used := 1\<rparr>)"
  using assms
  by (auto simp: pfs_metaobj_init_def obj_ok_def txop_key_def change_ok_def metaobj_typed.simps split: modata.splits)

lemma alloc_common_inv:
  assumes inv: "meta_inv crc m" and tx: "mm_tx m = Some tx" and t: "t \<in> mtypes" "t \<noteq> MT_BLKTAG"
    and a: "tx_op tx a = Some tp" "top_flags tp = 0"
  shows "case pfs_metaobj_alloc_common t a m of
       None \<Rightarrow> False
     | Some None \<Rightarrow> free_vals (mm_anode m t) = {}
     | Some (Some (d, m')) \<Rightarrow> \<exists>v mo. allocated crc m tx t d m' v mo"
proof -
  have lay: "layout_ok m" using inv by (simp add: meta_inv_def)
  then have root: "root_wf (mm_anode m t)" "an_children (mm_anode m t) \<noteq> []" using t by (auto simp: layout_ok_def)
  show ?thesis
  proof (cases "pfs_anode_alloc (pfs_metaset_alloc m) (mm_anode m t)")
    case None
    then show ?thesis using alloc_root_total [OF root(1)] by blast
  next
    case (Some r)
    show ?thesis
    proof (cases r)
      case (Inl e)
      have "free_vals (mm_anode m t) = {}"
      proof (rule ccontr)
        assume "free_vals (mm_anode m t) \<noteq> {}"
        then obtain v where v: "v \<in> free_vals (mm_anode m t)" by blast
        obtain l where l: "cur m t v = Some l" "txop_key l = (t, v)" "mo_used l = 0" "v \<in> objs m t"
          by (rule free_cur [OF inv t(1) v])
        have "accepts (pfs_metaset_alloc m) (mm_anode m t) v"
          using accepts_cur [OF lay t(1) l(4,1)] l(2,3) t(2) by (simp add: txop_key_def)
        then show False using alloc_root_err [OF root(1)] Some Inl v by blast
      qed
      moreover from alloc_nothing_free [OF _ root(2) this] root(1) have "e = - ENOSPC"
        using Some Inl by (auto simp: root_wf_def)
      ultimately show ?thesis using Some Inl by (simp add: pfs_metaobj_alloc_common_def)
    next
      case (Inr va)
      then obtain v an where r: "pfs_anode_alloc (pfs_metaset_alloc m) (mm_anode m t) = Some (Inr (v, an))"
        using Some by (cases va) auto
      note al = alloc_root_ok [OF root(1) r]
      obtain l where l: "cur m t v = Some l" "obj_ok (has_hole m) l" "txop_key l = (t, v)" "mo_used l = 0"
        by (rule free_cur [OF inv t(1) al(1)])
      note i = init_common [OF l(2-4) t(2)]
      obtain d m2 m3 where "anode_get_top t v a (set_anode t an m) = Some (d, m2)"
          "local_upd d (\<lambda>mo. pfs_metaobj_init mo t) m2 = Some m3" "allocated crc m tx t d m3 v (l\<lparr>mo_used := 1\<rparr>)"
        by (rule take_obj [where init = "\<lambda>mo. pfs_metaobj_init mo t" and bd = "mm_bdroot m" and ?m1.0 = "set_anode t an m",
              OF inv tx t(1) al(1) a skel_alloc [OF r] upd_post_root [OF root(1) al(3)] _ _ _ _ l(1) i])
           (use al(3) t(2) in \<open>auto simp: upd_post_def\<close>)
      then show ?thesis using r by (auto simp: pfs_metaobj_alloc_common_def)
    qed
  qed
qed

lemma objs_not_minus_one:
  assumes "layout_ok m" "t \<in> mtypes" "v \<in> objs m t"
  shows "v \<noteq> - 1"
proof -
  have wf: "anode_wf (mm_anode m t)" "an_children (mm_anode m t) \<noteq> []"
    using assms(1,2) by (auto simp: layout_ok_def root_wf_def)
  obtain a h cs where an: "mm_anode m t = Anode a h cs" by (cases "mm_anode m t")
  have "unat v < length cs * 2 ^ an_shift (an_info (hd cs))"
    using all_vals_span [OF wf(1) assms(3)] wf(2) an by simp
  also have "\<dots> \<le> 2 ^ 31 * 2 ^ 32"
    using wf an by (intro mult_mono power_increasing) (auto simp: children_wf_def Let_def)
  finally have "unat v < 2 ^ 63" by simp
  then show ?thesis by (auto simp: unsigned_minus_1_eq_mask mask_eq_exp_minus_1)
qed

definition root_key_ok :: "root_key \<Rightarrow> bool" where
  "root_key_ok rk \<longleftrightarrow> (\<forall>S. S \<noteq> {} \<longrightarrow> rk S \<in> S)"

lemma init_blktag:
  assumes "obj_ok h l" "txop_key l = (MT_BLKTAG, v)" "mo_used l = 0" "mo_data l = BT bt r"
    "if reused then bt_dstatus bt = BDS_READY else bt_dstatus bt \<noteq> BDS_INP" "h \<or> len = 0"
  shows "\<exists>mo. blktag_init MT_BLKTAG reused len l = Some mo \<and> change_ok h l mo \<and> mo_used mo = 1"
  using assms
  by (auto simp: blktag_init_def pfs_metaobj_init_def obj_ok_def txop_key_def change_ok_def tag_ok_def metaobj_typed.simps)

lemma blktag_data:
  assumes "obj_ok h l" "txop_key l = (MT_BLKTAG, v)"
  obtains bt r where "mo_data l = BT bt r" "tag_ok h (mo_used l = 1) bt"
  using assms by (cases "mo_data l") (auto simp: obj_ok_def txop_key_def metaobj_typed.simps)

lemma alloc_blktag_inv:
  assumes inv: "meta_inv crc m" "mm_inited m" and tx: "mm_tx m = Some tx"
    and a: "tx_op tx a = Some tp" "top_flags tp = 0" and rk: "root_key_ok rk"
  shows "case pfs_metaobj_alloc_blktag rk MT_BLKTAG a m of
       None \<Rightarrow> False
     | Some None \<Rightarrow> \<forall>v\<in>free_vals (mm_anode m MT_BLKTAG). \<exists>mo bt. cur m MT_BLKTAG v = Some mo \<and> MO2BT mo = Some bt \<and> bt_dstatus bt = BDS_INP
     | Some (Some (d, m')) \<Rightarrow> \<exists>v mo. allocated crc m tx MT_BLKTAG d m' v mo"
proof -
  let ?t = MT_BLKTAG and ?R = "mm_bdroot m BDS_READY"
  have t: "?t \<in> mtypes" by (simp add: mtypes_def)
  have lay: "layout_ok m" using inv by (simp add: meta_inv_def)
  then have root: "root_wf (mm_anode m ?t)" using t by (auto simp: layout_ok_def)
  obtain hole where hole: "pfs_version_has_features (mm_run_version m) PFS_FEATURE_BLKHOLE = Some hole" "has_hole m = hole"
    using lay by (auto simp: layout_ok_def pfs_version_has_features_def has_hole_def)
  let ?len = "if hole then mm_blksize m else 0"
  have inR: "bd_in m BDS_READY v" if "v \<in> ?R" for v
    using inv that by (auto simp: meta_inv_def bd_ok_def)
  have inI: "bd_in m BDS_INP v" if "v \<in> mm_bdroot m BDS_INP" for v
    using inv that by (auto simp: meta_inv_def bd_ok_def)
  show ?thesis
  proof (cases "?R = {}")
    case False
    define v where "v = rk ?R"
    have v: "v \<in> ?R" using rk False by (simp add: root_key_ok_def v_def)
    note b = inR [OF v]
    then have vf: "v \<in> free_vals (mm_anode m ?t)" using inv t by (auto simp: meta_inv_def free_ok_def bd_in_def)
    obtain l where l: "cur m ?t v = Some l" "obj_ok (has_hole m) l" "txop_key l = (?t, v)" "mo_used l = 0" "v \<in> objs m ?t"
      by (rule free_cur [OF inv(1) t vf])
    obtain bt r where bt: "mo_data l = BT bt r" "bt_dstatus bt = BDS_READY" using b l(1) by (auto simp: bd_in_def)
    obtain mo where mo: "blktag_init ?t True ?len l = Some mo" "change_ok (has_hole m) l mo" "mo_used mo = 1"
      using init_blktag [OF l(2-4) bt(1), of True ?len] bt(2) hole(2) by auto
    obtain an where an: "pfs_anode_visit pfs_metaobj_use_one (mm_anode m ?t) v () = Some (an, ())" "upd_post (mm_anode m ?t) v (- 1) an"
      using visit_use_post [of "mm_anode m ?t" v "()"] root vf by (auto simp: root_wf_def)
    have val: "pfs_bd_get rk BDS_READY m = v" using False by (simp add: pfs_bd_get_def v_def)
    let ?m1 = "set_anode ?t an (pfs_bd_del BDS_READY v m)"
    have nI: "v \<notin> mm_bdroot m BDS_INP" using inI [of v] l(1) bt by (auto simp: bd_in_def)
    obtain d m2 m3 where "anode_get_top ?t v a ?m1 = Some (d, m2)" "local_upd d (blktag_init ?t True ?len) m2 = Some m3"
        "allocated crc m tx ?t d m3 v mo"
      by (rule take_obj [where init = "blktag_init ?t True ?len" and ?m1.0 = ?m1
            and bd = "(mm_bdroot m)(BDS_READY := ?R - {v})",
            OF inv(1) tx t vf a skel_visit_use [OF an(1)] upd_post_root [OF root an(2)] _ _ _ _ l(1) mo])
         (use an(2) nI in \<open>auto simp: upd_post_def pfs_bd_del_def\<close>)
    then show ?thesis
      using val an(1) objs_not_minus_one [OF lay t l(5)] hole
      by (auto simp: pfs_metaobj_alloc_blktag_def blktag_number_def pfs_bd_del_def Let_def)
  next
    case True
    then have val: "pfs_bd_get rk BDS_READY m = - 1" by (simp add: pfs_bd_get_def)
    obtain r where r: "pfs_anode_alloc (pfs_metaset_alloc m) (mm_anode m ?t) = Some r" using alloc_root_total [OF root] by blast
    show ?thesis
    proof (cases r)
      case (Inl e)
      have "\<exists>mo bt. cur m ?t v = Some mo \<and> MO2BT mo = Some bt \<and> bt_dstatus bt = BDS_INP" if v: "v \<in> free_vals (mm_anode m ?t)" for v
      proof -
        obtain l where l: "cur m ?t v = Some l" "obj_ok (has_hole m) l" "txop_key l = (?t, v)" "mo_used l = 0" "v \<in> objs m ?t"
          by (rule free_cur [OF inv(1) t v])
        obtain bt r where bt: "mo_data l = BT bt r" by (rule blktag_data [OF l(2,3)])
        have "\<not> accepts (pfs_metaset_alloc m) (mm_anode m ?t) v" using alloc_root_err [OF root] r Inl v by blast
        then show ?thesis using accepts_cur [OF lay t l(5,1)] l bt by auto
      qed
      then show ?thesis using r Inl val by (simp add: pfs_metaobj_alloc_blktag_def blktag_number_def)
    next
      case (Inr va)
      then obtain v an where r: "pfs_anode_alloc (pfs_metaset_alloc m) (mm_anode m ?t) = Some (Inr (v, an))"
        using r by (cases va) auto
      note al = alloc_root_ok [OF root r]
      obtain l where l: "cur m ?t v = Some l" "obj_ok (has_hole m) l" "txop_key l = (?t, v)" "mo_used l = 0" "v \<in> objs m ?t"
        by (rule free_cur [OF inv(1) t al(1)])
      obtain bt r' where bt: "mo_data l = BT bt r'" by (rule blktag_data [OF l(2,3)])
      have inp: "bt_dstatus bt \<noteq> BDS_INP" using al(2) accepts_cur [OF lay t l(5,1)] l(3) bt by (auto simp: txop_key_def)
      obtain mo where mo: "blktag_init ?t False ?len l = Some mo" "change_ok (has_hole m) l mo" "mo_used mo = 1"
        using init_blktag [OF l(2-4) bt, of False ?len] inp hole(2) by auto
      have nI: "v \<notin> mm_bdroot m BDS_INP" using inI [of v] l(1) bt inp by (auto simp: bd_in_def)
      obtain d m2 m3 where "anode_get_top ?t v a (set_anode ?t an m) = Some (d, m2)"
          "local_upd d (blktag_init ?t False ?len) m2 = Some m3" "allocated crc m tx ?t d m3 v mo"
        by (rule take_obj [where init = "blktag_init ?t False ?len" and ?m1.0 = "set_anode ?t an m" and bd = "mm_bdroot m",
              OF inv(1) tx t al(1) a skel_alloc [OF r] upd_post_root [OF root al(3)] _ _ _ _ l(1) mo])
           (use al(3) nI True in \<open>auto simp: upd_post_def\<close>)
      then show ?thesis
        using val r hole by (auto simp: pfs_metaobj_alloc_blktag_def blktag_number_def)
    qed
  qed
qed

end
