(* ===== verification/Meta_Steps.thy ===== *)
theory Meta_Steps
  imports Meta_Inv
begin

text \<open>
  The steps a client takes inside a write transaction: it creates operations, gets, allocates,
  changes and frees objects through them, marks blocks for their discard, and completes the
  operations. Every step keeps the invariant.
\<close>

section \<open>Release\<close>

lemma fini_common:
  assumes "obj_ok h l" "txop_key l = (t, v)" "mo_used l = 1" "mo_prev l = 0" "mo_next l = 0" "t \<noteq> MT_BLKTAG"
  shows "pfs_metaobj_fini l t = Some (l\<lparr>mo_used := 0\<rparr>)" "change_ok h l (l\<lparr>mo_used := 0\<rparr>)"
  using assms
  by (auto simp: pfs_metaobj_fini_def obj_ok_def txop_key_def change_ok_def metaobj_typed.simps split: modata.splits)

lemma fini_blktag:
  assumes "obj_ok h l" "txop_key l = (MT_BLKTAG, v)" "mo_used l = 1" "mo_prev l = 0" "mo_next l = 0"
  shows "\<exists>mo bt r. blktag_release MT_BLKTAG l = Some mo \<and> change_ok h l mo \<and> mo_used mo = 0 \<and> mo_data mo = BT bt r \<and>
    bt_dstatus bt = BDS_READY"
proof -
  obtain bt r where "mo_data l = BT bt r" "tag_ok h True bt" using blktag_data [OF assms(1,2)] assms(3) by metis
  with assms show ?thesis
    by (auto simp: blktag_release_def pfs_metaobj_fini_def obj_ok_def txop_key_def change_ok_def tag_ok_def metaobj_typed.simps)
qed

text \<open>Giving an object back to the tree, with its number in \<open>add\<close> of the discard index.\<close>

lemma give_obj:
  assumes inv: "meta_inv crc m" and tx: "mm_tx m = Some tx" and d: "t_opsroot tx (t, v) = Some d" "is_open tx d"
    and l: "tx_version tx (t, v) = Some l" "mo_used l = 1"
    and mo: "fin l = Some mo" "change_ok (has_hole m) l mo" "mo_used mo = 0"
    and bd: "bd = (if t = MT_BLKTAG then (mm_bdroot m)(BDS_READY := insert v (mm_bdroot m BDS_READY)) else mm_bdroot m)"
    and rdy: "t = MT_BLKTAG \<Longrightarrow> \<exists>bt r. mo_data mo = BT bt r \<and> bt_dstatus bt = BDS_READY"
  obtains m1 m' tx' where "local_upd d fin m = Some m1" "tx_local d m = Some l"
    "anode_give t v (m1\<lparr>mm_bdroot := bd\<rparr>) = Some m'" "meta_inv crc m'" "frame m m'" "mm_tx m' = Some tx'"
    "t_opsroot tx' = t_opsroot tx" "\<And>e. is_open tx' e = is_open tx e"
    "\<And>k. tx_version tx' k = (if k = (t, v) then Some mo else tx_version tx k)"
proof -
  note ok = meta_inv_txok [OF inv tx]
  define tx' where "tx' = tx_upd d (\<lambda>t. t\<lparr>top_local := mo\<rparr>) tx"
  note w = local_change_ok [OF ok d l(1) mo(2) tx'_def]
  have lay: "layout_ok m" using ok by (simp add: txok_def)
  note tv = head_key(1,2) [OF ok d(1)]
  note c = cur_version [OF ok tx tv l(1)]
  have nf: "v \<notin> free_vals (mm_anode m t)" using free_iff_unused [OF inv tv c] l(2) by simp
  have root: "root_wf (mm_anode m t)" using lay tv by (auto simp: layout_ok_def)
  obtain an where an: "pfs_anode_free (mm_anode m t) v = Some an" "upd_post (mm_anode m t) v 1 an"
    using pfs_anode_free_post [OF _ tv(2) nf] root by (auto simp: root_wf_def)
  let ?m1 = "m\<lparr>mm_tx := Some tx'\<rparr>" and ?m' = "set_anode t an (m\<lparr>mm_tx := Some tx', mm_bdroot := bd\<rparr>)"
  have fr: "frame m ?m'"
    using lay skel_free [OF an(1)] upd_post_root [OF root an(2)] by (auto simp: frame_def layout_ok_def)
  have ni: "v \<notin> mm_bdroot m s" if "s \<in> {BDS_READY, BDS_INP}" "mm_inited m" "t = MT_BLKTAG" for s
    using not_indexed(1) [OF inv, of v l s] c that l(2) by auto
  have bd': "if (MT_BLKTAG, u) = (t, v) then mo_used mo = 0 \<and> (\<exists>bt r. mo_data mo = BT bt r \<and> bt_dstatus bt = s)
       else u \<in> mm_bdroot m s" if s: "s \<in> {BDS_READY, BDS_INP}" "mm_inited m" and u: "u \<in> mm_bdroot ?m' s" for s u
    using u ni [OF s] rdy mo(3) by (auto simp: bd split: if_splits)
  have "meta_inv crc ?m'"
    by (rule inv_one_change [OF ok w(1) tx _ _ _ fr tv _ _ _ bd'])
       (use inv w(2) mo(3) an(2) in \<open>auto simp: meta_inv_def upd_post_def\<close>)
  moreover have "local_upd d fin m = Some ?m1"
    using local_upd_version(1) [OF ok tx d(1) l(1), of fin] mo(1) by (simp add: tx'_def)
  moreover have "anode_give t v (?m1\<lparr>mm_bdroot := bd\<rparr>) = Some ?m'" using an(1) by (simp add: anode_give_def)
  ultimately show thesis
    using fr w(2-4) local_upd_version(2) [OF ok tx d(1) l(1)] by (intro that [of ?m1 ?m' tx']) auto
qed

lemma lock_fields [simp]:
  "mm_tx (pfs_meta_lock m) = mm_tx m" "mm_mem (pfs_meta_lock m) = mm_mem m" "mm_anode (pfs_meta_lock m) = mm_anode m"
  "mm_bdroot (pfs_meta_lock m) = mm_bdroot m" "mm_run_version (pfs_meta_lock m) = mm_run_version m"
  "mm_inited (pfs_meta_lock m) = mm_inited m" "mm_blksize (pfs_meta_lock m) = mm_blksize m"
  "mm_notes (pfs_meta_lock m) = mm_notes m"
  by (auto simp: pfs_meta_lock_def split: option.splits)

lemma place_lock [simp]: "place (pfs_meta_lock m) = place m" "mobj (pfs_meta_lock m) = mobj m" "cur (pfs_meta_lock m) = cur m"
  by (simp_all add: place_def mobj_def cur_def fun_eq_iff)

lemma frame_lock [simp]:
  "frame m (pfs_meta_lock m) = frame m m" "frame (pfs_meta_lock m) m' = frame m m'" "has_hole (pfs_meta_lock m) = has_hole m"
  "heads_ok crc (pfs_meta_lock m) = heads_ok crc m"
  by (simp_all add: frame_def has_hole_def heads_ok_def head_ok_def fun_eq_iff)

lemma inv_lock [simp]: "meta_inv crc (pfs_meta_lock m) = meta_inv crc m"
  by (cases "mm_tx m") (simp_all add: meta_inv_def layout_ok_def free_ok_def bd_ok_def bd_in_def)

lemma meta_free_inv:
  assumes inv: "meta_inv crc m" and tx: "mm_tx m = Some tx" and d: "t_opsroot tx (t, v) = Some d" "is_open tx d"
    and l: "tx_version tx (t, v) = Some l" "mo_used l = 1" "mo_prev l = 0" "mo_next l = 0"
  obtains m' tx' mo where "pfs_meta_free t d m = Some m'" "meta_inv crc m'" "frame m m'" "mm_tx m' = Some tx'"
    "t_opsroot tx' = t_opsroot tx" "\<And>e. is_open tx' e = is_open tx e" "mo_used mo = 0"
    "\<And>k. tx_version tx' k = (if k = (t, v) then Some mo else tx_version tx k)"
proof -
  let ?m = "pfs_meta_lock m"
  have inv': "meta_inv crc ?m" and tx': "mm_tx ?m = Some tx" using inv tx by simp_all
  note ok = meta_inv_txok [OF inv tx]
  note tv = head_key(1,2) [OF ok d(1)]
  obtain l' where "cur m t v = Some l'" "obj_ok (has_hole m) l'" "txop_key l' = (t, v)" by (rule cur_obj [OF inv tv])
  then have lo: "obj_ok (has_hole ?m) l" "txop_key l = (t, v)" using cur_version [OF ok tx tv l(1)] by auto
  show thesis
  proof (cases "t = MT_BLKTAG")
    case True
    obtain mo bt r where mo: "blktag_release MT_BLKTAG l = Some mo" "change_ok (has_hole ?m) l mo" "mo_used mo = 0"
        "mo_data mo = BT bt r" "bt_dstatus bt = BDS_READY"
      using fini_blktag [OF lo(1) _ l(2-4), of v] lo(2) True by auto
    obtain m1 m' tx1 where g: "local_upd d (blktag_release MT_BLKTAG) ?m = Some m1" "tx_local d ?m = Some l"
      "anode_give t v (m1\<lparr>mm_bdroot := (mm_bdroot ?m)(BDS_READY := insert v (mm_bdroot ?m BDS_READY))\<rparr>) = Some m'"
      "meta_inv crc m'" "frame ?m m'" "mm_tx m' = Some tx1" "t_opsroot tx1 = t_opsroot tx" "\<And>e. is_open tx1 e = is_open tx e"
      "\<And>k. tx_version tx1 k = (if k = (t, v) then Some mo else tx_version tx k)"
      by (rule give_obj [where fin = "blktag_release MT_BLKTAG", OF inv' tx' d l(1,2) mo(1-3) refl])
         (use mo(4,5) True in auto)
    have "mm_bdroot m1 = mm_bdroot ?m" using g(1) by (auto simp: local_upd_def split: option.splits)
    then have "pfs_meta_free t d m = Some m'"
      using g(1-3) True lo(2) by (simp add: pfs_meta_free_def pfs_metaobj_free_blktag_def pfs_bd_add_def txop_key_def)
    then show thesis using g(4-9) mo(3) by (intro that [of m' tx1 mo]) auto
  next
    case False
    note f = fini_common [OF lo l(2-4) False]
    obtain m1 m' tx1 where g: "local_upd d (\<lambda>mo. pfs_metaobj_fini mo t) ?m = Some m1" "tx_local d ?m = Some l"
      "anode_give t v (m1\<lparr>mm_bdroot := mm_bdroot ?m\<rparr>) = Some m'"
      "meta_inv crc m'" "frame ?m m'" "mm_tx m' = Some tx1" "t_opsroot tx1 = t_opsroot tx" "\<And>e. is_open tx1 e = is_open tx e"
      "\<And>k. tx_version tx1 k = (if k = (t, v) then Some (l\<lparr>mo_used := 0\<rparr>) else tx_version tx k)"
      by (rule give_obj [where fin = "\<lambda>mo. pfs_metaobj_fini mo t", OF inv' tx' d l(1,2) f _ refl])
         (use False in auto)
    have "m1\<lparr>mm_bdroot := mm_bdroot ?m\<rparr> = m1" using g(1) by (auto simp: local_upd_def split: option.splits)
    then have "pfs_meta_free t d m = Some m'"
      using g(1-3) False lo(2) tv(1) by (auto simp: pfs_meta_free_def pfs_metaobj_free_common_def txop_key_def mtypes_def)
    then show thesis using g(4-9) by (intro that [of m' tx1 "l\<lparr>mo_used := 0\<rparr>"]) auto
  qed
qed

section \<open>Completion\<close>

lemma stamp_crc: "metaobj_typed l \<Longrightarrow> pfs_metaobj_check_crc crc (stamp crc l)"
  by (simp add: pfs_metaobj_check_crc_def stamp_def metaobj_typed.simps)

lemma stamp_ok: "obj_ok h l \<Longrightarrow> change_ok h l (stamp crc l)"
  by (auto simp: change_ok_def obj_ok_def stamp_def txop_key_def split: modata.splits)

lemma done_op_inv:
  assumes inv: "meta_inv crc m" and tx: "mm_tx m = Some tx" and fin: "done_op crc a cb m = Some m'"
  obtains tx' t v l where "meta_inv crc m'" "frame m m'" "mm_tx m' = Some tx'" "mm_anode m' = mm_anode m" "mm_bdroot m' = mm_bdroot m"
    "t_opsroot tx' = t_opsroot tx" "tx_version tx (t, v) = Some l"
    "\<And>k. tx_version tx' k = (if k = (t, v) then Some (stamp crc l) else tx_version tx k)"
proof -
  note ok = meta_inv_txok [OF inv tx]
  have lay: "layout_ok m" and wf: "tx_wf tx" using ok by (simp_all add: txok_def)
  obtain tx' where d: "pfs_tx_done_op crc tx a cb = Some tx'" "m' = m\<lparr>mm_tx := Some tx'\<rparr>"
    using fin tx by (auto simp: done_op_def)
  obtain k d l bf bda i f f' where w: "t_opsroot tx k = Some d" "core tx d = Some (l, bf, bda, i, f, Some d)"
    "core tx' d = Some (stamp crc l, bf, bda, i, f', Some d)" "f' \<noteq> 0"
    "tx_wf tx'" "t_opsroot tx' = t_opsroot tx" "t_done tx' = t_done tx"
    "\<And>k'. tx_version tx' k' = (if k' = k then Some (stamp crc l) else tx_version tx k')"
    "\<And>k' e. t_opsroot tx k' = Some e \<Longrightarrow> e \<noteq> d \<Longrightarrow> core tx' e = core tx e"
    "\<And>e. is_open tx e \<Longrightarrow> e \<noteq> d \<Longrightarrow> is_open tx' e"
    by (rule done_op_wf [OF wf d(1)]) blast
  obtain t v where k: "k = (t, v)" by (cases k)
  note tv = head_key(1,2) [OF ok w(1) [unfolded k]]
  have ver: "tx_version tx (t, v) = Some l" using w(1,2) k by (simp add: tx_version_core)
  note c = cur_version [OF ok tx tv ver]
  obtain l' where "cur m t v = Some l'" "obj_ok (has_hole m) l'" by (rule cur_obj [OF inv tv])
  then have lo: "obj_ok (has_hole m) l" using c by simp
  have "head_ok crc m tx' k' e" if e: "t_opsroot tx' k' = Some e" for k' e
  proof -
    have e': "t_opsroot tx k' = Some e" using e w(6) by simp
    then have h: "head_ok crc m tx k' e" using ok unfolding txok_def heads_ok_def by blast
    show ?thesis
    proof (cases "e = d")
      case False
      then show ?thesis using h w(9) [OF e' False] w(10) [of e] by (auto intro: head_ok_keep)
    next
      case True
      obtain l0 b i' f0 mo0 where "core tx d = Some (l0, Some b, b, i', f0, Some d)" "place m (fst k') (snd k') = Some (b, i')"
          "mobj m (fst k') (snd k') = Some mo0" "same_shape l0 mo0" "fst k' \<in> mtypes" "snd k' \<in> objs m (fst k')"
        using h True unfolding head_ok_def by blast
      moreover from this have "l0 = l" using w(2) by simp
      moreover have "pfs_metaobj_check_crc crc (stamp crc l)" using stamp_crc lo by (auto simp: obj_ok_def)
      moreover have "same_shape (stamp crc l) mo0" "obj_ok (has_hole m) (stamp crc l)"
        using same_shape_change [OF _ stamp_ok [OF lo]] stamp_ok [OF lo] calculation by (auto simp: change_ok_def)
      ultimately show ?thesis unfolding head_ok_def using True w(2,3) by auto
    qed
  qed
  then have ok': "txok crc m tx'" using ok w(5,7) unfolding txok_def heads_ok_def by auto
  have fr: "frame m m'" using lay d(2) by (simp add: frame_def layout_ok_def)
  have bd': "if (MT_BLKTAG, u) = (t, v) then mo_used (stamp crc l) = 0 \<and>
       (\<exists>bt r. mo_data (stamp crc l) = BT bt r \<and> bt_dstatus bt = s) else u \<in> mm_bdroot m s"
    if s: "s \<in> {BDS_READY, BDS_INP}" "mm_inited m" and u: "u \<in> mm_bdroot m' s" for s u
    using not_indexed [OF inv, of v l s] s u c d(2) by auto
  have "meta_inv crc m'"
    by (rule inv_one_change [OF ok ok' tx _ _ _ fr tv _ _ _ bd'])
       (use inv w(8) k d(2) free_iff_unused [OF inv tv c] in \<open>auto simp: meta_inv_def\<close>)
  then show thesis using fr d(2) w(6,8) k ver by (intro that [of tx' t v l]) auto
qed

section \<open>Discard marks\<close>

lemma mark_tag_ok:
  assumes "mark_inp_tag R I bt = Some (bt1, b) \<or> mark_done_tag R I bt = Some (bt1, b)" "tag_ok h u bt"
    "R \<Longrightarrow> \<not> u \<and> bt_dstatus bt = BDS_READY" "I \<Longrightarrow> \<not> u \<and> bt_dstatus bt = BDS_INP"
  shows "tag_ok h u bt1" "R \<Longrightarrow> bt_dstatus bt1 = BDS_READY" "I \<Longrightarrow> bt_dstatus bt1 = BDS_INP"
  using assms by (auto simp: mark_inp_tag_def mark_done_tag_def tag_ok_def split: if_splits)

lemma bd_mark_inv:
  assumes inv: "meta_inv crc m" "mm_inited m" and tx: "mm_tx m = Some tx" and v: "v \<in> objs m MT_BLKTAG"
    and tag: "tag = mark_inp_tag \<or> tag = mark_done_tag" and mk: "bd_mark crc tag v m = Some (marked, m')"
  shows "meta_inv crc m' \<and> frame m m' \<and> (\<exists>tx'. mm_tx m' = Some tx')"
proof -
  have t: "MT_BLKTAG \<in> mtypes" by (simp add: mtypes_def)
  obtain a m1 where n: "new_op m = Some (a, m1)" using mk by (auto simp: bd_mark_def split: option.splits)
  obtain tx0 tx1 where tx1: "pfs_tx_new_op True tx0 = Inr (a, tx1)" "m1 = m\<lparr>mm_tx := Some tx1\<rparr>" "tx_wf tx0" "mm_tx m = Some tx0"
    by (rule new_op_tx [OF inv(1) n])
  note n1 = new_op_inv [OF inv(1) n]
  have v1: "v \<in> objs m1 MT_BLKTAG" using v tx1(2) by simp
  obtain d m2 tx2 where g: "pfs_meta_get_top MT_BLKTAG v a m1 = Some (d, m2)" "meta_inv crc m2" "frame m1 m2" "mm_tx m2 = Some tx2"
    "t_opsroot tx2 (MT_BLKTAG, v) = Some d" "is_open tx2 d" "tx_version tx2 (MT_BLKTAG, v) = cur m1 MT_BLKTAG v"
    by (rule meta_get_top_inv [OF n1(1) _ t v1, of tx1 a "pfs_txop_create a 0"])
       (use tx1 tx_new_op_wf(2) [OF tx1(3,1)] in \<open>auto simp: pfs_txop_create_def\<close>)
  obtain l where l: "cur m1 MT_BLKTAG v = Some l" "obj_ok (has_hole m1) l" "txop_key l = (MT_BLKTAG, v)"
    by (rule cur_obj [OF n1(1) t v1])
  obtain bt r where bt: "mo_data l = BT bt r" "tag_ok (has_hole m1) (mo_used l = 1) bt" by (rule blktag_data [OF l(2,3)])
  have ver: "tx_version tx2 (MT_BLKTAG, v) = Some l" using g(7) l(1) by simp
  note ok2 = meta_inv_txok [OF g(2,4)]
  have c2: "cur m2 MT_BLKTAG v = Some l"
    by (rule cur_version [OF ok2 g(4) head_key(1,2) [OF ok2 g(5)] ver])
  let ?R = "pfs_bd_find BDS_READY v m2" and ?I = "pfs_bd_find BDS_INP v m2"
  have loc: "tx_local d m2 = Some l" by (rule local_upd_version(2) [OF ok2 g(4,5) ver])
  obtain bt1 b where tg: "tag ?R ?I bt = Some (bt1, b)"
    using mk n g(1) loc bt(1) by (auto simp: bd_mark_def split: option.splits if_splits)
  have i2: "mm_inited m2" using inv(2) g(3) tx1(2) by (simp add: frame_def)
  have u: "mo_used l \<in> {0, 1}" using l(2) by (simp add: obj_ok_def)
  have idx: "?R \<Longrightarrow> mo_used l \<noteq> 1 \<and> bt_dstatus bt = BDS_READY" "?I \<Longrightarrow> mo_used l \<noteq> 1 \<and> bt_dstatus bt = BDS_INP"
    using not_indexed [OF g(2) c2 i2, of BDS_READY] not_indexed [OF g(2) c2 i2, of BDS_INP] bt(1) by (auto simp: pfs_bd_find_def)
  have "mark_inp_tag ?R ?I bt = Some (bt1, b) \<or> mark_done_tag ?R ?I bt = Some (bt1, b)" using tag tg by auto
  note mt = mark_tag_ok [OF this bt(2) idx]
  let ?f = "\<lambda>mo. mo\<lparr>mo_data := BT bt1 r\<rparr>"
  have ch: "change_ok (has_hole m2) l (?f l)"
    using l(2,3) bt(1) mt(1) frame_hole [OF g(3)] by (auto simp: change_ok_def obj_ok_def txop_key_def metaobj_typed.simps)
  obtain m3 tx3 where e: "set_local d ?f m2 = Some m3" "meta_inv crc m3" "frame m2 m3" "mm_tx m3 = Some tx3"
    by (rule edit_gen [where f = ?f, OF g(2,4,5,6) ver ch])
       (use mt(2,3) idx u in \<open>auto simp: pfs_bd_find_def\<close>)
  have "done_op crc a None m3 = Some m'"
    using mk n g(1) loc bt(1) tg e(1) by (auto simp: bd_mark_def set_local_def split: option.splits if_splits)
  from done_op_inv [OF e(2,4) this] obtain tx' where "meta_inv crc m'" "frame m3 m'" "mm_tx m' = Some tx'" by metis
  then show ?thesis using frame_trans [OF n1(2) frame_trans [OF g(3) frame_trans [OF e(3)]]] by blast
qed

end
