(* ===== verification/Meta_Rollback.thy ===== *)
theory Meta_Rollback
  imports Meta_Steps
begin

text \<open>
  Rolling a transaction back. The operations are undone one by one, the last first; after each,
  the bitmaps and the discard index agree with memory for the objects already undone and with
  the transaction for the others.
\<close>

section \<open>Operations that remain\<close>

definition is_head :: "'cb txop \<Rightarrow> bool" where
  "is_head tp \<longleftrightarrow> top_flags tp AND TOP_FLG_INITED \<noteq> 0 \<and> top_dup_head tp = Some (top_addr tp)"

definition head_of :: "'cb txop list \<Rightarrow> u8 \<times> u64 \<Rightarrow> 'cb txop option" where
  "head_of tps k = List.find (\<lambda>tp. is_head tp \<and> txop_key (top_local tp) = k) tps"

definition pickl :: "'cb txop list \<Rightarrow> u8 \<times> u64 \<Rightarrow> metaobj \<Rightarrow> metaobj" where
  "pickl tps k mo = (case head_of tps k of None \<Rightarrow> mo | Some tp \<Rightarrow> top_local tp)"

definition heads_distinct :: "'cb txop list \<Rightarrow> bool" where
  "heads_distinct tps \<longleftrightarrow> distinct (map (txop_key \<circ> top_local) (filter is_head tps))"

definition op_fine :: "'cb meta \<Rightarrow> 'cb txop \<Rightarrow> bool" where
  "op_fine m tp \<longleftrightarrow> top_flags tp AND TOP_FLG_RECREATE = 0 \<and>
     (is_head tp \<longrightarrow> (\<exists>t v. txop_key (top_local tp) = (t, v) \<and> t \<in> mtypes \<and> v \<in> objs m t) \<and> obj_ok (has_hole m) (top_local tp))"

text \<open>The state of the bitmaps and of the index with the operations \<open>tps\<close> still to undo.\<close>

definition half_undone :: "'cb meta \<Rightarrow> 'cb txop list \<Rightarrow> bool" where
  "half_undone m tps \<longleftrightarrow> layout_ok m \<and> mm_inited m \<and> (\<exists>tx. mm_tx m = Some tx \<and> t_done tx) \<and>
     (\<forall>t\<in>mtypes. free_vals (mm_anode m t) =
        {v \<in> objs m t. \<exists>mo. mobj m t v = Some mo \<and> mo_used (pickl tps (t, v) mo) = 0}) \<and>
     (\<forall>s\<in>{BDS_READY, BDS_INP}. \<forall>v\<in>mm_bdroot m s. v \<in> objs m MT_BLKTAG \<and>
        (\<exists>mo bt r. mobj m MT_BLKTAG v = Some mo \<and> mo_used (pickl tps (MT_BLKTAG, v) mo) = 0 \<and>
           mo_data (pickl tps (MT_BLKTAG, v) mo) = BT bt r \<and> bt_dstatus bt = s))"

lemma head_of_none: "(\<And>tp. tp \<in> set tps \<Longrightarrow> is_head tp \<Longrightarrow> txop_key (top_local tp) \<noteq> k) \<Longrightarrow> head_of tps k = None"
  by (auto simp: head_of_def find_None_iff)

lemma pickl_Cons:
  assumes "heads_distinct (tp # tps)"
  shows "pickl (tp # tps) k mo = (if is_head tp \<and> txop_key (top_local tp) = k then top_local tp else pickl tps k mo)"
    and "is_head tp \<Longrightarrow> pickl tps (txop_key (top_local tp)) mo = mo"
proof -
  show "pickl (tp # tps) k mo = (if is_head tp \<and> txop_key (top_local tp) = k then top_local tp else pickl tps k mo)"
    by (simp add: pickl_def head_of_def)
  assume "is_head tp"
  then have "head_of tps (txop_key (top_local tp)) = None"
    using assms by (intro head_of_none) (auto simp: heads_distinct_def image_iff)
  then show "pickl tps (txop_key (top_local tp)) mo = mo" by (simp add: pickl_def)
qed

section \<open>Undoing one operation\<close>

text \<open>An undo or redo moves the bit of the object from the old to the new use.\<close>

lemma apply_obj:
  assumes an: "root_wf an" "v \<in> all_vals an" "leaf_of an v = Some (h, w)"
    and fn: "fn h w s = Some (uint u - uint u', h, s1)" "\<And>h w s d h1 s1. fn h w s = Some (d, h1, s1) \<Longrightarrow> h1 = h"
    and u: "u \<in> {0, 1}" "u' \<in> {0, 1}" "v \<in> free_vals an \<longleftrightarrow> u = (0 :: 'a :: len word)"
  obtains an' where "anode_apply fn an v s = Some (uint u - uint u', an', s1)" "skel an' = skel an" "root_wf an'"
    "free_vals an' = (if u' = 0 then insert v (free_vals an) else free_vals an - {v})"
proof -
  obtain an' where a: "anode_apply fn an v s = Some (uint u - uint u', an', s1)" "skel an' = skel an"
    using anode_apply_leaf [of fn an v s] fn an(3) by auto
  have "upd_post an v (uint u - uint u') an'"
    by (rule anode_apply_post [OF _ an(2) a(1)]) (use an(1) u in \<open>auto simp: root_wf_def\<close>)
  then have "root_wf an'" "free_vals an' = (if u' = 0 then insert v (free_vals an) else free_vals an - {v})"
    using upd_post_root [OF an(1)] u by (auto simp: upd_post_def)
  with a show thesis by (rule that)
qed

lemma place_leaf: "place m t v = Some p \<Longrightarrow> \<exists>h w. leaf_of (mm_anode m t) v = Some (h, w) \<and> ms_place h w = Some p"
  by (auto simp: place_def anode_get_leaf split: option.splits)

text \<open>The index after \<open>pfs_meta_bd_change_index\<close>.\<close>

definition reindex :: "u64 \<Rightarrow> blktag \<Rightarrow> (u32 \<Rightarrow> u64 set) \<Rightarrow> (u32 \<Rightarrow> u64 set)" where
  "reindex v bt bd =
     (if bt_dstatus bt = BDS_READY then bd(BDS_READY := insert v (bd BDS_READY), BDS_INP := bd BDS_INP - {v})
      else if bt_dstatus bt = BDS_INP then bd(BDS_INP := insert v (bd BDS_INP), BDS_READY := bd BDS_READY - {v})
      else bd(BDS_READY := bd BDS_READY - {v}, BDS_INP := bd BDS_INP - {v}))"

lemma change_index_reindex:
  assumes "bt_dstatus bt \<in> {BDS_NONE, BDS_READY, BDS_INP}"
  shows "pfs_meta_bd_change_index v bt m = Some (m\<lparr>mm_bdroot := reindex v bt (mm_bdroot m)\<rparr>)"
  using assms
  by (auto simp: pfs_meta_bd_change_index_def pfs_bd_add_def pfs_bd_del_def reindex_def fun_eq_iff)

lemma tag_ok_status: "tag_ok h u bt \<Longrightarrow> bt_dstatus bt \<in> {BDS_NONE, BDS_READY, BDS_INP}"
  by (auto simp: tag_ok_def split: if_splits)

lemma meta_get_done:
  assumes "layout_ok m" "t \<in> mtypes" "v \<in> objs m t" "mobj m t v = Some mo" "mm_tx m = Some tx" "t_done tx"
  shows "pfs_meta_get t v m = Some (mo, pfs_meta_lock m)"
  using assms by (simp add: pfs_meta_get_def anode_get_read [of _ "pfs_meta_lock m", simplified] get_mo_pick pick_def)

lemma hole_ok_lock [simp]: "blktag_hole_ok (pfs_meta_lock m) bt = blktag_hole_ok m bt"
  by (simp add: blktag_hole_ok_def)

lemma mt_undo_ok:
  assumes m: "layout_ok m" "mm_tx m = Some tx" "t_done tx" "mm_inited m"
    and o: "t \<in> mtypes" "v \<in> objs m t" "mobj m t v = Some mo" "obj_ok (has_hole m) mo" "txop_key mo = (t, v)"
  obtains m' where "mt_undo t v m = Some m'" "mm_mem m' = mm_mem m" "mm_anode m' = mm_anode m" "mm_tx m' = mm_tx m"
    "mm_inited m' = mm_inited m" "mm_run_version m' = mm_run_version m" "mm_blksize m' = mm_blksize m"
    "mm_bdroot m' = (case mo_data mo of BT bt r \<Rightarrow> reindex v bt (mm_bdroot m) | _ \<Rightarrow> mm_bdroot m)"
proof (cases "t = MT_BLKTAG")
  case True
  obtain bt r where bt: "mo_data mo = BT bt r" "tag_ok (has_hole m) (mo_used mo = 1) bt"
    using blktag_data [OF o(4)] o(5) True by metis
  have "blktag_hole_ok m bt" using bt(2) by (auto simp: blktag_hole_ok_def tag_ok_def has_hole_def)
  then have "pfs_meta_get_blktag_flags v m = Some (mo, bt, pfs_meta_lock m)"
    using meta_get_done [OF m(1) o(1-3) m(2,3)] True bt(1) by (simp add: pfs_meta_get_blktag_flags_def)
  then have "mt_undo t v m = Some ((pfs_meta_lock m)\<lparr>mm_bdroot := reindex v bt (mm_bdroot m)\<rparr>)"
    using True m(4) o(5) change_index_reindex [OF tag_ok_status [OF bt(2)], of v "pfs_meta_lock m"]
    by (simp add: mt_undo_def txop_key_def)
  then show thesis by (rule that) (simp_all add: bt(1))
next
  case False
  then have d: "(case mo_data mo of BT bt r \<Rightarrow> reindex v bt (mm_bdroot m) | _ \<Rightarrow> mm_bdroot m) = mm_bdroot m"
    using o(4,5) by (auto simp: obj_ok_def txop_key_def metaobj_typed.simps split: modata.splits)
  show thesis
    by (rule that [of "if t = MT_INODE then add_note (InodeInvalidate v) m else m"])
       (use False o(1) m(4) d in \<open>auto simp: mt_undo_def mtypes_def\<close>)
qed


lemma layout_lock [simp]: "layout_ok (pfs_meta_lock m) = layout_ok m"
  by (simp add: layout_ok_def)

lemma reindex_mem:
  assumes "s \<in> {BDS_READY, BDS_INP}" "u \<in> reindex v bt bd s"
  shows "if u = v then bt_dstatus bt = s else u \<in> bd s"
  using assms by (auto simp: reindex_def split: if_splits)

lemma half_undone_skip:
  "half_undone m (tp # tps) \<Longrightarrow> heads_distinct (tp # tps) \<Longrightarrow> \<not> is_head tp \<Longrightarrow> half_undone m tps"
  by (simp add: half_undone_def pickl_Cons)

lemma half_undone_bd:
  assumes h: "half_undone m tps0" and eq: "\<And>k x. pickl tps0 k x = (if k = (t, v) then l else pickl tps k x)"
    and nof: "\<And>x. pickl tps (t, v) x = x" and s: "s \<in> {BDS_READY, BDS_INP}"
    and u: "u \<in> (case mo_data mo of BT bt r \<Rightarrow> reindex v bt (mm_bdroot m) | _ \<Rightarrow> mm_bdroot m) s"
    and tv: "txop_key l = (t, v)" "t \<in> mtypes" "v \<in> objs m t"
    and mo: "mobj m t v = Some mo" "txop_key mo = (t, v)" "obj_ok (has_hole m) mo"
  shows "u \<in> objs m MT_BLKTAG \<and> (\<exists>x bt r. mobj m MT_BLKTAG u = Some x \<and>
      mo_used (pickl tps (MT_BLKTAG, u) x) = 0 \<and> mo_data (pickl tps (MT_BLKTAG, u) x) = BT bt r \<and> bt_dstatus bt = s)"
proof -
  have old: "u \<in> objs m MT_BLKTAG \<and> (\<exists>x bt r. mobj m MT_BLKTAG u = Some x \<and>
      mo_used (pickl tps0 (MT_BLKTAG, u) x) = 0 \<and> mo_data (pickl tps0 (MT_BLKTAG, u) x) = BT bt r \<and> bt_dstatus bt = s)"
    if "u \<in> mm_bdroot m s" using h s that unfolding half_undone_def by blast
  show ?thesis
  proof (cases "t = MT_BLKTAG")
    case True
    obtain bt r where bt: "mo_data mo = BT bt r" "tag_ok (has_hole m) (mo_used mo = 1) bt"
      using blktag_data [OF mo(3)] mo(2) True by metis
    note u' = reindex_mem [OF s, of u v bt "mm_bdroot m"]
    show ?thesis
    proof (cases "u = v")
      case True
      then have "bt_dstatus bt = s" using u' u bt(1) by simp
      moreover from this have "mo_used mo \<noteq> 1" using bt(2) s by (auto simp: tag_ok_def)
      then have "mo_used mo = 0" using mo(3) by (auto simp: obj_ok_def)
      ultimately show ?thesis using True \<open>t = MT_BLKTAG\<close> tv(3) mo(1) bt(1) nof by auto
    next
      case False
      then show ?thesis using u' u bt(1) old eq [of "(MT_BLKTAG, u)"] by simp
    qed
  next
    case False
    then have "\<not> (\<exists>bt r. mo_data mo = BT bt r)"
      using mo(2,3) by (auto simp: obj_ok_def txop_key_def metaobj_typed.simps)
    then have "u \<in> mm_bdroot m s" using u by (cases "mo_data mo") auto
    then show ?thesis using old False eq [of "(MT_BLKTAG, u)"] by simp
  qed
qed

lemma half_undoneI:
  assumes fr: "frame m m'" "layout_ok m" "mm_inited m" and tx: "mm_tx m' = Some tx" "t_done tx"
    and free: "\<And>t. t \<in> mtypes \<Longrightarrow> free_vals (mm_anode m' t) = {u \<in> objs m t. \<exists>x. mobj m t u = Some x \<and> mo_used (pickl tps (t, u) x) = 0}"
    and bd: "\<And>s u. s \<in> {BDS_READY, BDS_INP} \<Longrightarrow> u \<in> mm_bdroot m' s \<Longrightarrow> u \<in> objs m MT_BLKTAG \<and>
        (\<exists>x bt r. mobj m MT_BLKTAG u = Some x \<and> mo_used (pickl tps (MT_BLKTAG, u) x) = 0 \<and>
           mo_data (pickl tps (MT_BLKTAG, u) x) = BT bt r \<and> bt_dstatus bt = s)"
  shows "half_undone m' tps"
proof -
  have "mm_inited m'" using fr(1,3) by (simp add: frame_def)
  moreover have bt: "MT_BLKTAG \<in> mtypes" by (simp add: mtypes_def)
  ultimately show ?thesis
    unfolding half_undone_def
    using frame_layout [OF fr(1,2)] tx free bd frame_objs [OF fr(1)] frame_mobj [OF fr(1)] frame_objs [OF fr(1) bt]
      frame_mobj [OF fr(1) bt] by (simp only: simp_thms) (auto cong: conj_cong)
qed

lemma undo_one:
  assumes h: "half_undone m (tp # tps)" and d: "heads_distinct (tp # tps)" and f: "op_fine m tp" and hd: "is_head tp"
  obtains m' where "pfs_txop_rollback tp m = Some m'" "half_undone m' tps" "frame m m'" "mm_tx m' = mm_tx m"
proof -
  obtain tx where tx: "mm_tx m = Some tx" "t_done tx" and lay: "layout_ok m" and ini: "mm_inited m"
    using h by (auto simp: half_undone_def)
  obtain t v where tv: "txop_key (top_local tp) = (t, v)" "t \<in> mtypes" "v \<in> objs m t" and ok: "obj_ok (has_hole m) (top_local tp)"
    using f hd by (auto simp: op_fine_def)
  obtain b i mo where mo: "place m t v = Some (b, i)" "mobj m t v = Some mo" "txop_key mo = (t, v)" "obj_ok (has_hole m) mo"
    by (rule layout_obj [OF lay tv(2,3)])
  obtain ho w where w: "leaf_of (mm_anode m t) v = Some (ho, w)" "ms_place ho w = Some (b, i)"
    using place_leaf [OF mo(1)] by blast
  let ?m1 = "pfs_meta_lock m"
  obtain m2 where m2: "mt_undo t v ?m1 = Some m2" "mm_mem m2 = mm_mem m" "mm_anode m2 = mm_anode m" "mm_tx m2 = mm_tx m"
    "mm_inited m2 = mm_inited m" "mm_run_version m2 = mm_run_version m" "mm_blksize m2 = mm_blksize m"
    "mm_bdroot m2 = (case mo_data mo of BT bt r \<Rightarrow> reindex v bt (mm_bdroot m) | _ \<Rightarrow> mm_bdroot m)"
    by (rule mt_undo_ok [of ?m1 tx t v mo]) (use lay tx ini tv mo in \<open>simp_all cong: modata.case_cong\<close>)
  have sees: "sees_memory (mm_tx ?m1) mo" using tx by (simp add: sees_memory_def)
  have "top_flags tp AND TOP_FLG_RECREATE = 0" using f by (simp add: op_fine_def)
  then have fn: "pfs_metaset_undo tp ho w ?m1 = Some (uint (mo_used (top_local tp)) - uint (mo_used mo), ho, m2)"
    using w(2) mo(1-3) m2(1) sees by (simp add: pfs_metaset_undo_def mobj_def pfs_txop_undo_def txop_key_def)
  have root: "root_wf (mm_anode m t)" using lay tv(2) by (simp add: layout_ok_def)
  have fr: "v \<in> free_vals (mm_anode m t) \<longleftrightarrow> mo_used (top_local tp) = 0"
    using h d hd tv mo(2) by (simp add: half_undone_def pickl_Cons)
  obtain an' where an: "anode_apply (pfs_metaset_undo tp) (mm_anode m t) v ?m1 =
      Some (uint (mo_used (top_local tp)) - uint (mo_used mo), an', m2)" "skel an' = skel (mm_anode m t)" "root_wf an'"
    "free_vals an' = (if mo_used mo = 0 then insert v (free_vals (mm_anode m t)) else free_vals (mm_anode m t) - {v})"
    by (rule apply_obj [where fn = "pfs_metaset_undo tp", OF root tv(3) w(1) fn _ _ _ fr])
       (use ok mo(4) in \<open>auto simp: obj_ok_def pfs_metaset_undo_def split: option.splits if_splits\<close>)
  let ?m' = "set_anode t an' m2"
  have r: "pfs_txop_rollback tp m = Some ?m'"
    using an(1) tv(1) hd f
    by (auto simp: pfs_txop_rollback_def is_head_def op_fine_def pfs_meta_undo_def pfs_anode_undo_def txop_key_def)
  have frm: "frame m ?m'" using m2 an(2,3) lay by (auto simp: frame_def layout_ok_def)
  have nof: "pickl tps (t, v) x = x" for x using pickl_Cons(2) [OF d hd] tv(1) by simp
  have eq: "pickl (tp # tps) k x = (if k = (t, v) then top_local tp else pickl tps k x)" for k x
    using pickl_Cons(1) [OF d] hd tv(1) by auto
  have "free_vals (mm_anode ?m' t') = {u \<in> objs m t'. \<exists>x. mobj m t' u = Some x \<and> mo_used (pickl tps (t', u) x) = 0}"
    if "t' \<in> mtypes" for t'
  proof -
    have old: "free_vals (mm_anode m t') = {u \<in> objs m t'. \<exists>x. mobj m t' u = Some x \<and> mo_used (pickl (tp # tps) (t', u) x) = 0}"
      using h that by (simp add: half_undone_def)
    have "u \<in> free_vals (mm_anode ?m' t') \<longleftrightarrow> u \<in> objs m t' \<and> (\<exists>x. mobj m t' u = Some x \<and> mo_used (pickl tps (t', u) x) = 0)" for u
      by (cases "t' = t"; cases "u = v") (use old an(4) m2(3) tv(3) mo(2) in \<open>simp_all add: eq nof\<close>)
    then show ?thesis by blast
  qed
  moreover have "u \<in> objs m MT_BLKTAG \<and> (\<exists>x bt r. mobj m MT_BLKTAG u = Some x \<and>
      mo_used (pickl tps (MT_BLKTAG, u) x) = 0 \<and> mo_data (pickl tps (MT_BLKTAG, u) x) = BT bt r \<and> bt_dstatus bt = s)"
    if s: "s \<in> {BDS_READY, BDS_INP}" and u: "u \<in> mm_bdroot ?m' s" for s u
    using half_undone_bd [OF h eq nof s(1) _ tv mo(2-4)] u m2(8) by simp
  ultimately have "half_undone ?m' tps"
    using tx m2(4) by (intro half_undoneI [OF frm lay ini]) auto
  with r show thesis using frm m2(4) by (intro that [of ?m']) simp_all
qed

section \<open>Undoing them all\<close>

lemma op_fine_frame: "frame m m' \<Longrightarrow> op_fine m tp \<Longrightarrow> op_fine m' tp"
  by (auto simp: op_fine_def frame_simps)

lemma heads_distinct_Cons: "heads_distinct (tp # tps) \<Longrightarrow> heads_distinct tps"
  by (auto simp: heads_distinct_def split: if_splits)

lemma rollback_ops_ok:
  assumes "half_undone m tps" "heads_distinct tps" "\<And>tp. tp \<in> set tps \<Longrightarrow> op_fine m tp"
  shows "\<exists>m'. rollback_ops tps m = Some m' \<and> half_undone m' [] \<and> frame m m' \<and> mm_tx m' = mm_tx m"
  using assms
proof (induction tps arbitrary: m)
  case Nil
  then show ?case by (simp add: half_undone_def)
next
  case (Cons tp tps)
  obtain m1 where m1: "pfs_txop_rollback tp m = Some m1" "half_undone m1 tps" "frame m m1" "mm_tx m1 = mm_tx m"
  proof (cases "is_head tp")
    case True
    then show thesis using undo_one [OF Cons.prems(1,2)] Cons.prems(3) [of tp] that by auto
  next
    case False
    then have "pfs_txop_rollback tp m = Some m"
      using Cons.prems(3) [of tp] by (auto simp: pfs_txop_rollback_def op_fine_def is_head_def)
    then show thesis
      using half_undone_skip [OF Cons.prems(1,2) False] Cons.prems(1) that [of m] by (simp add: half_undone_def)
  qed
  obtain m' where "rollback_ops tps m1 = Some m'" "half_undone m' []" "frame m1 m'" "mm_tx m' = mm_tx m1"
    using Cons.IH [OF m1(2) heads_distinct_Cons [OF Cons.prems(2)]] Cons.prems(3) op_fine_frame [OF m1(3)] by auto
  then show ?case using m1 frame_trans by auto
qed

text \<open>The operations of a transaction that has been built by the layer.\<close>

lemma head_opsroot:
  assumes "tx_wf tx" "tp \<in> set (t_ops tx)"
  shows "is_head tp \<longleftrightarrow> t_opsroot tx (txop_key (top_local tp)) = Some (top_addr tp)" "top_flags tp AND TOP_FLG_RECREATE = 0"
proof -
  have op: "tx_op tx (top_addr tp) = Some tp" using tx_op_mem [OF _ assms(2)] assms(1) by (simp add: tx_wf_def)
  then have ok: "op_ok tx (top_addr tp) tp" using assms(1) by (simp add: tx_wf_def)
  show "top_flags tp AND TOP_FLG_RECREATE = 0" using ok by (auto simp: op_ok_def)
  have "top_flags tp \<noteq> 0 \<longleftrightarrow> top_flags tp AND TOP_FLG_INITED \<noteq> 0" using ok by (auto simp: op_ok_def)
  moreover have "top_flags tp \<noteq> 0 \<and> top_dup_head tp = Some (top_addr tp)" if r: "t_opsroot tx (txop_key (top_local tp)) = Some (top_addr tp)"
    by (rule tx_wf_head [OF assms(1) r]) (use op in auto)
  ultimately show "is_head tp \<longleftrightarrow> t_opsroot tx (txop_key (top_local tp)) = Some (top_addr tp)"
    using ok by (auto simp: is_head_def op_ok_def)
qed

lemma tx_heads_distinct:
  assumes "tx_wf tx"
  shows "heads_distinct (rev (t_ops tx))"
proof -
  have "distinct (map (txop_key \<circ> top_local) (filter is_head tps))"
    if "distinct (map top_addr tps)" "set tps \<subseteq> set (t_ops tx)" for tps
    using that
  proof (induction tps)
    case (Cons tp tps)
    have "txop_key (top_local tq) \<noteq> txop_key (top_local tp)" if "tq \<in> set tps" "is_head tq" "is_head tp" for tq
    proof
      assume "txop_key (top_local tq) = txop_key (top_local tp)"
      then have "top_addr tq = top_addr tp" using head_opsroot(1) [OF assms] that Cons.prems(2) by fastforce
      then show False using that(1) Cons.prems(1) by (auto simp: image_iff)
    qed
    then have "is_head tp \<Longrightarrow> txop_key (top_local tp) \<notin> (txop_key \<circ> top_local) ` set (filter is_head tps)"
      by (simp add: image_iff) metis
    then show ?case using Cons by simp
  qed simp
  moreover have "distinct (map top_addr (t_ops tx))" using assms by (simp add: tx_wf_def)
  ultimately show ?thesis by (simp add: heads_distinct_def rev_map [symmetric] rev_filter [symmetric])
qed

lemma tx_pickl:
  assumes "tx_wf tx" "\<not> t_done tx"
  shows "pickl (rev (t_ops tx)) k mo = pick (Some tx) k mo"
proof (cases "t_opsroot tx k")
  case None
  have "head_of (rev (t_ops tx)) k = None"
    by (rule head_of_none) (use None head_opsroot(1) [OF assms(1)] in auto)
  then show ?thesis using None assms(2) by (simp add: pickl_def pick_def tx_version_def)
next
  case (Some d)
  obtain tp where tp: "tx_op tx d = Some tp" "txop_key (top_local tp) = k"
    by (rule tx_wf_head [OF assms(1) Some])
  note a = tx_op_addr [OF tp(1)]
  have h: "is_head tp" using head_opsroot(1) [OF assms(1), of tp] a Some tp(2) by simp
  have "head_of (rev (t_ops tx)) k \<noteq> None" using a h tp(2) by (auto simp: head_of_def find_None_iff)
  then obtain tq where tq: "head_of (rev (t_ops tx)) k = Some tq" by blast
  then have q: "tq \<in> set (t_ops tx)" "is_head tq" "txop_key (top_local tq) = k"
    by (auto simp: head_of_def find_Some_iff) (metis nth_mem length_rev set_rev)
  then have "top_addr tq = d" using head_opsroot(1) [OF assms(1) q(1)] Some by simp
  then have "tq = tp" using tx_op_mem [OF _ q(1)] tp(1) assms(1) by (simp add: tx_wf_def)
  then show ?thesis using tq Some tp(1) assms(2) by (simp add: pickl_def pick_def tx_version_def)
qed

lemma tx_half_undone:
  assumes inv: "meta_inv crc m" and tx: "mm_tx m = Some tx" and ini: "mm_inited m"
  shows "half_undone (m\<lparr>mm_tx := Some (tx\<lparr>t_done := True\<rparr>)\<rparr>) (rev (t_ops tx))"
proof -
  have lay: "layout_ok m" and wf: "tx_wf tx" "\<not> t_done tx" using inv tx by (auto simp: meta_inv_def)
  have fr: "frame m (m\<lparr>mm_tx := Some (tx\<lparr>t_done := True\<rparr>)\<rparr>)" using lay by (simp add: frame_def layout_ok_def)
  have c: "cur m t v = Some (pickl (rev (t_ops tx)) (t, v) mo)" if "t \<in> mtypes" "v \<in> objs m t" "mobj m t v = Some mo" for t v mo
    using cur_pick [OF lay that] tx tx_pickl [OF wf] by simp
  have ex: "\<exists>mo. mobj m t v = Some mo" if "t \<in> mtypes" "v \<in> objs m t" for t v
    by (rule layout_obj [OF lay that]) blast
  have "free_vals (mm_anode m t) = {v \<in> objs m t. \<exists>mo. mobj m t v = Some mo \<and> mo_used (pickl (rev (t_ops tx)) (t, v) mo) = 0}"
    if "t \<in> mtypes" for t
    using inv that c [OF that] ex [OF that] by (fastforce simp: meta_inv_def free_ok_def)
  moreover have "u \<in> objs m MT_BLKTAG \<and> (\<exists>x bt r. mobj m MT_BLKTAG u = Some x \<and>
      mo_used (pickl (rev (t_ops tx)) (MT_BLKTAG, u) x) = 0 \<and> mo_data (pickl (rev (t_ops tx)) (MT_BLKTAG, u) x) = BT bt r \<and>
      bt_dstatus bt = s)" if "s \<in> {BDS_READY, BDS_INP}" "u \<in> mm_bdroot m s" for s u
  proof -
    have b: "bd_in m s u" using inv ini that unfolding meta_inv_def bd_ok_def by blast
    have t: "MT_BLKTAG \<in> mtypes" by (simp add: mtypes_def)
    have u: "u \<in> objs m MT_BLKTAG" using b by (simp add: bd_in_def)
    obtain x where "mobj m MT_BLKTAG u = Some x" using ex [OF t u] by blast
    with b c [OF t u this] u show ?thesis by (auto simp: bd_in_def)
  qed
  ultimately show ?thesis by (intro half_undoneI [OF fr lay ini, of "tx\<lparr>t_done := True\<rparr>"]) simp_all
qed

lemma tx_ops_fine:
  assumes inv: "meta_inv crc m" and tx: "mm_tx m = Some tx" and tp: "tp \<in> set (t_ops tx)"
  shows "op_fine m tp"
proof -
  have wf: "tx_wf tx" and ok: "txok crc m tx" using inv tx meta_inv_txok [OF inv tx] by (auto simp: meta_inv_def)
  have a: "tx_op tx (top_addr tp) = Some tp" using tx_op_mem [OF _ tp] wf by (simp add: tx_wf_def)
  have "fst k \<in> mtypes \<and> snd k \<in> objs m (fst k) \<and> obj_ok (has_hole m) (top_local tp)"
    if "is_head tp" "k = txop_key (top_local tp)" for k
  proof -
    have "t_opsroot tx k = Some (top_addr tp)" using head_opsroot(1) [OF wf tp] that by simp
    then have "head_ok crc m tx k (top_addr tp)" using ok unfolding txok_def heads_ok_def by blast
    then show ?thesis using a by (auto simp: head_ok_def core_def op_core_def)
  qed
  then show ?thesis using head_opsroot(2) [OF wf tp] by (auto simp: op_fine_def) (metis prod.exhaust_sel)
qed

lemma cur_none:
  assumes "mm_tx m = None"
  shows "cur m = mobj m"
proof -
  have "pfs_tx_get_mo (None :: 'a tx option) = id" by (simp add: get_mo_pick pick_def fun_eq_iff)
  then show ?thesis by (intro ext) (simp add: cur_def assms option.map_id0)
qed

lemma undone_inv: "half_undone m [] \<Longrightarrow> meta_inv crc (m\<lparr>mm_lock := l, mm_tx := None\<rparr>)"
proof -
  assume h: "half_undone m []"
  let ?m = "m\<lparr>mm_lock := l, mm_tx := None\<rparr>"
  have lay: "layout_ok m" using h by (simp add: half_undone_def)
  have p: "pickl [] k mo = mo" for k mo by (simp add: pickl_def head_of_def)
  have mo: "mobj ?m = mobj m" "place ?m = place m" by (simp_all add: mobj_def place_def fun_eq_iff)
  then have c: "cur ?m = mobj m" using cur_none [of ?m] by simp
  have "layout_ok ?m" using lay by (simp add: layout_ok_def mo has_hole_def)
  moreover have "free_ok ?m" "bd_ok ?m"
    using h by (simp_all add: half_undone_def p free_ok_def bd_ok_def bd_in_def mo c)
  ultimately show ?thesis by (simp add: meta_inv_def)
qed

text \<open>Rolling back never fails, and gives back what memory says.\<close>

lemma tx_rollback_inv:
  assumes inv: "meta_inv crc m" and tx: "mm_tx m = Some tx" and ini: "mm_inited m"
  obtains m' where "pfs_tx_rollback (tx\<lparr>t_done := True\<rparr>) (m\<lparr>mm_tx := Some (tx\<lparr>t_done := True\<rparr>)\<rparr>) = Some m'"
    "frame m m'" "mm_tx m' = Some (tx\<lparr>t_done := True\<rparr>)" "\<And>l. meta_inv crc (m'\<lparr>mm_lock := l, mm_tx := None\<rparr>)"
proof -
  let ?m = "m\<lparr>mm_tx := Some (tx\<lparr>t_done := True\<rparr>)\<rparr>"
  have wf: "tx_wf tx" and lay: "layout_ok m" using inv tx by (auto simp: meta_inv_def)
  have fr: "frame m ?m" using lay by (simp add: frame_def layout_ok_def)
  have "op_fine ?m tp" if "tp \<in> set (rev (t_ops tx))" for tp
    using op_fine_frame [OF fr] tx_ops_fine [OF inv tx] that by simp
  then obtain m' where "rollback_ops (rev (t_ops tx)) ?m = Some m'" "half_undone m' []" "frame ?m m'" "mm_tx m' = mm_tx ?m"
    using rollback_ops_ok [OF tx_half_undone [OF inv tx ini] tx_heads_distinct [OF wf]] by blast
  then show thesis
    using frame_trans [OF fr] undone_inv by (intro that [of m']) (simp_all add: pfs_tx_rollback_def)
qed

end
