(* ===== verification/Meta_Tx.thy ===== *)
theory Meta_Tx
  imports Meta_Rollback Journal_Safe
begin

text \<open>
  A whole transaction on the metadata: the steps inside one as a relation, the journal as a
  contract, and \<open>pfs_tx_end\<close>. Whatever the steps were, the end of the transaction either
  publishes the objects as the transaction saw them or leaves memory, bitmaps and discard index
  as if it had never run.
\<close>

section \<open>Steps of a transaction\<close>

text \<open>
  What the callers of the layer do between \<open>pfs_tx_begin\<close> and \<open>pfs_tx_end\<close>: a new operation;
  taking an object for a change, or a new object, with an operation that was just created; a
  change of an object in use by somebody who holds it; its release, once it has been unlinked;
  the marks of the discard thread; and finishing an operation.
\<close>

definition fresh :: "'cb meta \<Rightarrow> nat \<Rightarrow> bool" where
  "fresh m a \<longleftrightarrow> (\<exists>tx tp. mm_tx m = Some tx \<and> tx_op tx a = Some tp \<and> top_flags tp = 0)"

definition holding :: "'cb meta \<Rightarrow> u8 \<Rightarrow> u64 \<Rightarrow> nat \<Rightarrow> metaobj \<Rightarrow> bool" where
  "holding m t v d l \<longleftrightarrow> (\<exists>tx. mm_tx m = Some tx \<and> t_opsroot tx (t, v) = Some d \<and> is_open tx d \<and> tx_version tx (t, v) = Some l)"

inductive meta_step :: "(u32 \<Rightarrow> u8 list \<Rightarrow> u32) \<Rightarrow> root_key \<Rightarrow> 'cb meta \<Rightarrow> 'cb meta \<Rightarrow> bool" for crc rk where
  step_new: "new_op m = Some (a, m') \<Longrightarrow> meta_step crc rk m m'"
| step_get: "fresh m a \<Longrightarrow> t \<in> mtypes \<Longrightarrow> v \<in> objs m t \<Longrightarrow> pfs_meta_get_top t v a m = Some (d, m') \<Longrightarrow> meta_step crc rk m m'"
| step_alloc: "fresh m a \<Longrightarrow> t \<in> mtypes \<Longrightarrow> pfs_meta_alloc rk t a m = Some (Some (d, m')) \<Longrightarrow> meta_step crc rk m m'"
| step_edit: "holding m t v d l \<Longrightarrow> mo_used l = 1 \<Longrightarrow> change_ok (has_hole m) l (f l) \<Longrightarrow> mo_used (f l) = 1 \<Longrightarrow>
    set_local d f m = Some m' \<Longrightarrow> meta_step crc rk m m'"
| step_free: "holding m t v d l \<Longrightarrow> mo_used l = 1 \<Longrightarrow> mo_prev l = 0 \<Longrightarrow> mo_next l = 0 \<Longrightarrow>
    pfs_meta_free t d m = Some m' \<Longrightarrow> meta_step crc rk m m'"
| step_mark_inp: "v \<in> objs m MT_BLKTAG \<Longrightarrow> pfs_meta_bd_mark_inp crc v m = Some (marked, m') \<Longrightarrow> meta_step crc rk m m'"
| step_mark_done: "v \<in> objs m MT_BLKTAG \<Longrightarrow> pfs_meta_bd_mark_done crc v m = Some (marked, m') \<Longrightarrow> meta_step crc rk m m'"
| step_done: "done_op crc a cb m = Some m' \<Longrightarrow> meta_step crc rk m m'"

definition in_tx :: "(u32 \<Rightarrow> u8 list \<Rightarrow> u32) \<Rightarrow> 'cb meta \<Rightarrow> bool" where
  "in_tx crc m \<longleftrightarrow> meta_inv crc m \<and> mm_inited m \<and> (\<exists>tx. mm_tx m = Some tx)"

lemma meta_alloc_inv:
  assumes inv: "meta_inv crc m" "mm_inited m" and tx: "mm_tx m = Some tx" and t: "t \<in> mtypes"
    and a: "tx_op tx a = Some tp" "top_flags tp = 0" and rk: "root_key_ok rk"
  shows "case pfs_meta_alloc rk t a m of
       None \<Rightarrow> False
     | Some None \<Rightarrow> \<forall>v\<in>free_vals (mm_anode m t). \<exists>mo bt. t = MT_BLKTAG \<and> cur m t v = Some mo \<and> MO2BT mo = Some bt \<and> bt_dstatus bt = BDS_INP
     | Some (Some (d, m')) \<Rightarrow> \<exists>v mo. allocated crc m tx t d m' v mo"
proof -
  let ?m = "pfs_meta_lock m"
  have m: "meta_inv crc ?m" "mm_inited ?m" "mm_tx ?m = Some tx" "mm_anode ?m = mm_anode m" using inv tx by simp_all
  have al: "allocated crc ?m tx t d m' v mo = allocated crc m tx t d m' v mo" for d m' v mo
    by (simp add: allocated_def)
  show ?thesis
  proof (cases "t = MT_BLKTAG")
    case True
    then show ?thesis
      using alloc_blktag_inv [OF m(1,2,3) a rk] al m(4)
      by (auto simp: pfs_meta_alloc_def split: option.splits)
  next
    case False
    then have "pfs_meta_alloc rk t a m = pfs_metaobj_alloc_common t a ?m" using t by (auto simp: pfs_meta_alloc_def mtypes_def)
    then show ?thesis
      using alloc_common_inv [OF m(1,3) t False a] al m(4) by (auto split: option.splits)
  qed
qed

lemma meta_step_inv:
  assumes "meta_step crc rk m m'" "in_tx crc m" "root_key_ok rk"
  shows "in_tx crc m' \<and> frame m m'"
proof -
  have "meta_inv crc m' \<and> frame m m' \<and> (\<exists>tx. mm_tx m' = Some tx)"
    using assms(1)
  proof cases
    case (step_new a)
    then show ?thesis using assms(2) new_op_inv [of crc m a m'] by (auto simp: in_tx_def new_op_def split: option.splits sum.splits)
  next
    case (step_get a t v d)
    then obtain tx tp where tx: "meta_inv crc m" "mm_tx m = Some tx" "tx_op tx a = Some tp" "top_flags tp = 0"
      using assms(2) by (auto simp: in_tx_def fresh_def)
    show ?thesis
      by (rule meta_get_top_inv [OF tx(1,2) step_get(2,3) tx(3,4)]) (use step_get(4) in auto)
  next
    case (step_alloc a t d)
    then obtain tx tp where tx: "meta_inv crc m" "mm_inited m" "mm_tx m = Some tx" "tx_op tx a = Some tp" "top_flags tp = 0"
      using assms(2) by (auto simp: in_tx_def fresh_def)
    show ?thesis
      using meta_alloc_inv [OF tx(1-3) step_alloc(2) tx(4,5) assms(3)] step_alloc(3) by (auto simp: allocated_def)
  next
    case (step_edit t v d l f)
    then obtain tx where tx: "meta_inv crc m" "mm_tx m = Some tx" "t_opsroot tx (t, v) = Some d" "is_open tx d" "tx_version tx (t, v) = Some l"
      using assms(2) by (auto simp: in_tx_def holding_def)
    show ?thesis
      by (rule edit_inv [where f = f, OF tx step_edit(2-4)]) (use step_edit(5) in auto)
  next
    case (step_free t v d l)
    then obtain tx where tx: "meta_inv crc m" "mm_tx m = Some tx" "t_opsroot tx (t, v) = Some d" "is_open tx d" "tx_version tx (t, v) = Some l"
      using assms(2) by (auto simp: in_tx_def holding_def)
    show ?thesis
      by (rule meta_free_inv [OF tx step_free(2-4)]) (use step_free(5) in auto)
  next
    case (step_mark_inp v marked)
    then show ?thesis using assms(2) bd_mark_inv [of crc m _ v mark_inp_tag marked m'] by (auto simp: in_tx_def pfs_meta_bd_mark_inp_def)
  next
    case (step_mark_done v marked)
    then show ?thesis using assms(2) bd_mark_inv [of crc m _ v mark_done_tag marked m'] by (auto simp: in_tx_def pfs_meta_bd_mark_done_def)
  next
    case (step_done a cb)
    then obtain tx where tx: "meta_inv crc m" "mm_tx m = Some tx" using assms(2) by (auto simp: in_tx_def)
    show ?thesis by (rule done_op_inv [OF tx step_done(1)]) auto
  qed
  then show ?thesis using assms(2) by (auto simp: in_tx_def frame_def)
qed

lemma meta_steps_inv:
  assumes "(meta_step crc rk)\<^sup>*\<^sup>* m m'" "in_tx crc m" "root_key_ok rk"
  shows "in_tx crc m' \<and> frame m m'"
  using assms
proof (induction rule: rtranclp_induct)
  case base
  then show ?case by (simp add: in_tx_def meta_inv_def)
next
  case (step m1 m2)
  then show ?case using meta_step_inv frame_trans by blast
qed

section \<open>Commit\<close>

text \<open>Every operation of the transaction has been finished.\<close>

definition all_done :: "'cb tx \<Rightarrow> bool" where
  "all_done tx \<longleftrightarrow> list_all (\<lambda>tp. top_flags tp = TOP_FLG_INITED OR TOP_FLG_DONE) (t_ops tx)"

lemma all_done_op:
  assumes ok: "txok crc m tx" and ad: "all_done tx" and tp: "tp \<in> set (t_ops tx)"
  obtains t v b i mo where "txop_key (top_local tp) = (t, v)" "t \<in> mtypes" "v \<in> objs m t" "place m t v = Some (b, i)"
    "top_buf tp = Some b" "top_bda tp = b" "top_idx tp = i" "mobj m t v = Some mo" "same_shape (top_local tp) mo"
    "pfs_metaobj_check_crc crc (top_local tp)" "obj_ok (has_hole m) (top_local tp)" "tx_version tx (t, v) = Some (top_local tp)"
proof -
  have wf: "tx_wf tx" using ok by (simp add: txok_def)
  have op: "tx_op tx (top_addr tp) = Some tp" using tx_op_mem [OF _ tp] wf by (simp add: tx_wf_def)
  have fl: "top_flags tp = TOP_FLG_INITED OR TOP_FLG_DONE" using ad tp by (simp add: all_done_def list_all_iff)
  have "op_ok tx (top_addr tp) tp" using tx_wfD(6) [OF wf op] .
  then have r: "t_opsroot tx (txop_key (top_local tp)) = Some (top_addr tp)"
    using fl by (auto simp: op_ok_def)
  have no: "\<not> is_open tx d" for d
    using ad tx_op_addr by (fastforce simp: is_open_def all_done_def list_all_iff)
  obtain t v where k: "txop_key (top_local tp) = (t, v)" by (cases "txop_key (top_local tp)")
  have "head_ok crc m tx (t, v) (top_addr tp)" using ok r k unfolding txok_def heads_ok_def by metis
  moreover have "tx_version tx (t, v) = Some (top_local tp)" using r k op by (simp add: tx_version_def)
  ultimately show thesis
    using no k op by (auto simp: head_ok_def core_def op_core_def intro!: that)
qed

lemma all_done_ready:
  assumes ok: "txok (env_crc env) m tx" and ad: "all_done tx" and ne: "t_ops tx \<noteq> []"
  shows "tx_ready env (mm_mem m) (tx\<lparr>t_done := b\<rparr>)"
proof -
  have lay: "layout_ok m" and wf: "tx_wf tx" using ok by (auto simp: txok_def)
  have "txop_ready env tp \<and> top_idx tp < length (mm_mem m (top_bda tp)) \<and>
      same_shape (top_local tp) (mm_mem m (top_bda tp) ! top_idx tp)" if tp: "tp \<in> set (t_ops tx)" for tp
  proof -
    obtain t v b i mo where o: "t \<in> mtypes" "v \<in> objs m t" "place m t v = Some (b, i)"
      "top_buf tp = Some b" "top_bda tp = b" "top_idx tp = i" "mobj m t v = Some mo" "same_shape (top_local tp) mo"
      "pfs_metaobj_check_crc (env_crc env) (top_local tp)" by (rule all_done_op [OF ok ad tp])
    obtain b' i' where "place m t v = Some (b', i')" "i' < 2 ^ 32" "i' < length (mm_mem m b')" "mobj m t v = Some (mm_mem m b' ! i')"
      by (rule layout_obj [OF lay o(1,2)]) blast
    moreover have "top_flags tp AND TOP_FLG_DONE \<noteq> 0" using ad tp by (auto simp: all_done_def list_all_iff)
    ultimately show ?thesis
      using o by (auto simp: txop_ready_def txop_jop_def jop_ok_def same_shape_def)
  qed
  then show ?thesis using ne wf by (simp add: tx_ready_def list_all_iff tx_wf_def)
qed

text \<open>Publishing a finished transaction makes every object what the transaction saw.\<close>

lemma last_write_map:
  assumes "\<And>x. x \<in> set xs \<Longrightarrow> fst (f x) = b \<Longrightarrow> fst (snd (f x)) = i \<Longrightarrow> snd (snd (f x)) = mo"
  shows "last_write (map f xs) b i = (if \<exists>x\<in>set xs. fst (f x) = b \<and> fst (snd (f x)) = i then Some mo else None)"
  using assms
proof (induction xs)
  case (Cons x xs)
  then show ?case using Cons.prems [of x] by (cases "f x") (auto split: option.splits if_splits)
qed simp

lemma commit_objs:
  assumes ok: "txok crc m tx" and ad: "all_done tx" and tv: "t \<in> mtypes" "v \<in> objs m t"
    and mo: "place m t v = Some (b, i)" "mobj m t v = Some mo"
  shows "mem_obj (apply_ops (tx_jops tx) (mm_mem m)) (b, i) = Some (pick (Some tx) (t, v) mo)"
proof -
  have lay: "layout_ok m" and wf: "tx_wf tx" "\<not> t_done tx" using ok by (auto simp: txok_def)
  have i: "i < length (mm_mem m b)" "mo = mm_mem m b ! i" using mo by (auto simp: mobj_def mem_obj_def split: if_splits)
  have same: "txop_key (top_local tp) = (t, v) \<and> tx_version tx (t, v) = Some (top_local tp)"
    if tp: "tp \<in> set (t_ops tx)" "top_bda tp = b" "top_idx tp = i" for tp
  proof -
    obtain t' v' b' i' where o: "txop_key (top_local tp) = (t', v')" "t' \<in> mtypes" "v' \<in> objs m t'"
      "place m t' v' = Some (b', i')" "top_bda tp = b'" "top_idx tp = i'" "tx_version tx (t', v') = Some (top_local tp)"
      by (rule all_done_op [OF ok ad tp(1)])
    then have "(t', v') = (t, v)" using place_inj [OF lay o(2,3,4) tv] mo(1) tp by simp
    then show ?thesis using o by simp
  qed
  have has: "\<exists>tp\<in>set (t_ops tx). top_bda tp = b \<and> top_idx tp = i" if vs: "tx_version tx (t, v) = Some l" for l
  proof -
    obtain d where d: "t_opsroot tx (t, v) = Some d" using vs by (auto simp: tx_version_def split: option.splits)
    obtain tp where tp: "tx_op tx d = Some tp" "txop_key (top_local tp) = (t, v)" by (rule tx_wf_head [OF wf(1) d])
    note a = tx_op_addr [OF tp(1)]
    obtain t' v' b' i' where "txop_key (top_local tp) = (t', v')" "place m t' v' = Some (b', i')" "top_bda tp = b'" "top_idx tp = i'"
      by (rule all_done_op [OF ok ad conjunct2 [OF a]])
    then show ?thesis using a tp(2) mo(1) by auto
  qed
  have "last_write (tx_jops tx) b i = tx_version tx (t, v)"
  proof (cases "tx_version tx (t, v)")
    case None
    then have "\<not> (\<exists>tp\<in>set (t_ops tx). top_bda tp = b \<and> top_idx tp = i)" using same by fastforce
    then show ?thesis
      unfolding tx_jops_def using None by (subst last_write_map [where mo = undefined]) (auto simp: txop_jop_def)
  next
    case (Some l)
    then show ?thesis
      unfolding tx_jops_def using has [OF Some] same by (subst last_write_map [where mo = l]) (auto simp: txop_jop_def)
  qed
  then show ?thesis
    using i wf(2) by (simp add: mem_obj_def apply_ops_nth pick_def split: option.splits)
qed

lemma commit_inv:
  assumes inv: "in_tx crc m" and tx: "mm_tx m = Some tx" and ad: "all_done tx"
    and m': "m' = m\<lparr>mm_mem := apply_ops (tx_jops tx) (mm_mem m), mm_lock := l, mm_tx := None\<rparr>"
  shows "meta_inv crc m'" "t \<in> mtypes \<Longrightarrow> v \<in> objs m t \<Longrightarrow> mobj m' t v = cur m t v"
proof -
  have i: "meta_inv crc m" using inv by (simp add: in_tx_def)
  have lay: "layout_ok m" using i by (simp add: meta_inv_def)
  note ok = meta_inv_txok [OF i tx]
  have mo: "mobj m' t v = cur m t v" if tv: "t \<in> mtypes" "v \<in> objs m t" for t v
  proof -
    obtain b j mo where o: "place m t v = Some (b, j)" "mobj m t v = Some mo" by (rule layout_obj [OF lay tv])
    have "mobj m' t v = mem_obj (apply_ops (tx_jops tx) (mm_mem m)) (b, j)"
      using o(1) by (simp add: mobj_def place_def m')
    also have "\<dots> = cur m t v" using commit_objs [OF ok ad tv o] cur_pick [OF lay tv o(2)] tx by simp
    finally show ?thesis .
  qed
  have f: "mm_anode m' = mm_anode m" "mm_bdroot m' = mm_bdroot m" "mm_run_version m' = mm_run_version m"
    "mm_inited m' = mm_inited m" "place m' = place m" "has_hole m' = has_hole m" "mm_tx m' = None"
    by (simp_all add: m' place_def has_hole_def fun_eq_iff)
  have c: "cur m' t v = cur m t v" if tv: "t \<in> mtypes" "v \<in> objs m t" for t v
    using mo [OF tv] cur_none [OF f(7)] by simp
  have "\<exists>b i mo. place m t v = Some (b, i) \<and> i < 2 ^ 32 \<and> cur m t v = Some mo \<and> txop_key mo = (t, v) \<and> obj_ok (has_hole m) mo"
    if tv: "t \<in> mtypes" "v \<in> objs m t" for t v
    by (rule cur_obj [OF i tv], rule layout_obj [OF lay tv]) blast
  then have "layout_ok m'" using lay mo unfolding layout_ok_def f by simp
  moreover have "free_ok m'" using i c unfolding meta_inv_def free_ok_def f by (auto 0 3)
  moreover have "bd_ok m'"
    using i c [of MT_BLKTAG] unfolding meta_inv_def bd_ok_def bd_in_def f by (simp add: mtypes_def)
  ultimately show "meta_inv crc m'" by (simp add: meta_inv_def f)
  show "t \<in> mtypes \<Longrightarrow> v \<in> objs m t \<Longrightarrow> mobj m' t v = cur m t v" by (rule mo)
qed

section \<open>The end of a transaction\<close>

text \<open>The contract of the journal: a write request that is answered was either refused, with
  memory as it was, or committed, and then memory has all of its objects.\<close>

locale write_journal =
  fixes request :: "'j \<Rightarrow> 'cb log_request" and serves :: "'j \<Rightarrow> 'cb tx \<Rightarrow> store \<Rightarrow> bool"
  assumes answer: "serves j tx mem \<Longrightarrow> request j tx mem = Some (rv, rpl, mem1) \<Longrightarrow>
    rpl = [] \<and> (rv < 0 \<and> mem1 = mem \<or> rv = 0 \<and> mem1 = apply_ops (tx_jops tx) mem)"

definition published :: "'cb meta \<Rightarrow> 'cb meta \<Rightarrow> bool" where
  "published m m' \<longleftrightarrow> (\<forall>t\<in>mtypes. objs m' t = objs m t \<and> (\<forall>v\<in>objs m t. mobj m' t v = cur m t v))"

definition ended :: "(u32 \<Rightarrow> u8 list \<Rightarrow> u32) \<Rightarrow> 'cb meta \<Rightarrow> int \<Rightarrow> int \<Rightarrow> 'cb meta \<Rightarrow> bool" where
  "ended crc m err rv m' \<longleftrightarrow> meta_inv crc m' \<and> mm_tx m' = None \<and> mm_inited m' \<and>
     (if rv = 0 then published m m' else frame m m') \<and> (err \<noteq> 0 \<longrightarrow> rv = err)"

context write_journal
begin

lemma tx_end_ok:
  assumes inv: "in_tx crc m" and tx: "mm_tx m = Some tx" and ad: "err = 0 \<Longrightarrow> all_done tx"
    and srv: "err = 0 \<Longrightarrow> t_ops tx \<noteq> [] \<Longrightarrow> serves j (tx\<lparr>t_done := True\<rparr>) (mm_mem m)"
  shows "case pfs_tx_end (request j) err m of
       None \<Rightarrow> err = 0 \<and> request j (tx\<lparr>t_done := True\<rparr>) (mm_mem m) = None
     | Some (rv, m', rpl, opcbs, txcbs) \<Rightarrow> ended crc m err rv m' \<and> rpl = []"
proof -
  let ?tx = "tx\<lparr>t_done := True\<rparr>" and ?m = "m\<lparr>mm_tx := Some (tx\<lparr>t_done := True\<rparr>)\<rparr>"
  have i: "meta_inv crc m" "mm_inited m" using inv by (auto simp: in_tx_def)
  have wf: "tx_wf tx" and lay: "layout_ok m" using i tx by (auto simp: meta_inv_def)
  obtain m1 where rb: "pfs_tx_rollback ?tx ?m = Some m1" "frame m m1" "mm_tx m1 = Some ?tx"
    "\<And>l. meta_inv crc (m1\<lparr>mm_lock := l, mm_tx := None\<rparr>)"
    by (rule tx_rollback_inv [OF i(1) tx i(2)]) blast
  have ini1: "mm_inited m1" using rb(2) i(2) by (simp add: frame_def)
  have fr1: "frame m (m1\<lparr>mm_lock := l, mm_tx := None\<rparr>)" for l using rb(2) by (simp add: frame_def)
  have ty: "t_type ?tx = TXT_WRITE" "t_type tx = TXT_WRITE" using tx_wfD(1) [OF wf] by simp_all
  have put: "pfs_tx_put ?tx = Some ()" using tx_wfD(3,4) [OF wf] by (simp add: pfs_tx_put_def)
  have cbs: "pfs_tx_do_callback ?tx = Some (concat (map pfs_txop_do_callback (t_ops tx)), t_cbs tx)"
    using ty by (simp add: pfs_tx_do_callback_def)
  have fin: ?thesis if sub: "pfs_tx_submit (request j) ?tx err ?m = Some (rv, m2, [])"
      and e: "ended crc m err rv (m2\<lparr>mm_lock := Unlocked, mm_tx := None\<rparr>)" for rv m2
  proof -
    have "pfs_tx_end (request j) err m = Some (rv, m2\<lparr>mm_lock := Unlocked, mm_tx := None\<rparr>, [],
        concat (map pfs_txop_do_callback (t_ops tx)), t_cbs tx)"
      using tx ty(2) sub put cbs by (simp add: pfs_tx_end_def pfs_meta_unlock_def Let_def)
    then show ?thesis
      using e by simp
  qed
  consider (empty) "t_ops tx = []" | (failed) "t_ops tx \<noteq> []" "err \<noteq> 0" | (logged) "t_ops tx \<noteq> []" "err = 0" by blast
  then show ?thesis
  proof cases
    case empty
    have "m1 = ?m" using rb(1) empty by (simp add: pfs_tx_rollback_def)
    then have e: "meta_inv crc (?m\<lparr>mm_lock := Unlocked, mm_tx := None\<rparr>)" "frame m (?m\<lparr>mm_lock := Unlocked, mm_tx := None\<rparr>)"
      using rb(4) [of Unlocked] fr1 [of Unlocked] by simp_all
    have "published m (?m\<lparr>mm_lock := Unlocked, mm_tx := None\<rparr>)"
      using commit_inv(2) [OF inv tx _ refl, where l = Unlocked] empty
      by (simp add: published_def all_done_def tx_jops_def)
    then show ?thesis using e i(2) empty ty by (intro fin [of err ?m]) (auto simp: pfs_tx_submit_def ended_def)
  next
    case failed
    then show ?thesis
      using rb(1,4) fr1 ini1 ty by (intro fin [of err m1]) (auto simp: pfs_tx_submit_def ended_def)
  next
    case logged
    show ?thesis
    proof (cases "request j ?tx (mm_mem m)")
      case None
      then show ?thesis using logged ty tx by (simp add: pfs_tx_end_def pfs_tx_submit_def)
    next
      case (Some r)
      then obtain rv rpl mem1 where r: "request j ?tx (mm_mem m) = Some (rv, rpl, mem1)" by (cases r) auto
      have ans: "rpl = [] \<and> (rv < 0 \<and> mem1 = mm_mem m \<or> rv = 0 \<and> mem1 = apply_ops (tx_jops tx) (mm_mem m))"
        using answer [OF srv [OF logged(2,1)] r] by (simp add: tx_jops_def)
      show ?thesis
      proof (cases "rv < 0")
        case True
        then show ?thesis
          using ans rb(1,4) fr1 ini1 ty logged r
          by (intro fin [of "if rv = - ETIMEDOUT \<and> \<not> t_timeoutfail tx then - EAGAIN else rv" m1])
             (auto simp: pfs_tx_submit_def ended_def Let_def)
      next
        case False
        then have a: "rpl = []" "rv = 0" "mem1 = apply_ops (tx_jops tx) (mm_mem m)" using ans by auto
        note c = commit_inv [OF inv tx ad [OF logged(2)] refl, where l = Unlocked]
        show ?thesis
          using a c i(2) logged r ty
          by (intro fin [of 0 "?m\<lparr>mm_mem := mem1\<rparr>"]) (auto simp: pfs_tx_submit_def ended_def published_def)
      qed
    qed
  qed
qed

end

end
