(* ===== verification/Log_Request.thy ===== *)
theory Log_Request
  imports Log_Round Meta_Tx
begin

text \<open>
  A request to the log thread as its sender sees it (\<open>pfs_log_request_impl\<close> of
  \<open>pfs_core/pfs_log.cc\<close>): it is queued, the thread makes its rounds, and the sender wakes up
  with the reply. This is the journal that \<open>pfs_tx_end\<close> relies on.
\<close>

section \<open>Waiting for the reply\<close>

definition reply_to :: "'cb log_req \<Rightarrow> 'cb lthread \<Rightarrow> 'cb log_reply option" where
  "reply_to req th = List.find (\<lambda>rp. rp_id rp = r_id req \<and> rp_type rp = r_type req) (th_replies th)"

text \<open>\<open>arr\<close> are the requests that arrive before each of the following rounds; when it is used
  up, or the thread has stopped, the sender still waits.\<close>

fun log_await ::
    "log_conf \<Rightarrow> 'cb log_req \<Rightarrow> 'cb log_req list list \<Rightarrow> 'cb lthread \<Rightarrow> ('cb log_reply \<times> 'cb lthread) option io" where
  "log_await lc req [] th = ret (map_option (\<lambda>rp. (rp, th)) (reply_to req th))"
| "log_await lc req (reqs # arr) th =
     (case reply_to req th of
        Some rp \<Rightarrow> ret (Some (rp, th))
      | None \<Rightarrow>
          if log_state (th_log th) = LOGST_STOP then ret None
          else
            bindW (log_thread_round (round_fuel (th_work th 0 @ reqs)) lc reqs th) (\<lambda>r.
              case r of None \<Rightarrow> ret None | Some th1 \<Rightarrow> log_await lc req arr th1))"

definition pfs_log_request_impl ::
    "log_conf \<Rightarrow> nat \<Rightarrow> nat \<Rightarrow> 'cb tx option \<Rightarrow> 'cb tx list \<Rightarrow> u32 \<Rightarrow> u32 \<Rightarrow> 'cb log_req list \<Rightarrow> 'cb log_req list list \<Rightarrow>
     'cb lthread \<Rightarrow> ('cb log_reply \<times> 'cb lthread) option io" where
  "pfs_log_request_impl lc rid type itx otxq host_id next_host_id earlier arr th =
     (let req = \<lparr>r_id = rid, r_type = type, r_itx = itx, r_otxq = otxq, r_hostid = host_id, r_next_hostid = next_host_id\<rparr>
      in log_await lc req ((earlier @ [req]) # arr) th)"

section \<open>A write request\<close>

lemma acked_filter: "acked rs m = acked (filter (\<lambda>rp. rp_type rp = LOG_WRITE) rs) m"
  by (induction rs arbitrary: m) (auto simp: acked_def ack_def split: option.splits)

text \<open>Requests of other threads while a write is under way: the metadata lock keeps other writes
  away.\<close>

definition others_ok :: "'cb log_req list \<Rightarrow> bool" where
  "others_ok reqs \<longleftrightarrow> list_all (\<lambda>r. r_type r \<in> {LOG_POLL, LOG_FLUSH} \<and> r_otxq r = []) reqs"

lemma others_ok_reqs:
  assumes "reqs_ok lc d th rs" "others_ok reqs"
  shows "reqs_ok lc d th (rs @ reqs)" "writes reqs = []"
proof -
  show w: "writes reqs = []" using assms(2) by (auto simp: others_ok_def list_all_iff filter_empty_conv)
  have "list_all (\<lambda>r. r_otxq r = [] \<and>
       r_type r \<in> {LOG_POLL, LOG_TRY_RESET_LOCK, LOG_WRITE, LOG_FLUSH, LOG_SUSPEND, LOG_RESUME, LOG_STOP} \<and>
       req_ok lc (length (d_journal d)) (th_mem th) (log_leader (th_log th)) r) reqs"
    using assms(2) by (auto simp: others_ok_def list_all_iff req_ok_def)
  then show "reqs_ok lc d th (rs @ reqs)" using assms(1) w by (simp add: reqs_ok_def)
qed

definition write_answered :: "log_conf \<Rightarrow> 'cb tx \<Rightarrow> store \<Rightarrow> ('cb log_reply \<times> 'cb lthread) option \<Rightarrow> pbd \<Rightarrow> bool" where
  "write_answered lc tx m r d \<longleftrightarrow>
     (case r of
        None \<Rightarrow> True
      | Some (rp, th') \<Rightarrow> idle lc d th' \<and> rp_otxq rp = [] \<and>
          (rp_error rp < 0 \<and> th_mem th' = m \<or> rp_error rp = 0 \<and> th_mem th' = apply_ops (tx_jops tx) m))"

lemma round_reply:
  assumes rs: "th_replies th' = th_replies th @ rs" "th_mem th' = acked rs (th_mem th)"
    "answered_writes [req] rs (writes (th_work th' 0))"
    and req: "r_type req = LOG_WRITE" "r_itx req = Some tx" and no: "reply_to req th = None"
  shows "case reply_to req th' of
       None \<Rightarrow> th_mem th' = th_mem th \<and> writes (th_work th' 0) = [req]
     | Some rp \<Rightarrow> rp_otxq rp = [] \<and>
         (rp_error rp < 0 \<and> th_mem th' = th_mem th \<or> rp_error rp = 0 \<and> th_mem th' = apply_ops (tx_jops tx) (th_mem th))"
proof -
  let ?W = "filter (\<lambda>rp. rp_type rp = LOG_WRITE) rs"
  have f: "reply_to req th' = List.find (\<lambda>rp. rp_id rp = r_id req \<and> rp_type rp = r_type req) rs"
    using no rs(1) by (simp add: reply_to_def find_append)
  have aw: "list_all (answers {req}) rs" "set (writes (th_work th' 0)) \<subseteq> {req}" "length ?W + length (writes (th_work th' 0)) = 1"
    using rs(3) by (auto simp: answered_writes_def)
  show ?thesis
  proof (cases ?W)
    case Nil
    then have "reply_to req th' = None" "th_mem th' = th_mem th"
      using f rs(2) acked_filter [of rs "th_mem th"] req(1) by (auto simp: find_None_iff filter_empty_conv acked_def)
    moreover have "writes (th_work th' 0) = [req]" using aw(2,3) Nil by (cases "writes (th_work th' 0)") auto
    ultimately show ?thesis by simp
  next
    case (Cons rp W)
    then have w: "?W = [rp]" using aw(3) by simp
    have rp: "rp \<in> set rs" "rp_type rp = LOG_WRITE" using arg_cong [OF w, of set] by auto
    have a: "answers {req} rp" using aw(1) rp(1) by (simp add: list_all_iff)
    have uniq: "x = rp" if "x \<in> set rs" "rp_type x = LOG_WRITE" for x using arg_cong [OF w, of set] that by auto
    have "reply_to req th' \<noteq> None" using f rp a req(1) by (auto simp: find_None_iff answers_def)
    then obtain x where x: "reply_to req th' = Some x" by blast
    then have "x \<in> set rs" "rp_type x = LOG_WRITE"
      using req(1) unfolding f by (auto simp: find_Some_iff)
    then have "x = rp" by (rule uniq)
    moreover have "th_mem th' = ack rp (th_mem th)" using rs(2) acked_filter [of rs] w by (simp add: acked_def)
    ultimately show ?thesis
      using x a rp(2) req(2) by (auto simp: answers_def ack_def split: option.splits)
  qed
qed

lemma log_await_ok:
  assumes "idle lc d th" "opts_ok (lc_opts lc)" "r_type req = LOG_WRITE" "r_itx req = Some tx" "reply_to req th = None"
    "arr \<noteq> [] \<Longrightarrow> reqs_ok lc d th (th_work th 0 @ hd arr) \<and> writes (th_work th 0 @ hd arr) = [req]"
    "list_all others_ok (tl arr)"
  shows "safe ((=) d) (log_await lc req arr th) (write_answered lc tx (th_mem th)) (survives lc th [req])"
  using assms
proof (induction arr arbitrary: th d)
  case Nil
  then show ?case by (auto simp: write_answered_def intro!: safe_ret)
next
  case (Cons reqs arr)
  let ?rs = "th_work th 0 @ reqs"
  have r: "reqs_ok lc d th ?rs" "writes ?rs = [req]" using Cons.prems(6) by simp_all
  show ?case
  proof (cases "log_state (th_log th) = LOGST_STOP")
    case True
    then show ?thesis using Cons.prems(5) by (auto simp: write_answered_def intro!: safe_ret)
  next
    case False
    have crash: "survives lc th [req] d'" if "survives lc th ?rs d'" for d'
      using that arg_cong [OF r(2), of set] unfolding survives_def by auto
    have next_ok: "safe ((=) d1) (case x of None \<Rightarrow> ret None | Some th1 \<Rightarrow> log_await lc req arr th1)
        (write_answered lc tx (th_mem th)) (survives lc th [req])" if x: "round_done lc th ?rs x d1" for x d1
    proof -
      obtain th1 rs where th1: "x = Some th1" "idle lc d1 th1" "th_sectsize th1 = th_sectsize th"
        "th_replies th1 = th_replies th @ rs" "th_mem th1 = acked rs (th_mem th)"
        "answered_writes [req] rs (writes (th_work th1 0))"
        using x r(2) unfolding round_done_def by (auto split: option.splits)
      note rr = round_reply [OF th1(4-6) Cons.prems(3-5)]
      show ?thesis
      proof (cases "reply_to req th1")
        case None
        have q: "reqs_ok lc d1 th1 (th_work th1 0)" using th1(2) by (simp add: idle_def)
        have "safe ((=) d1) (log_await lc req arr th1) (write_answered lc tx (th_mem th1)) (survives lc th1 [req])"
          using Cons.prems(7) None rr others_ok_reqs [OF q]
          by (intro Cons.IH [OF th1(2) Cons.prems(2-4) None]; cases arr) auto
        then show ?thesis using None rr th1(1,3) by (simp add: survives_def [abs_def])
      next
        case (Some rp)
        then have "log_await lc req arr th1 = ret (Some (rp, th1))" by (cases arr) simp_all
        then show ?thesis using th1(1,2) rr Some by (auto simp: write_answered_def intro!: safe_ret)
      qed
    qed
    show ?thesis
      unfolding log_await.simps(2) Cons.prems(5) option.case using False
      by (simp only: if_False) (rule safe_bind_crash [OF log_thread_round_ok [OF Cons.prems(1) r(1) Cons.prems(2) False order_refl]],
        auto intro: crash safe_pre next_ok)
  qed
qed

end
