(* ===== verification/Chunk.thy ===== *)
theory Chunk
  imports Meta
begin

text \<open>
  Chunks and their loading (\<open>pfs_core/pfs_meta.cc\<close>, \<open>pfs_meta.h\<close>, \<open>pfs_version.cc\<close>): the
  header of a chunk with its magic number, checksum and version, the fragments in which a
  metaset is read, the division of the chunks among the loading threads, and the walks over
  the objects of a chunk. The results of device reads and of memory allocation are arguments.
\<close>

section \<open>Chunk headers\<close>

record metaset_phy =
  msp_sectbda :: u64
  msp_nsect :: u32
  msp_objsize :: u32

text \<open>\<open>pfs_chunk_phy_t\<close>; the compiler's padding after \<open>ck_nchunk\<close> and \<open>ck_checksum\<close> is part of the
  bytes the checksum covers.\<close>

record chunk_phy =
  ck_magic :: u64
  ck_chunksize :: u64
  ck_blksize :: u64
  ck_sectsize :: u64
  ck_number :: u64
  ck_nchunk :: u32
  ck_pad :: "u8 list"
  ck_physet :: "metaset_phy list"
  ck_checksum :: u32
  ck_tail :: "u8 list"

abbreviation PBD_CHUNK_SIZE :: u64 where "PBD_CHUNK_SIZE \<equiv> 10737418240"
abbreviation PBD_SECTOR_SIZE :: u64 where "PBD_SECTOR_SIZE \<equiv> 4096"
abbreviation PFS_CHUNK_MAGIC :: u64 where "PFS_CHUNK_MAGIC \<equiv> 0x5046534348"
abbreviation PFS_MAX_VERSION :: int where "PFS_MAX_VERSION \<equiv> 64"
abbreviation MT_NTYPE :: nat where "MT_NTYPE \<equiv> 4"

definition chunk_phy_bytes :: "chunk_phy \<Rightarrow> u8 list" where
  "chunk_phy_bytes ck =
     le64 (ck_magic ck) @ le64 (ck_chunksize ck) @ le64 (ck_blksize ck) @ le64 (ck_sectsize ck) @ le64 (ck_number ck) @
     le32 (ck_nchunk ck) @ ck_pad ck @
     concat (map (\<lambda>ms. le64 (msp_sectbda ms) @ le32 (msp_nsect ms) @ le32 (msp_objsize ms)) (ck_physet ck)) @
     le32 (ck_checksum ck) @ ck_tail ck"

text \<open>A header as it stands in its sector: four bytes of padding twice, one set per type.\<close>

definition chunk_phy_typed :: "chunk_phy \<Rightarrow> bool" where
  "chunk_phy_typed ck \<longleftrightarrow> length (ck_pad ck) = 4 \<and> length (ck_physet ck) = MT_NTYPE \<and> length (ck_tail ck) = 4"

definition chunk_crc :: "(u32 \<Rightarrow> u8 list \<Rightarrow> u32) \<Rightarrow> chunk_phy \<Rightarrow> u32" where
  "chunk_crc crc ck = crc32c_compute crc (chunk_phy_bytes ck) 112"

definition chunk_magic_valid :: "u64 \<Rightarrow> u64 \<Rightarrow> bool" where
  "chunk_magic_valid ckid magic \<longleftrightarrow> magic = PFS_CHUNK_MAGIC \<or>
     ckid = 0 \<and> sint (magic - PFS_CHUNK_MAGIC) \<ge> 0 \<and> sint (magic - PFS_CHUNK_MAGIC) < PFS_MAX_VERSION"

definition chunk_magic_make :: "u64 \<Rightarrow> u64" where
  "chunk_magic_make ckid = (if ckid \<noteq> 0 then PFS_CHUNK_MAGIC else PFS_CHUNK_MAGIC + pfs_current_version)"

definition chunk_magic_version :: "u64 \<Rightarrow> u64" where
  "chunk_magic_version magic = magic - PFS_CHUNK_MAGIC"

text \<open>\<open>False\<close> ends the process.\<close>

definition pfs_meta_check_chunk :: "(u32 \<Rightarrow> u8 list \<Rightarrow> u32) \<Rightarrow> chunk_phy \<Rightarrow> bool" where
  "pfs_meta_check_chunk crc phyck \<longleftrightarrow>
     (ck_checksum phyck = 0 \<or> ck_checksum phyck = chunk_crc crc phyck) \<and>
     chunk_magic_valid (ck_number phyck) (ck_magic phyck) \<and>
     ck_chunksize phyck = PBD_CHUNK_SIZE \<and> ck_sectsize phyck = PBD_SECTOR_SIZE"

section \<open>Versions of a volume\<close>

abbreviation ENOTSUP :: int where "ENOTSUP \<equiv> 95"

text \<open>The answer and the version the mount runs with.\<close>

definition pfs_version_select :: "bool \<Rightarrow> chunk_phy \<Rightarrow> int + u64 \<times> u64" where
  "pfs_version_select istool phyck =
     (let diskver = chunk_magic_version (ck_magic phyck)
      in if pfs_current_version < diskver then Inl (- ENOTSUP)
         else Inr (diskver, if istool then diskver else pfs_current_version))"

text \<open>\<open>rv\<close> is the result of the write; \<open>None\<close> is a failed assertion.\<close>

definition pfs_version_upgrade ::
    "(u32 \<Rightarrow> u8 list \<Rightarrow> u32) \<Rightarrow> bool \<Rightarrow> bool \<Rightarrow> u64 \<Rightarrow> u64 \<Rightarrow> int \<Rightarrow> chunk_phy \<Rightarrow> (int \<times> chunk_phy) option" where
  "pfs_version_upgrade crc istool writable disk_version run_version rv phyck =
     (if \<not> istool \<and> writable \<and> run_version = pfs_current_version \<and> disk_version \<le> run_version then
        (if disk_version = run_version then Some (0, phyck)
         else
           let ck1 = phyck\<lparr>ck_magic := chunk_magic_make 0\<rparr>
           in Some (rv, ck1\<lparr>ck_checksum := chunk_crc crc ck1\<rparr>))
      else None)"

section \<open>Reading a metaset\<close>

text \<open>The fragments of the loop of \<open>pfs_meta_load_set\<close>: offset in the buffer, length, address.\<close>

function load_frags :: "nat \<Rightarrow> nat \<Rightarrow> nat \<Rightarrow> (nat \<times> nat \<times> nat) list" where
  "load_frags bda rsum buflen =
     (if rsum < buflen then
        let rlen = min (16384 - bda mod 16384) (buflen - rsum)
        in (rsum, rlen, bda) # load_frags (bda + rlen) (rsum + rlen) buflen
      else [])"
  by auto

termination
  by (relation "measure (\<lambda>(bda, rsum, buflen). buflen - rsum)") auto

declare load_frags.simps [simp del]

text \<open>The reads are issued until one is refused; \<open>rd\<close> gives the answer of each.\<close>

fun load_reads :: "(nat \<Rightarrow> nat \<Rightarrow> int) \<Rightarrow> (nat \<times> nat \<times> nat) list \<Rightarrow> int" where
  "load_reads rd [] = 0"
| "load_reads rd [(off, len, bda)] = rd len bda"
| "load_reads rd ((off, len, bda) # fs) = (if rd len bda < 0 then rd len bda else load_reads rd fs)"

text \<open>What the environment answers while a chunk is loaded.\<close>

record load_env =
  le_memalign :: bool
  le_header :: "int + chunk_phy"
  le_chunk_mem :: bool
  le_objbuf_mem :: "u8 \<Rightarrow> bool"
  le_rd :: "u8 \<Rightarrow> nat \<Rightarrow> nat \<Rightarrow> int"
  le_wait :: "u8 \<Rightarrow> int"

text \<open>\<open>PFS_ASSERT\<close> and a division by zero are \<open>None\<close>.\<close>

definition pfs_meta_load_set :: "load_env \<Rightarrow> chunk_phy \<Rightarrow> u8 \<Rightarrow> (int \<times> metaset) option" where
  "pfs_meta_load_set env phyck mtype =
     (let physet = ck_physet phyck ! unat mtype; objsize = msp_objsize physet
      in if objsize = 0 then None
         else
           let opps = ffs (ucast (ck_sectsize phyck div ucast objsize)) - 1;
               ms = \<lparr>ms_type = mtype, ms_opps = opps, ms_sectbda = msp_sectbda physet, ms_nsect = msp_nsect physet,
                     ms_objsize = objsize\<rparr>
           in if ucast (push_bit opps objsize) \<noteq> ck_sectsize phyck then None
              else if \<not> le_objbuf_mem env mtype then Some (- ENOMEM, ms)
              else if ck_sectsize phyck mod 128 \<noteq> 0 then None
              else
                let buflen = unat (msp_nsect physet) * unat (ck_sectsize phyck);
                    err = load_reads (le_rd env mtype) (load_frags (unat (msp_sectbda physet)) 0 buflen)
                in Some (err_update err (le_wait env mtype), ms))"

text \<open>A loaded chunk: its header, its metasets and their allocation nodes.\<close>

record chunk =
  ch_phyck :: chunk_phy
  ch_metaset :: "u8 \<Rightarrow> metaset"
  ch_anode :: "u8 \<Rightarrow> metaset anode"

fun load_sets ::
    "(u32 \<Rightarrow> u8 list \<Rightarrow> u32) \<Rightarrow> (u64 \<Rightarrow> metaobj list) \<Rightarrow> load_env \<Rightarrow> u8 list \<Rightarrow> chunk \<Rightarrow> (int \<times> chunk) option" where
  "load_sets crc mem env [] ck = Some (0, ck)"
| "load_sets crc mem env (t # ts) ck =
     (case pfs_meta_load_set env (ch_phyck ck) t of
        None \<Rightarrow> None
      | Some (err, ms) \<Rightarrow>
          let ck1 = ck\<lparr>ch_metaset := (ch_metaset ck)(t := ms)\<rparr>
          in if err < 0 then Some (err, ck1)
             else if pfs_metaset_check_crc crc mem ms
             then load_sets crc mem env ts
                    (ck1\<lparr>ch_anode := (ch_anode ck)(t := pfs_metaset_init_anode mem ms (ck_number (ch_phyck ck)))\<rparr>)
             else None)"

text \<open>\<open>mem\<close> is what the sectors of the volume hold.\<close>

definition pfs_meta_load_chunk ::
    "(u32 \<Rightarrow> u8 list \<Rightarrow> u32) \<Rightarrow> (u64 \<Rightarrow> metaobj list) \<Rightarrow> load_env \<Rightarrow> u32 \<Rightarrow> u32 \<Rightarrow> chunk \<Rightarrow> (int \<times> chunk) option" where
  "pfs_meta_load_chunk crc mem env nchunk ckid ck0 =
     (if \<not> ckid < nchunk then None
      else if \<not> le_memalign env then Some (- ENOMEM, ck0)
      else
        (case le_header env of
           Inl e \<Rightarrow> Some (- EIO, ck0)
         | Inr phyck \<Rightarrow>
             if \<not> pfs_meta_check_chunk crc phyck \<or> ck_number phyck \<noteq> ucast ckid then None
             else if \<not> le_chunk_mem env then Some (- ENOMEM, ck0)
             else load_sets crc mem env [MT_BLKTAG, MT_DIRENTRY, MT_INODE] (ck0\<lparr>ch_phyck := phyck\<rparr>)))"

section \<open>Loading in parallel\<close>

abbreviation MAX_NTHRD :: int where "MAX_NTHRD \<equiv> 64"
abbreviation MIN_NTHRD :: int where "MIN_NTHRD \<equiv> 8"

text \<open>The threads and the chunks \<open>[t_lckid, t_rckid)\<close> of each.\<close>

fun load_tasks :: "nat \<Rightarrow> nat \<Rightarrow> nat \<Rightarrow> nat \<Rightarrow> nat \<Rightarrow> (nat \<times> nat) list" where
  "load_tasks 0 i nstep nresd ckid = []"
| "load_tasks (Suc n) i nstep nresd ckid =
     (let nck = (if i < nresd then nstep + 1 else nstep)
      in (ckid, ckid + nck) # load_tasks n (Suc i) nstep nresd (ckid + nck))"

definition load_nthrd :: "int \<Rightarrow> nat \<Rightarrow> nat \<Rightarrow> nat" where
  "load_nthrd count oldnck newnck = nat (min (min (max count MIN_NTHRD) MAX_NTHRD) (int (newnck - oldnck)))"

definition pfs_meta_load_chunks_parallel :: "int \<Rightarrow> nat \<Rightarrow> nat \<Rightarrow> (nat \<times> nat) list option" where
  "pfs_meta_load_chunks_parallel loadthread_count oldnck newnck =
     (if oldnck < newnck then
        let nthrd = load_nthrd loadthread_count oldnck newnck
        in Some (load_tasks nthrd 0 ((newnck - oldnck) div nthrd) ((newnck - oldnck) mod nthrd) oldnck)
      else None)"

text \<open>One thread: its chunks in order, until one fails. \<open>load\<close> is \<open>pfs_meta_load_chunk\<close>.\<close>

fun pfs_meta_loadtask_run :: "(nat \<Rightarrow> int) \<Rightarrow> nat list \<Rightarrow> int" where
  "pfs_meta_loadtask_run load [] = 0"
| "pfs_meta_loadtask_run load (ckid # ckids) =
     (if load ckid < 0 then load ckid else if ckids = [] then load ckid else pfs_meta_loadtask_run load ckids)"

definition loadtask_errs :: "(nat \<Rightarrow> int) \<Rightarrow> (nat \<times> nat) list \<Rightarrow> int" where
  "loadtask_errs load tasks = fold (\<lambda>(l, r) err. err_update err (pfs_meta_loadtask_run load [l..<r])) tasks 0"

text \<open>\<open>pfs_meta_load_all_chunks\<close>: the answer and the number of chunks of the mount. A volume that
  has shrunk ends the process.\<close>

definition pfs_meta_load_all_chunks ::
    "(u32 \<Rightarrow> u8 list \<Rightarrow> u32) \<Rightarrow> int \<Rightarrow> int + chunk_phy \<Rightarrow> bool \<Rightarrow> (nat \<Rightarrow> int) \<Rightarrow> u32 \<Rightarrow> (int \<times> u32) option" where
  "pfs_meta_load_all_chunks crc loadthread_count header mem load mnt_nchunk =
     (case header of
        Inl e \<Rightarrow> Some (e, mnt_nchunk)
      | Inr phyck \<Rightarrow>
          if \<not> pfs_meta_check_chunk crc phyck then None
          else if mnt_nchunk = ck_nchunk phyck then Some (0, mnt_nchunk)
          else if mnt_nchunk > ck_nchunk phyck then None
          else if \<not> mem then Some (- ENOMEM, mnt_nchunk)
          else map_option (\<lambda>tasks. (loadtask_errs load tasks, ck_nchunk phyck))
                 (pfs_meta_load_chunks_parallel loadthread_count (unat mnt_nchunk) (unat (ck_nchunk phyck))))"

section \<open>Walks over the objects of a chunk\<close>

abbreviation INT_MAX :: u32 where "INT_MAX \<equiv> 0x7FFFFFFF"

text \<open>The used objects, each with where its hole begins; \<open>mem\<close> tells whether the vector can grow.\<close>

definition used_push :: "bool \<Rightarrow> bool \<Rightarrow> nat \<times> metaobj \<Rightarrow> oidvect option \<Rightarrow> oidvect option" where
  "used_push mem hole = (\<lambda>(k, mo) ov.
     case ov of
       None \<Rightarrow> None
     | Some v \<Rightarrow>
         if mo_used mo = 0 then Some v
         else
           let holeoff = (case (hole, mo_data mo) of
                 (True, BT bt r) \<Rightarrow> if sint (bt_holelen bt) > 0 then bt_holeoff bt else INT_MAX
               | _ \<Rightarrow> INT_MAX);
               (err, v1) = oidvect_push (mem, mem) v (of_nat k) holeoff
           in if err = 0 then Some v1 else None)"

definition pfs_metaset_used_oid ::
    "bool \<Rightarrow> bool \<Rightarrow> (u64 \<Rightarrow> metaobj list) \<Rightarrow> metaset anode \<Rightarrow> u64 \<Rightarrow> oidvect option \<Rightarrow> metaset anode \<times> oidvect option" where
  "pfs_metaset_used_oid mem hole objbuf an oidzero ov =
     (an, if an_children an \<noteq> [] then ov
          else fold (used_push mem (hole \<and> ms_type (an_host an) = MT_BLKTAG))
                 (enumerate 0 (ms_objects objbuf (an_host an))) ov)"

definition chunk_oid :: "metaset anode \<Rightarrow> u64 \<Rightarrow> u64 \<Rightarrow> u64" where
  "chunk_oid anroot ckid objid = MONO_MAKE (push_bit (an_shift (an_info (hd (an_children anroot)))) ckid) objid"

definition pfs_meta_used_oid :: "bool \<Rightarrow> u8 \<Rightarrow> u64 \<Rightarrow> oidvect \<Rightarrow> 'cb meta \<Rightarrow> oidvect option" where
  "pfs_meta_used_oid mem mtype ckid ov m =
     (case pfs_version_has_features (mm_run_version m) PFS_FEATURE_BLKHOLE of
        None \<Rightarrow> None
      | Some hole \<Rightarrow>
          Option.bind (pfs_anode_visit (pfs_metaset_used_oid mem hole (mm_mem m)) (mm_anode m mtype)
              (chunk_oid (mm_anode m mtype) ckid 0) (Some ov)) snd)"

text \<open>The blocks a discard of a whole chunk selects: every unused block, or those not discarded.\<close>

definition bd_select_obj :: "bool \<Rightarrow> metaobj \<Rightarrow> (u64 set \<times> int) option \<Rightarrow> (u64 set \<times> int) option" where
  "bd_select_obj d_all mo sel =
     (case (sel, mo_data mo) of
        (Some (root, n), BT bt r) \<Rightarrow>
          if mo_type mo \<noteq> MT_BLKTAG then None
          else if mo_used mo \<noteq> 0 then sel
          else if \<not> d_all \<and> bt_dstatus bt = BDS_NONE then sel
          else Some (insert (mo_number mo) root, n + 1)
      | _ \<Rightarrow> None)"

definition pfs_metaset_bd_select ::
    "bool \<Rightarrow> (u64 \<Rightarrow> metaobj list) \<Rightarrow> metaset anode \<Rightarrow> u64 \<Rightarrow> (u64 set \<times> int) option \<Rightarrow> metaset anode \<times> (u64 set \<times> int) option" where
  "pfs_metaset_bd_select d_all objbuf an firstoid sel =
     (an, if an_children an \<noteq> [] then sel else fold (bd_select_obj d_all) (ms_objects objbuf (an_host an)) sel)"

definition pfs_meta_bd_select :: "bool \<Rightarrow> u64 \<Rightarrow> u64 set \<times> int \<Rightarrow> 'cb meta \<Rightarrow> (u64 set \<times> int) option" where
  "pfs_meta_bd_select d_all ckid sel m =
     Option.bind (pfs_anode_visit (pfs_metaset_bd_select d_all (mm_mem m)) (mm_anode m MT_BLKTAG)
         (chunk_oid (mm_anode m MT_BLKTAG) ckid 0) (Some sel)) snd"

text \<open>A visit of one object of a chunk, or of all of them. \<open>f\<close> is the visitor.\<close>

definition pfs_metaset_visit ::
    "'cb tx option \<Rightarrow> (metaobj \<Rightarrow> 's \<Rightarrow> 's) \<Rightarrow> bool \<Rightarrow> (u64 \<Rightarrow> metaobj list) \<Rightarrow> metaset anode \<Rightarrow> u64 \<Rightarrow> 's option \<Rightarrow>
     metaset anode \<times> 's option" where
  "pfs_metaset_visit tx f one objbuf an oid s =
     (an, if an_children an \<noteq> [] then s
          else if one then
            (case (metaset_read tx objbuf (an_host an) oid, s) of (Some mo, Some x) \<Rightarrow> Some (f mo x) | _ \<Rightarrow> None)
          else map_option (fold f (ms_objects objbuf (an_host an))) s)"

definition pfs_meta_visit :: "u8 \<Rightarrow> u64 \<Rightarrow> int \<Rightarrow> (metaobj \<Rightarrow> 's \<Rightarrow> 's) \<Rightarrow> 's \<Rightarrow> 'cb meta \<Rightarrow> ('s \<times> 'cb meta) option" where
  "pfs_meta_visit mtype ckid objid f s m =
     (if mtype = MT_NONE \<or> \<not> unat mtype < MT_NTYPE then None
      else
        let m1 = pfs_meta_lock m; anroot = mm_anode m mtype;
            oid = chunk_oid anroot ckid (if objid < 0 then 0 else of_int objid)
        in map_option (\<lambda>x. (x, pfs_meta_unlock m1))
             (Option.bind (pfs_anode_visit (pfs_metaset_visit (mm_tx m) f (objid \<ge> 0) (mm_mem m)) anroot oid (Some s)) snd))"

section \<open>Fragments and tasks\<close>

lemma upt_split: "d = a + (b + c) \<Longrightarrow> [a..<d] = [a..<a + b] @ [a + b..<d]" for a :: nat
  by (simp add: upt_add_eq_append [symmetric] add.assoc [symmetric])

lemma load_frags_range:
  assumes "rsum \<le> buflen"
  shows "concat (map (\<lambda>(off, len, b). [b..<b + len]) (load_frags bda rsum buflen)) = [bda..<bda + (buflen - rsum)]"
    "(off, len, b) \<in> set (load_frags bda rsum buflen) \<Longrightarrow>
       0 < len \<and> b + rsum = bda + off \<and> off + len \<le> buflen \<and> b div 16384 = (b + len - 1) div 16384"
  using assms
proof (induction bda rsum buflen rule: load_frags.induct)
  case (1 bda rsum buflen)
  define rlen where "rlen = min (16384 - bda mod 16384) (buflen - rsum)"
  note e = load_frags.simps [of bda rsum buflen, folded rlen_def, unfolded Let_def, folded rlen_def]
  {
    case 1
    show ?case
    proof (cases "rsum < buflen")
      case True
      have r: "rlen \<le> buflen - rsum" by (simp add: rlen_def)
      have "concat (map (\<lambda>(off, len, b). [b..<b + len]) (load_frags (bda + rlen) (rsum + rlen) buflen)) =
          [bda + rlen..<bda + rlen + (buflen - (rsum + rlen))]"
        by (rule "1.IH"(1) [OF True rlen_def]) (use r True in linarith)
      moreover have "[bda..<bda + (buflen - rsum)] = [bda..<bda + rlen] @ [bda + rlen..<bda + rlen + (buflen - (rsum + rlen))]"
      proof -
        have "bda + rlen + (buflen - (rsum + rlen)) = bda + rlen + (buflen - rsum - rlen)" "bda + (buflen - rsum) = bda + rlen + (buflen - rsum - rlen)"
          using r by auto
        then show ?thesis by (simp only: upt_add_eq_append [of bda "bda + rlen", OF le_add1])
      qed
      ultimately show ?thesis using True by (simp add: e)
    qed (use 1 in \<open>simp add: load_frags.simps\<close>)
  next
    case 2
    have lt: "rsum < buflen" using 2(1) by (cases "rsum < buflen") (simp_all add: e)
    have r: "0 < rlen" "rlen \<le> buflen - rsum" "rlen \<le> 16384 - bda mod 16384" using lt by (simp_all add: rlen_def)
    show ?case
    proof (cases "(off, len, b) = (rsum, rlen, bda)")
      case True
      have "(bda + rlen - 1) div 16384 = bda div 16384"
      proof -
        have m: "bda mod 16384 < 16384" by simp
        have "bda = 16384 * (bda div 16384) + bda mod 16384" by simp
        then have "bda + rlen - 1 < 16384 * (bda div 16384) + 16384" "16384 * (bda div 16384) \<le> bda + rlen - 1"
          using r m by linarith+
        then show ?thesis by (intro div_nat_eqI) (simp_all add: mult.commute)
      qed
      then show ?thesis using True r by simp
    next
      case False
      then have "(off, len, b) \<in> set (load_frags (bda + rlen) (rsum + rlen) buflen)" using 2(1) lt by (auto simp: e)
      then show ?thesis using "1.IH"(2) [OF lt rlen_def] r by auto
    qed
  }
qed

lemma load_tasks_range:
  "concat (map (\<lambda>(l, r). [l..<r]) (load_tasks n i nstep nresd ckid)) =
     [ckid..<ckid + n * nstep + (min (i + n) nresd - min i nresd)]"
  "length (load_tasks n i nstep nresd ckid) = n"
  "0 < nstep \<Longrightarrow> list_all (\<lambda>(l, r). l < r) (load_tasks n i nstep nresd ckid)"
proof (induction n arbitrary: i ckid)
  case (Suc n)
  { case 1
    let ?nck = "if i < nresd then nstep + 1 else nstep"
    have "[ckid..<ckid + Suc n * nstep + (min (i + Suc n) nresd - min i nresd)] =
        [ckid..<ckid + ?nck] @ [ckid + ?nck..<ckid + ?nck + n * nstep + (min (Suc i + n) nresd - min (Suc i) nresd)]"
    proof -
      have "ckid + Suc n * nstep + (min (i + Suc n) nresd - min i nresd) =
          (ckid + ?nck) + (n * nstep + (min (Suc i + n) nresd - min (Suc i) nresd))"
        by (cases "i < nresd"; cases "Suc (i + n) \<le> nresd") (simp_all add: min_def)
      then show ?thesis by (simp only: add.assoc) (rule upt_split [OF refl])
    qed
    then show ?case using Suc(1) [of "Suc i" "ckid + ?nck"] by (simp add: Let_def)
  next
    case 2 then show ?case using Suc(2) by (simp add: Let_def)
  next
    case 3 then show ?case using Suc(3) by (simp add: Let_def) }
qed simp_all

lemma loadtask_run_zero:
  assumes "\<And>k. load k \<le> 0"
  shows "pfs_meta_loadtask_run load ks \<le> 0" "pfs_meta_loadtask_run load ks = 0 \<longleftrightarrow> (\<forall>k\<in>set ks. load k = 0)"
  using assms
  by (induction ks) (auto simp: antisym_conv order.order_iff_strict)

lemma loadtask_errs_zero:
  assumes "\<And>k. load k \<le> 0"
  shows "loadtask_errs load tasks = 0 \<longleftrightarrow> (\<forall>(l, r)\<in>set tasks. \<forall>k\<in>{l..<r}. load k = 0)"
proof -
  have "(e :: int) \<le> 0 \<Longrightarrow> fold (\<lambda>(l, r) err. err_update err (pfs_meta_loadtask_run load [l..<r])) tasks e \<le> 0 \<and>
      (fold (\<lambda>(l, r) err. err_update err (pfs_meta_loadtask_run load [l..<r])) tasks e = 0 \<longleftrightarrow>
         e = 0 \<and> (\<forall>(l, r)\<in>set tasks. \<forall>k\<in>{l..<r}. load k = 0))" for e
  proof (induction tasks arbitrary: e)
    case (Cons t tasks)
    obtain l r where t: "t = (l, r)" by (cases t)
    let ?e = "err_update e (pfs_meta_loadtask_run load [l..<r])"
    have "?e \<le> 0" "?e = 0 \<longleftrightarrow> e = 0 \<and> (\<forall>k\<in>{l..<r}. load k = 0)"
      using Cons.prems loadtask_run_zero [of load "[l..<r]", OF assms] by (auto simp: err_update_def)
    then show ?case using Cons.IH [of ?e] by (simp add: t)
  qed simp
  then show ?thesis by (simp add: loadtask_errs_def)
qed




section \<open>Upgrades\<close>

lemma chunk_crc_checksum:
  assumes "chunk_phy_typed ck"
  shows "chunk_crc crc (ck\<lparr>ck_checksum := c\<rparr>) = chunk_crc crc ck"
proof -
  obtain a b c' d where "ck_physet ck = [a, b, c', d]"
    using assms by (auto simp: chunk_phy_typed_def eval_nat_numeral length_Suc_conv)
  then show ?thesis
    using assms by (simp add: chunk_crc_def crc32c_compute_def chunk_phy_bytes_def chunk_phy_typed_def)
qed

lemma magic_make_valid: "chunk_magic_valid 0 (chunk_magic_make 0)" "chunk_magic_version (chunk_magic_make 0) = pfs_current_version"
  by (simp_all add: chunk_magic_valid_def chunk_magic_make_def chunk_magic_version_def pfs_current_version_def)

text \<open>Claim C23: the version a mount selects is one whose features the code knows, and upgrading
  the volume to it leaves a header that the next mount accepts and finds at that version.\<close>

theorem version_upgrade_roundtrip:
  assumes "chunk_phy_typed ck" "pfs_meta_check_chunk crc ck" "ck_number ck = 0" "pfs_version_select False ck = Inr (dv, rv)"
  shows "(\<exists>b. pfs_version_has_features rv f = Some b) \<and>
    (\<exists>ck'. pfs_version_upgrade crc False True dv rv 0 ck = Some (0, ck') \<and> pfs_meta_check_chunk crc ck' \<and>
       pfs_version_select istool ck' = Inr (pfs_current_version, pfs_current_version))"
proof -
  have v: "rv = pfs_current_version" "dv = chunk_magic_version (ck_magic ck)" "dv \<le> pfs_current_version"
    using assms(4) by (auto simp: pfs_version_select_def Let_def split: if_splits)
  show ?thesis
  proof (cases "dv = rv")
    case True
    then show ?thesis
      using assms(2) v by (auto simp: pfs_version_upgrade_def pfs_version_select_def pfs_version_has_features_def Let_def)
  next
    case False
    let ?ck1 = "ck\<lparr>ck_magic := chunk_magic_make 0\<rparr>"
    let ?ck = "?ck1\<lparr>ck_checksum := chunk_crc crc ?ck1\<rparr>"
    have "chunk_crc crc ?ck = chunk_crc crc ?ck1"
      by (rule chunk_crc_checksum) (use assms(1) in \<open>simp add: chunk_phy_typed_def\<close>)
    then have "pfs_meta_check_chunk crc ?ck"
      using assms(2,3) magic_make_valid(1) by (simp add: pfs_meta_check_chunk_def)
    moreover have "pfs_version_select istool ?ck = Inr (pfs_current_version, pfs_current_version)"
      using magic_make_valid(2) by (simp add: pfs_version_select_def Let_def)
    ultimately show ?thesis
      using False v by (auto simp: pfs_version_upgrade_def pfs_version_has_features_def Let_def)
  qed
qed

definition old_chunk :: chunk_phy where
  "old_chunk = \<lparr>ck_magic = PFS_CHUNK_MAGIC + 1, ck_chunksize = PBD_CHUNK_SIZE, ck_blksize = 4194304, ck_sectsize = 4096,
     ck_number = 0, ck_nchunk = 1, ck_pad = replicate 4 0,
     ck_physet = replicate 4 \<lparr>msp_sectbda = 4096, msp_nsect = 1, msp_objsize = 128\<rparr>, ck_checksum = 0, ck_tail = replicate 4 0\<rparr>"

theorem version_upgrade_roundtrip_witness:
  "pfs_version_select False old_chunk = Inr (1, 2) \<and>
   (\<exists>ck'. pfs_version_upgrade (\<lambda>c bs. c) False True 1 2 0 old_chunk = Some (0, ck') \<and>
      pfs_meta_check_chunk (\<lambda>c bs. c) ck' \<and> pfs_version_select True ck' = Inr (2, 2))"
proof -
  have s: "pfs_version_select False old_chunk = Inr (1, 2)"
    by (simp add: pfs_version_select_def old_chunk_def chunk_magic_version_def pfs_current_version_def)
  have "pfs_meta_check_chunk (\<lambda>c bs. c) old_chunk" "chunk_phy_typed old_chunk" "ck_number old_chunk = 0"
    by (simp_all add: pfs_meta_check_chunk_def old_chunk_def chunk_magic_valid_def chunk_phy_typed_def)
  then show ?thesis
    using version_upgrade_roundtrip [OF _ _ _ s, of "\<lambda>c bs. c" 0 True] s by (simp add: pfs_current_version_def)
qed

end
