(* ===== verification/Meta_Load.thy ===== *)
theory Meta_Load
  imports Chunk Meta_Rollback
begin

text \<open>
  Mounting: the allocation nodes that \<open>pfs_metaset_init_anode\<close> and \<open>pfs_init_anode\<close> build from the
  objects of the chunks, with the discard index of \<open>pfs_meta_bd_build_index\<close>, satisfy the
  invariant of the metadata layer. What is assumed of the volume is its format only.
\<close>

section \<open>Objects of a metaset\<close>

definition ms_nobj :: "metaset \<Rightarrow> nat" where
  "ms_nobj ms = unat (ms_nsect ms) * 2 ^ ms_opps ms"

text \<open>The sectors are there, and the objects fit the bitmap of a leaf.\<close>

definition ms_full :: "(u64 \<Rightarrow> metaobj list) \<Rightarrow> metaset \<Rightarrow> bool" where
  "ms_full mem ms \<longleftrightarrow> 0 < ms_nsect ms \<and> ms_nobj ms \<le> 2560 \<and>
     (\<forall>si<unat (ms_nsect ms). 2 ^ ms_opps ms \<le> length (mem (ms_buf ms si)))"

lemma concat_blocks:
  assumes "\<And>i. i < n \<Longrightarrow> length (f i) = k"
  shows "length (concat (map f [0..<n])) = n * k" "w < n * k \<Longrightarrow> concat (map f [0..<n]) ! w = f (w div k) ! (w mod k)"
  using assms
proof (induction n)
  case (Suc n)
  { case 1 then show ?case using Suc by simp
  next
    case 2
    have l: "length (concat (map f [0..<n])) = n * k" using Suc.IH(1) 2 by simp
    show ?case
    proof (cases "w < n * k")
      case True
      then show ?thesis using Suc.IH(2) 2(2) l by (simp add: nth_append)
    next
      case False
      then have w: "w = n * k + (w - n * k)" "w - n * k < k" using 2(1) by auto
      then have "w div k = n" "w mod k = w - n * k"
        by (metis add.commute div_mult_self1 div_less add_cancel_left_right less_nat_zero_code, metis mod_mult_self3 mod_less)
      then show ?thesis using False l by (simp add: nth_append)
    qed }
qed simp_all

lemma ms_objects_nth:
  assumes "ms_full mem ms"
  shows "length (ms_objects mem ms) = ms_nobj ms"
    "w < ms_nobj ms \<Longrightarrow> ms_objects mem ms ! w = mem (ms_buf ms (w div 2 ^ ms_opps ms)) ! (w mod 2 ^ ms_opps ms)"
proof -
  let ?f = "\<lambda>si. take (2 ^ ms_opps ms) (mem (ms_buf ms si))" and ?n = "unat (ms_nsect ms)"
  have len: "length (?f i) = 2 ^ ms_opps ms" if "i < ?n" for i using assms that by (auto simp: ms_full_def)
  note c = concat_blocks [of ?n ?f "2 ^ ms_opps ms", OF len]
  show "length (ms_objects mem ms) = ms_nobj ms" using c(1) by (simp add: ms_objects_def ms_nobj_def)
  show "ms_objects mem ms ! w = mem (ms_buf ms (w div 2 ^ ms_opps ms)) ! (w mod 2 ^ ms_opps ms)" if "w < ms_nobj ms"
    using c(2) that by (simp add: ms_objects_def ms_nobj_def)
qed

lemma ms_place_nobj:
  assumes "ms_full mem ms" "w < ms_nobj ms"
  shows "ms_place ms (of_nat w) = Some (ms_buf ms (w div 2 ^ ms_opps ms), w mod 2 ^ ms_opps ms)"
    "w mod 2 ^ ms_opps ms < length (mem (ms_buf ms (w div 2 ^ ms_opps ms)))" "w mod 2 ^ ms_opps ms < 2 ^ 32"
    "mem_obj mem (ms_buf ms (w div 2 ^ ms_opps ms), w mod 2 ^ ms_opps ms) = Some (ms_objects mem ms ! w)"
proof -
  let ?k = "ms_opps ms" and ?w = "of_nat w :: u64"
  have n: "w < 2560" "0 < unat (ms_nsect ms)" using assms by (auto simp: ms_full_def word_gt_0 unat_gt_0)
  have k: "(2 :: nat) ^ ?k \<le> 2560" using assms n(2) by (auto simp: ms_full_def ms_nobj_def intro: order_trans [rotated])
  have k12: "?k < 12"
  proof (rule ccontr)
    assume "\<not> ?k < 12"
    then have "(2 :: nat) ^ 12 \<le> 2 ^ ?k" by (intro power_increasing) auto
    then show False using k by simp
  qed
  have d: "w div 2 ^ ?k < unat (ms_nsect ms)" using assms(2) by (simp add: ms_nobj_def less_mult_imp_div_less)
  have m: "w mod 2 ^ ?k < 2 ^ ?k" by simp
  show l: "w mod 2 ^ ?k < length (mem (ms_buf ms (w div 2 ^ ?k)))"
    using assms(1) d less_le_trans [OF m] by (auto simp: ms_full_def)
  have "(2560 :: nat) < 2 ^ 32" by simp
  then show "w mod 2 ^ ?k < 2 ^ 32" using m k by linarith
  have un: "unat (of_nat x :: u64) = x" if "x \<le> 2560" for x using that by (simp add: unsigned_of_nat take_bit_nat_eq_self)
  have si: "drop_bit ?k ?w = of_nat (w div 2 ^ ?k)"
  proof -
    have "unat (of_nat (w div 2 ^ ?k) :: u64) = w div 2 ^ ?k" using n(1) by (auto intro!: un order.trans [OF div_le_dividend])
    moreover have "unat (drop_bit ?k ?w) = w div 2 ^ ?k"
      using n(1) un [of w] by (simp only: unsigned_drop_bit_eq) (simp add: drop_bit_eq_div take_bit_nat_eq_self)
    ultimately show ?thesis by (simp add: word_unat_eq_iff)
  qed
  have pw: "unat (2 ^ ?k :: u64) = 2 ^ ?k" using un [OF k] by simp
  have "?w - push_bit ?k (of_nat (w div 2 ^ ?k)) = of_nat (w - w div 2 ^ ?k * 2 ^ ?k)"
    by (simp add: push_bit_eq_mult of_nat_diff)
  also have "\<dots> = of_nat (w mod 2 ^ ?k)" by (simp add: minus_div_mult_eq_mod)
  finally have oi: "?w - push_bit ?k (of_nat (w div 2 ^ ?k)) = of_nat (w mod 2 ^ ?k)" .
  have "unat (of_nat (w div 2 ^ ?k) :: u64) = w div 2 ^ ?k" "unat (of_nat (w mod 2 ^ ?k) :: u64) = w mod 2 ^ ?k"
    using n(1) by (auto intro!: un order.trans [OF div_le_dividend] order.trans [OF mod_less_eq_dividend])
  moreover have "unat (ms_nsect ms) < 2 ^ 64" using unsigned_less [of "ms_nsect ms", where 'a = nat] by simp
  then have "take_bit 64 (unat (ms_nsect ms)) = unat (ms_nsect ms)" by (rule take_bit_nat_eq_self)
  ultimately show "ms_place ms (of_nat w) = Some (ms_buf ms (w div 2 ^ ?k), w mod 2 ^ ?k)"
    using d m by (simp add: ms_place_def si oi ms_buf_def word_less_nat_alt pw unsigned_ucast_eq)
  show "mem_obj mem (ms_buf ms (w div 2 ^ ?k), w mod 2 ^ ?k) = Some (ms_objects mem ms ! w)"
    using l ms_objects_nth(2) [OF assms] by (simp add: mem_obj_def)
qed

section \<open>The leaf of a metaset\<close>

definition first_free :: "metaobj list \<Rightarrow> nat option" where
  "first_free mos = List.find (\<lambda>k. mo_used (mos ! k) = 0) [0..<length mos]"

lemma first_free_snoc:
  "first_free (mos @ [mo]) = (case first_free mos of Some n \<Rightarrow> Some n | None \<Rightarrow> if mo_used mo = 0 then Some (length mos) else None)"
proof -
  have "List.find (\<lambda>k. mo_used ((mos @ [mo]) ! k) = 0) [0..<length mos] = first_free mos"
    unfolding first_free_def by (rule find_cong) (auto simp: nth_append)
  then show ?thesis by (simp add: first_free_def [of "mos @ [mo]"] find_append split: option.splits)
qed

lemma init_fold:
  assumes "length mos \<le> 64 * length bmp0" "\<forall>w\<in>set bmp0. w = 0" "length mos \<le> 2 ^ 32"
    and an0: "an0 = Anode \<lparr>an_id = ck, an_shift = sh, an_nall = 0, an_nfree = 0, an_next = 0, an_free_bmp = bmp0\<rparr> h []"
  shows "\<exists>a. fold init_anode_step mos (an0, None) = (Anode a h [], first_free mos) \<and> an_id a = ck \<and> an_shift a = sh \<and>
    an_nall a = length mos \<and> an_next a = 0 \<and> length (an_free_bmp a) = length bmp0 \<and>
    an_nfree a = int (length (filter (\<lambda>mo. mo_used mo = 0) mos)) \<and>
    (\<forall>k. pfs_anode_isfree_obj a k \<longleftrightarrow> k < length mos \<and> mo_used (mos ! k) = 0)"
  using assms(1,3)
proof (induction mos rule: rev_induct)
  case Nil
  have "bmp_word bmp0 i = 0" for i using assms(2) by (auto simp: bmp_word_def)
  then show ?case by (auto simp: an0 first_free_def pfs_anode_isfree_obj_def)
next
  case (snoc mo mos)
  obtain a where a: "fold init_anode_step mos (an0, None) = (Anode a h [], first_free mos)" "an_id a = ck" "an_shift a = sh"
    "an_nall a = length mos" "an_next a = 0" "length (an_free_bmp a) = length bmp0"
    "an_nfree a = int (length (filter (\<lambda>mo. mo_used mo = 0) mos))"
    "\<And>k. pfs_anode_isfree_obj a k \<longleftrightarrow> k < length mos \<and> mo_used (mos ! k) = 0"
    using snoc by auto
  let ?a1 = "a\<lparr>an_nall := Suc (length mos)\<rparr>"
  have f1: "pfs_anode_isfree_obj ?a1 = pfs_anode_isfree_obj a" by (simp add: pfs_anode_isfree_obj_def fun_eq_iff)
  have lt: "length mos < 2 ^ 64" using snoc.prems(2) by simp
  have u: "unat (of_nat (length mos) :: u64) = length mos" using lt by (simp only: unsigned_of_nat) (simp add: take_bit_nat_eq_self)
  show ?case
  proof (cases "mo_used mo = 0")
    case True
    let ?an = "pfs_anode_nfree_inc (Anode ?a1 h []) (of_nat (length mos)) 1"
    have i: "pfs_anode_isfree_obj (an_info ?an) k \<longleftrightarrow> (if k = length mos then \<not> pfs_anode_isfree_obj a k else pfs_anode_isfree_obj a k)" for k
      using nfree_inc_isfree [of "of_nat (length mos)" ?a1 h 1 k] snoc.prems(1) a(6) u f1 by simp
    have "fold init_anode_step (mos @ [mo]) (an0, None) = (?an, first_free (mos @ [mo]))"
      using True a(1,4) by (simp add: init_anode_step_def Let_def first_free_snoc del: pfs_anode_nfree_inc.simps split: option.splits)
    moreover have "?an = Anode (an_info ?an) h []" by (simp add: Let_def)
    ultimately have "fold init_anode_step (mos @ [mo]) (an0, None) = (Anode (an_info ?an) h [], first_free (mos @ [mo]))" by simp
    then show ?thesis
      using a i True by (intro exI [of _ "an_info ?an"] conjI allI) (auto simp: Let_def nth_append simp del: fold_append)
  next
    case False
    have "fold init_anode_step (mos @ [mo]) (an0, None) = (Anode ?a1 h [], first_free (mos @ [mo]))"
      using False a(1,4) by (simp add: init_anode_step_def Let_def first_free_snoc split: option.splits)
    then show ?thesis
      using a f1 False by (intro exI [of _ ?a1] conjI allI) (auto simp: nth_append less_Suc_eq simp del: fold_append)
  qed
qed

definition ms_shift :: "metaset \<Rightarrow> nat" where
  "ms_shift ms = ms_opps ms + ffs (ucast (roundup_power2 (ucast (ms_nsect ms)))) - 1"

lemma find_upt: "k < n \<Longrightarrow> P k \<Longrightarrow> (\<And>i. i < k \<Longrightarrow> \<not> P i) \<Longrightarrow> List.find P [0..<n] = Some k"
  by (auto simp: find_Some_iff intro!: exI [of _ k])

lemma ffs_power:
  assumes "k < 32"
  shows "ffs (2 ^ k) = Suc k"
proof -
  have b: "bit (2 ^ k :: u32) n \<longleftrightarrow> n = k" for n using assms by (auto simp: bit_exp_iff)
  have "List.find (bit (2 ^ k :: u32)) [0..<32] = Some k"
    by (rule find_upt) (use assms in \<open>simp_all add: b\<close>)
  then show ?thesis by (simp only: ffs_def option.case)
qed

lemma ms_shift_bound:
  assumes "ms_full mem ms"
  shows "ms_nobj ms \<le> 2 ^ ms_shift ms" "ms_shift ms \<le> 32" "0 < ms_nobj ms"
proof -
  let ?n = "unat (ms_nsect ms)" and ?v = "ucast (ms_nsect ms) :: u64"
  have n: "0 < ?n" "?n * 2 ^ ms_opps ms \<le> 2560" using assms by (auto simp: ms_full_def ms_nobj_def word_gt_0 unat_gt_0)
  have "?n \<le> ?n * 2 ^ ms_opps ms" "2 ^ ms_opps ms \<le> ?n * 2 ^ ms_opps ms" using n(1) by simp_all
  with n(2) have n2: "?n \<le> 2560" and o2: "2 ^ ms_opps ms \<le> (2560 :: nat)" by (blast intro: order.trans)+
  show "0 < ms_nobj ms" using n by (simp add: ms_nobj_def)
  have v: "unat ?v = ?n" using n2 by (simp add: unsigned_ucast_eq take_bit_nat_eq_self)
  obtain k where k: "unat (roundup_power2 ?v) = 2 ^ k" "?n \<le> 2 ^ k" "\<And>j. ?n \<le> 2 ^ j \<Longrightarrow> k \<le> j"
    using roundup_least [of ?v] n n2 v by (auto simp: word_gt_0 unat_gt_0 [symmetric])
  have "?n \<le> 2 ^ 12" using n2 by simp
  then have k12: "k \<le> 12" by (rule k(3))
  have "unat (ucast (roundup_power2 ?v) :: u32) = 2 ^ k"
    using k(1) k12 by (simp only: unsigned_ucast_eq) (simp add: take_bit_nat_eq_self)
  moreover have "unat (of_nat (2 ^ k) :: u32) = 2 ^ k" using k12 by (simp only: unsigned_of_nat) (simp add: take_bit_nat_eq_self)
  ultimately have "ucast (roundup_power2 ?v) = (of_nat (2 ^ k) :: u32)" by (simp only: word_unat_eq_iff)
  then have "ucast (roundup_power2 ?v) = (2 ^ k :: u32)" by simp
  then have sh: "ms_shift ms = ms_opps ms + k" using ffs_power [of k] k12 by (simp add: ms_shift_def)
  show "ms_nobj ms \<le> 2 ^ ms_shift ms" using k(2) by (simp add: ms_nobj_def sh power_add mult.commute)
  have "ms_opps ms \<le> 12"
  proof (rule ccontr)
    assume "\<not> ms_opps ms \<le> 12"
    then have "(2 :: nat) ^ 13 \<le> 2 ^ ms_opps ms" by (intro power_increasing) auto
    then show False using o2 by simp
  qed
  then show "ms_shift ms \<le> 32" using k12 by (simp add: sh)
qed

lemma length_filter_nth: "length (filter P xs) = length (filter (\<lambda>k. P (xs ! k)) [0..<length xs])"
  by (subst map_nth [of xs, symmetric], subst filter_map) (simp add: comp_def)

lemma init_leaf:
  assumes "ms_full mem ms"
  obtains a where "pfs_metaset_init_anode mem ms ck = Anode a ms []" "leaf_wf a" "an_id a = ck" "an_shift a = ms_shift ms"
    "an_nall a = ms_nobj ms"
    "\<And>k. pfs_anode_isfree_obj a k \<longleftrightarrow> k < ms_nobj ms \<and> mo_used (ms_objects mem ms ! k) = 0"
proof -
  let ?mos = "ms_objects mem ms"
  let ?an0 = "Anode \<lparr>an_id = ck, an_shift = ms_shift ms, an_nall = 0, an_nfree = 0, an_next = 0, an_free_bmp = replicate 40 0\<rparr> ms []"
  have len: "length ?mos = ms_nobj ms" "length ?mos \<le> 2560" "0 < length ?mos"
    using ms_objects_nth(1) [OF assms] ms_shift_bound(3) [OF assms] assms by (auto simp: ms_full_def)
  obtain a where a: "fold init_anode_step ?mos (?an0, None) = (Anode a ms [], first_free ?mos)" "an_id a = ck"
    "an_shift a = ms_shift ms" "an_nall a = length ?mos" "an_next a = 0" "length (an_free_bmp a) = 40"
    "an_nfree a = int (length (filter (\<lambda>mo. mo_used mo = 0) ?mos))"
    "\<And>k. pfs_anode_isfree_obj a k \<longleftrightarrow> k < length ?mos \<and> mo_used (?mos ! k) = 0"
    using init_fold [of ?mos "replicate 40 0" ?an0 ck "ms_shift ms" ms] len by auto
  define a' where "a' = (case first_free ?mos of None \<Rightarrow> a | Some n \<Rightarrow> a\<lparr>an_next := n\<rparr>)"
  have e: "pfs_metaset_init_anode mem ms ck = Anode a' ms []"
    using a(1) by (simp add: pfs_metaset_init_anode_def ms_shift_def Let_def a'_def set_next_def split: option.splits)
  have f: "an_id a' = an_id a" "an_shift a' = an_shift a" "an_nall a' = an_nall a" "an_nfree a' = an_nfree a"
    "an_free_bmp a' = an_free_bmp a" by (auto simp: a'_def split: option.splits)
  have fr: "pfs_anode_isfree_obj a' = pfs_anode_isfree_obj a" using f(5) by (simp add: pfs_anode_isfree_obj_def fun_eq_iff)
  have nx: "an_next a' < length ?mos"
    using len(3) a(5) by (auto simp: a'_def first_free_def find_Some_iff split: option.splits)
  have cong: "filter (pfs_anode_isfree_obj a) [0..<length ?mos] = filter (\<lambda>k. mo_used (?mos ! k) = 0) [0..<length ?mos]"
    by (rule filter_cong) (use a(8) in auto)
  have "leaf_wf a'"
    using nx len(2) a(4,6,7) length_filter_nth [of "\<lambda>mo. mo_used mo = 0" ?mos] cong
    unfolding leaf_wf_def f fr by simp
  then show thesis using a(2-4,8) e f fr len(1) by (intro that [of a']) simp_all
qed

section \<open>The root of a type\<close>

definition mount_leaf :: "(u64 \<Rightarrow> metaobj list) \<Rightarrow> metaset list \<Rightarrow> nat \<Rightarrow> metaset anode" where
  "mount_leaf mem mss i = pfs_metaset_init_anode mem (mss ! i) (of_nat i)"

text \<open>The root over the chunks of a volume, in the order of their numbers. The host of the root is
  not used.\<close>

definition mount_root :: "(u64 \<Rightarrow> metaobj list) \<Rightarrow> metaset list \<Rightarrow> metaset anode" where
  "mount_root mem mss = pfs_init_anode (hd mss) (map (mount_leaf mem mss) [0..<length mss])"

text \<open>A formatted type: chunks of one shape, every object in its place with its number and sound.\<close>

definition formatted :: "(u64 \<Rightarrow> metaobj list) \<Rightarrow> bool \<Rightarrow> u8 \<Rightarrow> metaset list \<Rightarrow> bool" where
  "formatted mem hole t mss \<longleftrightarrow> mss \<noteq> [] \<and> length mss < 2 ^ 31 \<and>
     (\<forall>i<length mss. ms_full mem (mss ! i) \<and> ms_shift (mss ! i) = ms_shift (hd mss) \<and>
        (\<forall>w<ms_nobj (mss ! i). obj_ok hole (ms_objects mem (mss ! i) ! w) \<and>
           txop_key (ms_objects mem (mss ! i) ! w) = (t, push_bit (ms_shift (hd mss)) (of_nat i) OR of_nat w)))"

lemma mount_root_wf:
  assumes "formatted mem hole t mss"
  shows "root_wf (mount_root mem mss)" "an_children (mount_root mem mss) = map (mount_leaf mem mss) [0..<length mss]"
    "children_wf (an_info (mount_root mem mss)) (map (mount_leaf mem mss) [0..<length mss])"
    "an_shift (an_info (hd (map (mount_leaf mem mss) [0..<length mss]))) = ms_shift (hd mss)"
proof -
  let ?cs = "map (mount_leaf mem mss) [0..<length mss]"
  have full: "ms_full mem (mss ! i)" "ms_shift (mss ! i) = ms_shift (hd mss)" if "i < length mss" for i
    using assms that by (auto simp: formatted_def)
  have leaf: "\<exists>a. mount_leaf mem mss i = Anode a (mss ! i) [] \<and> leaf_wf a \<and> an_id a = of_nat i \<and> an_shift a = ms_shift (hd mss) \<and>
      an_nall a = ms_nobj (mss ! i)" if "i < length mss" for i
    unfolding mount_leaf_def by (rule init_leaf [OF full(1) [OF that], of "of_nat i"]) (use full(2) [OF that] in auto)
  have ne: "mss \<noteq> []" "length mss < 2 ^ 31" using assms by (auto simp: formatted_def)
  have hd0: "hd ?cs = mount_leaf mem mss 0" "hd mss = mss ! 0" using ne by (simp_all add: hd_map hd_conv_nth)
  show sh: "an_shift (an_info (hd ?cs)) = ms_shift (hd mss)" using leaf [of 0] ne hd0 by auto
  show ch: "an_children (mount_root mem mss) = ?cs" by (simp add: mount_root_def pfs_init_anode_def)
  have sp: "an_span (mount_leaf mem mss i) \<le> 2 ^ ms_shift (hd mss)" if i: "i < length mss" for i
  proof -
    obtain a where "mount_leaf mem mss i = Anode a (mss ! i) []" "an_nall a = ms_nobj (mss ! i)" using leaf [OF i] by blast
    then show ?thesis using ms_shift_bound(1) [OF full(1) [OF i]] full(2) [OF i] by simp
  qed
  have "ms_shift (hd mss) \<le> 32" using ms_shift_bound(2) [OF full(1) [of 0]] ne hd0 by simp
  moreover have "an_nfree (an_info (mount_root mem mss)) = sum_list (map nfree ?cs)"
    by (simp add: mount_root_def pfs_init_anode_def)
  moreover have "an_id (an_info (mount_leaf mem mss i)) = of_nat i \<and> an_shift (an_info (mount_leaf mem mss i)) = ms_shift (hd mss)"
    if "i < length mss" for i using leaf [OF that] by auto
  ultimately show cw: "children_wf (an_info (mount_root mem mss)) ?cs"
    unfolding children_wf_def sh Let_def using sp ne(2) by simp
  have "list_all anode_wf ?cs" using leaf by (force simp: list_all_iff)
  then show "root_wf (mount_root mem mss)"
    using cw ch ne(1) by (cases "mount_root mem mss") (auto simp: root_wf_def mount_root_def pfs_init_anode_def)
qed

lemma mount_leaf_at:
  assumes "formatted mem hole t mss" "i < length mss"
  obtains b where "ms_full mem (mss ! i)" "mount_leaf mem mss i = Anode b (mss ! i) []" "an_nall b = ms_nobj (mss ! i)" "an_nall b \<le> 2560"
    "\<And>k. pfs_anode_isfree_obj b k \<longleftrightarrow> k < ms_nobj (mss ! i) \<and> mo_used (ms_objects mem (mss ! i) ! k) = 0"
proof -
  have full: "ms_full mem (mss ! i)" using assms by (simp add: formatted_def)
  show thesis
    by (rule init_leaf [OF full, of "of_nat i"]) (use full that in \<open>auto simp: mount_leaf_def ms_full_def\<close>)
qed

text \<open>Object \<open>w\<close> of chunk \<open>i\<close>.\<close>

lemma mount_at:
  assumes f: "formatted mem hole t mss" and i: "i < length mss" and w: "w < ms_nobj (mss ! i)"
    and v: "v = push_bit (ms_shift (hd mss)) (of_nat i) OR of_nat w"
  shows "v \<in> all_vals (mount_root mem mss)" "leaf_of (mount_root mem mss) v = Some (mss ! i, of_nat w)"
    "v \<in> free_vals (mount_root mem mss) \<longleftrightarrow> mo_used (ms_objects mem (mss ! i) ! w) = 0"
proof -
  let ?r = "mount_root mem mss" and ?cs = "map (mount_leaf mem mss) [0..<length mss]" and ?s = "ms_shift (hd mss)"
  note r = mount_root_wf [OF f]
  obtain a h where ra: "?r = Anode a h ?cs" "a = an_info ?r" using r(2) by (cases ?r) auto
  have ne: "?cs \<noteq> []" using f by (simp add: formatted_def)
  obtain b where b: "mount_leaf mem mss i = Anode b (mss ! i) []" "an_nall b = ms_nobj (mss ! i)" "an_nall b \<le> 2560"
    "\<And>k. pfs_anode_isfree_obj b k \<longleftrightarrow> k < ms_nobj (mss ! i) \<and> mo_used (ms_objects mem (mss ! i) ! k) = 0"
    by (rule mount_leaf_at [OF f i]) blast
  have un: "unat (of_nat w :: u64) = w" using w b(2,3) by (simp add: unsigned_of_nat take_bit_nat_eq_self)
  have sp: "unat (of_nat w :: u64) < an_span (?cs ! i)" using i b(1,2) w un by simp
  have vj: "v = push_bit (an_shift (an_info (hd ?cs))) (of_nat i) OR of_nat w" using v r(4) by simp
  have cw: "children_wf a ?cs" using r(3) ra(2) by simp
  have wf: "anode_wf (Anode a h ?cs)" using r(1) ra(1) by (simp add: root_wf_def)
  have leaf: "of_nat w \<in> all_vals (mount_leaf mem mss i)" using b(1,2) w by simp
  show "v \<in> all_vals ?r" using ne i leaf unfolding ra(1) vj by (auto intro!: bexI [of _ i])
  show "leaf_of ?r v = Some (mss ! i, of_nat w)"
    using anode_child_index_join [OF cw _ sp, folded vj] i b(1) ne by (simp add: ra(1) leaf_of_simps)
  have "v \<in> free_vals ?r \<longleftrightarrow> of_nat w \<in> free_vals (mount_leaf mem mss i)"
    using mem_free_vals_internal [OF wf _ sp] i unfolding ra(1) vj by simp
  also have "\<dots> \<longleftrightarrow> mo_used (ms_objects mem (mss ! i) ! w) = 0"
    using mem_free_vals_leaf [of "mount_leaf mem mss i" "of_nat w"] b un w by simp
  finally show "v \<in> free_vals ?r \<longleftrightarrow> mo_used (ms_objects mem (mss ! i) ! w) = 0" .
qed

lemma mount_vals:
  assumes f: "formatted mem hole t mss" and v: "v \<in> all_vals (mount_root mem mss)"
  obtains i w where "i < length mss" "w < ms_nobj (mss ! i)" "v = push_bit (ms_shift (hd mss)) (of_nat i) OR of_nat w"
proof -
  note r = mount_root_wf(2,4) [OF f]
  obtain a h where ra: "mount_root mem mss = Anode a h (map (mount_leaf mem mss) [0..<length mss])"
    using r(1) by (cases "mount_root mem mss") auto
  obtain i u where i: "i < length mss" "u \<in> all_vals (mount_leaf mem mss i)" "v = push_bit (ms_shift (hd mss)) (of_nat i) OR u"
    using v f unfolding ra r(2) [symmetric] by (auto simp: formatted_def)
  show thesis by (rule mount_leaf_at [OF f i(1)]) (use i that in auto)
qed

section \<open>The mounted state\<close>

text \<open>The state before the discard index is built: no transaction, memory as it was read.\<close>

definition mounted :: "(u8 \<Rightarrow> metaset list) \<Rightarrow> 'cb meta \<Rightarrow> bool" where
  "mounted mss m \<longleftrightarrow> mm_tx m = None \<and> mm_run_version m \<le> pfs_current_version \<and>
     (\<forall>t\<in>mtypes. mm_anode m t = mount_root (mm_mem m) (mss t) \<and> formatted (mm_mem m) (has_hole m) t (mss t))"

lemma mounted_obj:
  assumes m: "mounted mss m" "t \<in> mtypes" "i < length (mss t)" "w < ms_nobj (mss t ! i)"
    and v: "v = push_bit (ms_shift (hd (mss t))) (of_nat i) OR of_nat w"
  obtains b k mo where "v \<in> objs m t" "place m t v = Some (b, k)" "k < 2 ^ 32" "mo = ms_objects (mm_mem m) (mss t ! i) ! w"
    "mobj m t v = Some mo" "txop_key mo = (t, v)" "obj_ok (has_hole m) mo" "v \<in> free_vals (mm_anode m t) \<longleftrightarrow> mo_used mo = 0"
proof -
  have root: "mm_anode m t = mount_root (mm_mem m) (mss t)" and f: "formatted (mm_mem m) (has_hole m) t (mss t)"
    using m by (auto simp: mounted_def)
  note at = mount_at [OF f m(3,4) v, folded root]
  have full: "ms_full (mm_mem m) (mss t ! i)" using f m(3) by (simp add: formatted_def)
  note p = ms_place_nobj [OF full m(4)]
  have "place m t v = Some (ms_buf (mss t ! i) (w div 2 ^ ms_opps (mss t ! i)), w mod 2 ^ ms_opps (mss t ! i))"
    using at(2) p(1) by (simp add: place_def anode_get_leaf)
  then show thesis using at p(3,4) f m(3,4) v by (intro that) (auto simp: mobj_def formatted_def)
qed

lemma mounted_obj_at:
  assumes m: "mounted mss m" "t \<in> mtypes" and v: "v \<in> objs m t"
  obtains i w where "i < length (mss t)" "w < ms_nobj (mss t ! i)" "v = push_bit (ms_shift (hd (mss t))) (of_nat i) OR of_nat w"
proof -
  have "mm_anode m t = mount_root (mm_mem m) (mss t)" and f: "formatted (mm_mem m) (has_hole m) t (mss t)"
    using m by (auto simp: mounted_def)
  then show thesis using mount_vals [OF f] v that by metis
qed

lemma mount_inv:
  assumes m: "mounted mss m" and "bd_ok m"
  shows "meta_inv crc m"
proof -
  have obj: "\<exists>b i mo. place m t v = Some (b, i) \<and> i < 2 ^ 32 \<and> mobj m t v = Some mo \<and> txop_key mo = (t, v) \<and>
      obj_ok (has_hole m) mo \<and> (v \<in> free_vals (mm_anode m t) \<longleftrightarrow> mo_used mo = 0)" if t: "t \<in> mtypes" and v: "v \<in> objs m t" for t v
    by (rule mounted_obj_at [OF m t v], rule mounted_obj [OF m t]) blast+
  have "root_wf (mm_anode m t)" "an_children (mm_anode m t) \<noteq> []" if "t \<in> mtypes" for t
    using mount_root_wf(1,2) [of "mm_mem m" "has_hole m" t "mss t"] m that by (auto simp: mounted_def formatted_def)
  then have l: "layout_ok m" using obj m unfolding layout_ok_def mounted_def by blast
  have "free_vals (mm_anode m t) = {v \<in> objs m t. \<exists>mo. cur m t v = Some mo \<and> mo_used mo = 0}" if t: "t \<in> mtypes" for t
  proof -
    have "cur m = mobj m" using m cur_none by (auto simp: mounted_def)
    then show ?thesis using obj [OF t] free_vals_subset [of "mm_anode m t"] by fastforce
  qed
  then show ?thesis using l assms by (simp add: meta_inv_def free_ok_def mounted_def)
qed

section \<open>The discard index\<close>

text \<open>The numbers of the unused objects in a state of discard.\<close>

definition tag_nos :: "u32 \<Rightarrow> metaobj list \<Rightarrow> u64 set" where
  "tag_nos s mos = {mo_number mo |mo. mo \<in> set mos \<and> mo_used mo = 0 \<and> (\<exists>bt. MO2BT mo = Some bt \<and> bt_dstatus bt = s)}"

definition same_but_index :: "'cb meta \<Rightarrow> 'cb meta \<Rightarrow> bool" where
  "same_but_index m m' \<longleftrightarrow> (\<exists>r. m' = m\<lparr>mm_bdroot := r\<rparr>)"

lemma same_but_index_refl [simp]: "same_but_index m m"
  unfolding same_but_index_def by (rule exI [of _ "mm_bdroot m"]) simp

lemma same_but_index_upd [simp]: "same_but_index m (m\<lparr>mm_bdroot := r\<rparr>)"
  by (auto simp: same_but_index_def)

lemma same_but_index_trans: "same_but_index m m1 \<Longrightarrow> same_but_index m1 m2 \<Longrightarrow> same_but_index m m2"
  by (auto simp: same_but_index_def)

definition indexed :: "metaobj list \<Rightarrow> 'cb meta \<Rightarrow> 'cb meta \<Rightarrow> bool" where
  "indexed mos m m' \<longleftrightarrow> same_but_index m m' \<and>
     mm_bdroot m' BDS_READY = mm_bdroot m BDS_READY \<union> tag_nos BDS_READY mos \<and>
     mm_bdroot m' BDS_INP = mm_bdroot m BDS_INP \<union> tag_nos BDS_INP mos"

lemma MO2BT_Some: "MO2BT mo = Some bt \<longleftrightarrow> (\<exists>r. mo_data mo = BT bt r)"
  by (simp split: modata.splits)

lemma tag_nos_concat: "tag_nos s (concat xss) = (\<Union>xs\<in>set xss. tag_nos s xs)"
  unfolding tag_nos_def set_concat by blast

lemma indexed_append: "indexed xs m m1 \<Longrightarrow> indexed ys m1 m2 \<Longrightarrow> indexed (xs @ ys) m m2"
  unfolding indexed_def using same_but_index_trans [of m m1 m2] by (auto simp: tag_nos_def)

lemma indexed_nil: "indexed [] m m"
  by (simp add: indexed_def tag_nos_def)

definition tags :: "metaobj list \<Rightarrow> bool" where
  "tags mos \<longleftrightarrow> list_all (\<lambda>mo. mo_used mo = 0 \<longrightarrow>
     (\<exists>bt. MO2BT mo = Some bt \<and> bt_dstatus bt \<in> {BDS_NONE, BDS_READY, BDS_INP})) mos"

lemma build_obj_indexed:
  assumes "tags [mo]"
  shows "\<exists>m'. bd_build_obj mo (Some m) = Some m' \<and> indexed [mo] m m'"
proof (cases "mo_used mo = 0")
  case False
  then show ?thesis by (simp add: bd_build_obj_def indexed_def tag_nos_def)
next
  case True
  then obtain bt where bt: "MO2BT mo = Some bt" "bt_dstatus bt \<in> {BDS_NONE, BDS_READY, BDS_INP}"
    using assms by (auto simp: tags_def)
  then show ?thesis
    using True by (auto simp: bd_build_obj_def indexed_def tag_nos_def pfs_bd_add_def)
qed

lemma build_objs_indexed:
  assumes "tags mos"
  shows "\<exists>m'. fold bd_build_obj mos (Some m) = Some m' \<and> indexed mos m m'"
  using assms
proof (induction mos arbitrary: m)
  case (Cons mo mos)
  obtain m1 where m1: "bd_build_obj mo (Some m) = Some m1" "indexed [mo] m m1"
    using build_obj_indexed [of mo m] Cons.prems by (auto simp: tags_def)
  obtain m2 where "fold bd_build_obj mos (Some m1) = Some m2" "indexed mos m1 m2"
    using Cons.IH [of m1] Cons.prems by (auto simp: tags_def)
  then show ?case using m1 indexed_append [OF m1(2)] by simp
qed (auto intro: indexed_nil)

lemma build_leaves_indexed:
  assumes "\<And>c. c \<in> set cs \<Longrightarrow> an_children c = [] \<and> tags (ms_objects (mm_mem m) (an_host c))"
  shows "\<exists>m'. fold (\<lambda>can (err, s). let (err1, s') = pfs_anode_walk pfs_metaset_bd_build_index can s in (err_update err err1, s'))
      cs (0, Some m) = (0, Some m') \<and> indexed (concat (map (\<lambda>c. ms_objects (mm_mem m) (an_host c)) cs)) m m'"
  using assms
proof (induction cs arbitrary: m)
  case (Cons c cs)
  obtain a h where c: "c = Anode a h []" using Cons.prems [of c] by (cases c) auto
  obtain m1 where m1: "fold bd_build_obj (ms_objects (mm_mem m) h) (Some m) = Some m1" "indexed (ms_objects (mm_mem m) h) m m1"
    using build_objs_indexed [of "ms_objects (mm_mem m) h" m] Cons.prems [of c] c by auto
  have mem: "mm_mem m1 = mm_mem m" using m1(2) by (auto simp: indexed_def same_but_index_def)
  have w: "pfs_anode_walk pfs_metaset_bd_build_index c (Some m) = (0, Some m1)"
    using m1(1) by (simp add: c pfs_metaset_bd_build_index_def err_update_def)
  obtain m2 where "fold (\<lambda>can (err, s). let (err1, s') = pfs_anode_walk pfs_metaset_bd_build_index can s in (err_update err err1, s'))
      cs (0, Some m1) = (0, Some m2)" "indexed (concat (map (\<lambda>c. ms_objects (mm_mem m1) (an_host c)) cs)) m1 m2"
    using Cons.IH [of m1] Cons.prems mem by auto
  then show ?case using w indexed_append [OF m1(2)] c mem by (simp add: err_update_def del: pfs_anode_walk.simps)
qed (simp add: indexed_nil)

lemma leaf_tags:
  assumes "mounted mss m" "i < length (mss MT_BLKTAG)"
  shows "tags (ms_objects (mm_mem m) (mss MT_BLKTAG ! i))"
proof -
  let ?ms = "mss MT_BLKTAG ! i"
  have t: "MT_BLKTAG \<in> mtypes" by (simp add: mtypes_def)
  then have full: "ms_full (mm_mem m) ?ms" using assms by (auto simp: mounted_def formatted_def)
  have "mo_used mo = 0 \<longrightarrow> (\<exists>bt. MO2BT mo = Some bt \<and> bt_dstatus bt \<in> {BDS_NONE, BDS_READY, BDS_INP})"
    if w: "w < ms_nobj ?ms" "mo = ms_objects (mm_mem m) ?ms ! w" for w mo
    by (rule mounted_obj [OF assms(1) t assms(2) w(1) refl])
       (use w(2) in \<open>auto simp: obj_ok_def txop_key_def metaobj_typed.simps tag_ok_def split: modata.splits\<close>)
  then show ?thesis using ms_objects_nth(1) [OF full] by (auto simp: tags_def list_all_length)
qed

lemma mounted_tag_nos:
  assumes "mounted mss m"
  shows "(\<Union>i<length (mss MT_BLKTAG). tag_nos s (ms_objects (mm_mem m) (mss MT_BLKTAG ! i))) = {v. bd_in m s v}"
    (is "(\<Union>i<_. tag_nos s (?os i)) = _")
proof (intro set_eqI iffI; clarsimp)
  have t: "MT_BLKTAG \<in> mtypes" by (simp add: mtypes_def)
  have cur: "cur m = mobj m" using assms cur_none by (auto simp: mounted_def)
  have full: "length (?os i) = ms_nobj (mss MT_BLKTAG ! i)" if "i < length (mss MT_BLKTAG)" for i
    using assms that t by (intro ms_objects_nth(1)) (auto simp: mounted_def formatted_def)
  {
    fix v i assume i: "i < length (mss MT_BLKTAG)" "v \<in> tag_nos s (?os i)"
    then obtain mo w where mo: "v = mo_number mo" "w < ms_nobj (mss MT_BLKTAG ! i)" "mo = ?os i ! w" "mo_used mo = 0"
        "\<exists>bt r. mo_data mo = BT bt r \<and> bt_dstatus bt = s"
      using full [OF i(1)] unfolding tag_nos_def MO2BT_Some by (auto simp: in_set_conv_nth)
    show "bd_in m s v"
      by (rule mounted_obj [OF assms t i(1) mo(2) refl])
         (use mo cur in \<open>auto simp: bd_in_def txop_key_def\<close>)
  next
    fix v assume b: "bd_in m s v"
    then have v: "v \<in> objs m MT_BLKTAG" by (simp add: bd_in_def)
    obtain i w where iw: "i < length (mss MT_BLKTAG)" "w < ms_nobj (mss MT_BLKTAG ! i)"
        "v = push_bit (ms_shift (hd (mss MT_BLKTAG))) (of_nat i) OR of_nat w"
      by (rule mounted_obj_at [OF assms t v])
    obtain mo where mo: "mo = ?os i ! w" "mobj m MT_BLKTAG v = Some mo" "txop_key mo = (MT_BLKTAG, v)"
      by (rule mounted_obj [OF assms t iw]) blast
    have "mo \<in> set (?os i)" using mo(1) iw(2) full [OF iw(1)] by simp
    then show "\<exists>i\<in>{..<length (mss MT_BLKTAG)}. v \<in> tag_nos s (?os i)"
      using b mo(2,3) iw(1) cur by (intro bexI [of _ i]) (auto simp: bd_in_def tag_nos_def txop_key_def)
  }
qed

lemma build_index_mounted:
  assumes mt: "mounted mss m" and e: "mm_bdroot m BDS_READY = {}" "mm_bdroot m BDS_INP = {}"
  shows "\<exists>m'. pfs_meta_bd_build_index m = Some m' \<and> same_but_index m m' \<and>
     mm_bdroot m' BDS_READY = {v. bd_in m BDS_READY v} \<and> mm_bdroot m' BDS_INP = {v. bd_in m BDS_INP v}"
proof -
  let ?mss = "mss MT_BLKTAG" and ?r = "mm_anode m MT_BLKTAG"
  let ?cs = "map (mount_leaf (mm_mem m) ?mss) [0..<length ?mss]"
  have f: "formatted (mm_mem m) (has_hole m) MT_BLKTAG ?mss" "?r = mount_root (mm_mem m) ?mss"
    using mt by (auto simp: mounted_def mtypes_def)
  obtain a h where r: "?r = Anode a h ?cs" using f(2) by (simp add: mount_root_def pfs_init_anode_def)
  have ne: "?cs \<noteq> []" using f(1) by (simp add: formatted_def)
  have leaf: "an_children c = [] \<and> an_host c = ?mss ! i" if "i < length ?mss" "c = mount_leaf (mm_mem m) ?mss i" for c i
    by (rule mount_leaf_at [OF f(1) that(1)]) (use that(2) in simp)
  have hosts: "map (\<lambda>c. ms_objects (mm_mem m) (an_host c)) ?cs = map (\<lambda>i. ms_objects (mm_mem m) (?mss ! i)) [0..<length ?mss]"
    using leaf by (auto simp: comp_def)
  obtain m' where m': "fold (\<lambda>can (err, s). let (err1, s') = pfs_anode_walk pfs_metaset_bd_build_index can s in (err_update err err1, s'))
      ?cs (0, Some m) = (0, Some m')" "indexed (concat (map (\<lambda>i. ms_objects (mm_mem m) (?mss ! i)) [0..<length ?mss])) m m'"
    using build_leaves_indexed [of ?cs m] leaf leaf_tags [OF mt] unfolding hosts by fastforce
  have "pfs_meta_bd_build_index m = Some m'"
    using m'(1) ne by (simp add: pfs_meta_bd_build_index_def r pfs_metaset_bd_build_index_def)
  moreover have "tag_nos s (concat (map (\<lambda>i. ms_objects (mm_mem m) (?mss ! i)) [0..<length ?mss])) = {v. bd_in m s v}" for s
    unfolding mounted_tag_nos [OF mt, symmetric] tag_nos_concat by (auto simp: atLeast0LessThan)
  ultimately show ?thesis using m'(2) e by (simp add: indexed_def)
qed

lemma mount_ready:
  assumes "mounted mss m" "same_but_index m m'"
    "mm_bdroot m' BDS_READY = {v. bd_in m BDS_READY v}" "mm_bdroot m' BDS_INP = {v. bd_in m BDS_INP v}"
  shows "meta_inv crc (m'\<lparr>mm_inited := b\<rparr>)"
proof -
  obtain r where m': "m' = m\<lparr>mm_bdroot := r\<rparr>" using assms(2) by (auto simp: same_but_index_def)
  have "mounted mss (m'\<lparr>mm_inited := b\<rparr>)" using assms(1) by (simp add: m' mounted_def has_hole_def)
  moreover have "bd_ok (m'\<lparr>mm_inited := b\<rparr>)"
    using assms(3,4) by (auto simp: bd_ok_def bd_in_def m' cur_def mobj_def place_def)
  ultimately show ?thesis by (rule mount_inv)
qed

end
