(* ===== verification/Meta_Props.thy ===== *)
theory Meta_Props
  imports Log_Request Journal_Props Meta_Load
begin

text \<open>
  Transactions end to end: the metadata layer on top of the log thread. The contract that
  \<open>pfs_tx_end\<close> relies on is discharged for \<open>pfs_log_request_impl\<close>, and the whole of a
  transaction, from \<open>pfs_tx_begin\<close> to the reply of the log thread, happens or does not.
\<close>

section \<open>The log thread as the journal of the metadata layer\<close>

text \<open>What a write request meets: the log thread and its configuration, the number the request
  gets, the requests queued before it and those that arrive before the following rounds, and the
  answers of the device.\<close>

record 'cb log_link =
  ll_conf :: log_conf
  ll_thread :: "'cb lthread"
  ll_rid :: nat
  ll_earlier :: "'cb log_req list"
  ll_arr :: "'cb log_req list list"
  ll_world :: world

definition link_req :: "'cb log_link \<Rightarrow> 'cb tx \<Rightarrow> 'cb log_req" where
  "link_req j tx = \<lparr>r_id = ll_rid j, r_type = LOG_WRITE, r_itx = Some tx, r_otxq = [], r_hostid = - 1, r_next_hostid = - 1\<rparr>"

text \<open>The thread works on the memory of the mount.\<close>

definition link_thread :: "'cb log_link \<Rightarrow> store \<Rightarrow> 'cb lthread" where
  "link_thread j mem = (ll_thread j)\<lparr>th_mem := mem\<rparr>"

definition log_write_request :: "'cb log_link \<Rightarrow> 'cb log_request" where
  "log_write_request j tx mem =
     (case pfs_log_request_impl (ll_conf j) (ll_rid j) LOG_WRITE (Some tx) [] (- 1) (- 1) (ll_earlier j) (ll_arr j)
        (link_thread j mem) (ll_world j) of
        (Val (Some (rp, th')), w') \<Rightarrow> Some (rp_error rp, rp_otxq rp, th_mem th')
      | _ \<Rightarrow> None)"

text \<open>The thread is between two rounds, on a device that carries the memory; nobody else is
  writing; the other requests are polls and flushes.\<close>

definition link_ok :: "'cb log_link \<Rightarrow> store \<Rightarrow> bool" where
  "link_ok j mem \<longleftrightarrow> clean (ll_world j) \<and> opts_ok (lc_opts (ll_conf j)) \<and>
     idle (ll_conf j) (w_pbd (ll_world j)) (link_thread j mem) \<and> writes (th_work (ll_thread j) 0) = [] \<and>
     list_all others_ok (ll_earlier j # ll_arr j) \<and> list_all (\<lambda>rp. rp_id rp \<noteq> ll_rid j) (th_replies (ll_thread j))"

text \<open>The journal has room for the transaction, and its counters are not used up.\<close>

definition link_room :: "'cb log_link \<Rightarrow> 'cb tx \<Rightarrow> bool" where
  "link_room j tx \<longleftrightarrow> length (t_ops tx) < length (d_journal (w_pbd (ll_world j))) \<and>
     uint (head_txid (log_leader (th_log (ll_thread j)))) + 1 < 2 ^ 62 \<and>
     uint (head_lsn (log_leader (th_log (ll_thread j)))) + int (length (t_ops tx)) < 2 ^ 62"

definition log_serves :: "'cb log_link \<Rightarrow> 'cb tx \<Rightarrow> store \<Rightarrow> bool" where
  "log_serves j tx mem \<longleftrightarrow> link_ok j mem \<and> link_room j tx \<and> tx_ready (lc_env (ll_conf j)) mem tx"

lemma log_request_ok:
  assumes "log_serves j tx mem"
  shows "safe ((=) (w_pbd (ll_world j)))
    (pfs_log_request_impl (ll_conf j) (ll_rid j) LOG_WRITE (Some tx) [] (- 1) (- 1) (ll_earlier j) (ll_arr j) (link_thread j mem))
    (write_answered (ll_conf j) tx mem) (survives (ll_conf j) (link_thread j mem) [link_req j tx])"
proof -
  let ?lc = "ll_conf j" and ?d = "w_pbd (ll_world j)" and ?th = "link_thread j mem" and ?req = "link_req j tx"
  have l: "opts_ok (lc_opts ?lc)" "idle ?lc ?d ?th" "writes (th_work ?th 0) = []" "others_ok (ll_earlier j)"
    "list_all others_ok (ll_arr j)" "reply_to ?req ?th = None"
    using assms by (auto simp: log_serves_def link_ok_def link_thread_def reply_to_def link_req_def find_None_iff list_all_iff)
  have q: "reqs_ok ?lc ?d ?th (th_work ?th 0)" using l(2) by (simp add: idle_def)
  note e = others_ok_reqs [OF q l(4)]
  have w: "req_ok ?lc (length (d_journal ?d)) (th_mem ?th) (log_leader (th_log ?th)) ?req"
    using assms by (simp add: log_serves_def link_room_def req_ok_def write_ok_def link_req_def link_thread_def)
  have "safe ((=) ?d) (log_await ?lc ?req ((ll_earlier j @ [?req]) # ll_arr j) ?th) (write_answered ?lc tx (th_mem ?th))
      (survives ?lc ?th [?req])"
    using e w l by (intro log_await_ok) (auto simp: reqs_ok_def link_req_def)
  then show ?thesis by (simp add: pfs_log_request_impl_def link_req_def link_thread_def Let_def del: log_await.simps)
qed

interpretation lw: write_journal log_write_request log_serves
proof (unfold_locales, goal_cases)
  case (1 j tx mem rv rpl mem1)
  have c: "clean (ll_world j)" using 1(1) by (simp add: log_serves_def link_ok_def)
  have "case pfs_log_request_impl (ll_conf j) (ll_rid j) LOG_WRITE (Some tx) [] (- 1) (- 1) (ll_earlier j) (ll_arr j)
      (link_thread j mem) (ll_world j) of
       (Val x, w') \<Rightarrow> write_answered (ll_conf j) tx mem x (w_pbd w') | (Abrt, w') \<Rightarrow> False | (Crash, w') \<Rightarrow> True"
    by (rule safe_cases [OF log_request_ok [OF 1(1)] c refl]) simp_all
  then show ?case using 1(2) by (auto simp: log_write_request_def write_answered_def split: prod.splits outcome.splits option.splits)
qed

section \<open>Transactions\<close>

text \<open>Between transactions the bitmaps are determined by the memory.\<close>

lemma idle_free:
  assumes "meta_inv crc m" "mm_tx m = None" "meta_inv crc m'" "mm_tx m' = None" "frame m m'" "t \<in> mtypes"
  shows "free_vals (mm_anode m' t) = free_vals (mm_anode m t)"
proof -
  have "cur m' t v = cur m t v" for v
    using cur_none [OF assms(2)] cur_none [OF assms(4)] frame_mobj [OF assms(5,6)] by simp
  then show ?thesis using assms frame_objs [OF assms(5,6)] by (simp add: meta_inv_def free_ok_def)
qed

lemma tx_begin_in:
  assumes "meta_inv crc m0" "mm_inited m0" "mm_tx m0 = None" "pfs_tx_begin True tf m0 = Inr m1"
  shows "in_tx crc m1" "frame m0 m1"
proof -
  let ?tx = "pfs_tx_get TXT_WRITE tf"
  have m1: "m1 = m0\<lparr>mm_tx := Some ?tx\<rparr>" using assms(4) by (simp add: pfs_tx_begin_def)
  have l: "layout_ok m0" using assms(1) by (simp add: meta_inv_def)
  then show fr: "frame m0 m1" by (simp add: m1 frame_def layout_ok_def)
  have lay: "layout_ok m1" using frame_layout [OF fr l] .
  have id: "pfs_tx_get_mo (Some ?tx) = id" by (simp add: fun_eq_iff get_mo_pick pick_def tx_version_def pfs_tx_get_def)
  have c: "cur m1 t v = cur m0 t v" for t v
    unfolding cur_none [OF assms(3)] by (simp add: m1 cur_def id mobj_def place_def option.map_id)
  have "free_ok m1" "bd_ok m1" using assms(1) c by (auto simp: meta_inv_def free_ok_def bd_ok_def bd_in_def m1)
  moreover have "tx_wf ?tx" "heads_ok crc m1 ?tx" "\<not> t_done ?tx"
    by (simp_all add: tx_wf_def heads_ok_def pfs_tx_get_def tx_op_def)
  ultimately show "in_tx crc m1" using lay assms(2) by (simp add: in_tx_def meta_inv_def m1)
qed

section \<open>A small mounted volume\<close>

text \<open>One chunk with a sector of two objects for every type. The second block waits to be
  discarded.\<close>

definition demo_data :: "u8 \<Rightarrow> u64 \<Rightarrow> modata" where
  "demo_data t n =
     (if t = MT_BLKTAG then BT \<lparr>bt_ino = 0, bt_blkid = 0, bt_dstatus = (if n = 1 then BDS_READY else BDS_NONE), bt_ndiscard = 0,
        bt_holelen = 0, bt_holeoff = 0\<rparr> (replicate 56 0)
      else if t = MT_DIRENTRY then DE \<lparr>de_name = replicate 64 0, de_ino = 0, de_dirino = 0, de_extdeno = 0\<rparr> []
      else IN \<lparr>in_type = 0, in_flags = 0, in_padding = 0, in_pvtid = 0, in_deno = 0, in_nlink = 0, in_nblock = 0,
        in_size = 0, in_atime = 0, in_ctime = 0, in_mtime = 0, in_btime = 0\<rparr> (replicate 16 0))"

definition demo_obj :: "u8 \<Rightarrow> u64 \<Rightarrow> metaobj" where
  "demo_obj t n = \<lparr>mo_number = n, mo_version = 0, mo_next = 0, mo_prev = 0, mo_type = t, mo_used = 0,
     mo_padding = [0, 0], mo_checksum = NOT 1, mo_data = demo_data t n\<rparr>"

definition demo_ms :: "u8 \<Rightarrow> metaset list" where
  "demo_ms t = [\<lparr>ms_type = t, ms_opps = 1, ms_sectbda = 4096 * ucast t, ms_nsect = 1, ms_objsize = 2048\<rparr>]"

definition demo_mem :: store where
  "demo_mem b = (if b = 4096 then [demo_obj MT_BLKTAG 0, demo_obj MT_BLKTAG 1]
     else if b = 8192 then [demo_obj MT_DIRENTRY 0, demo_obj MT_DIRENTRY 1]
     else if b = 12288 then [demo_obj MT_INODE 0, demo_obj MT_INODE 1] else [])"

definition demo_meta :: "nat meta" where
  "demo_meta = \<lparr>mm_anode = (\<lambda>t. mount_root demo_mem (demo_ms t)), mm_mem = demo_mem, mm_bdroot = (\<lambda>s. {}), mm_tx = None,
     mm_lock = Unlocked, mm_inited = False, mm_blksize = 4194304, mm_run_version = 2, mm_notes = []\<rparr>"

lemma demo_mounted: "mounted demo_ms demo_meta"
proof -
  have sh: "ms_shift (hd (demo_ms t)) = 1" "ms_nobj (demo_ms t ! 0) = 2" for t
    by (simp_all add: demo_ms_def ms_shift_def ms_nobj_def) (code_simp)
  have "formatted demo_mem True t (demo_ms t)" if "t \<in> mtypes" for t
    using that sh by (auto simp: formatted_def mtypes_def demo_ms_def ms_full_def ms_buf_def ms_objects_def demo_mem_def
        less_2_cases_iff demo_obj_def obj_ok_def txop_key_def demo_data_def metaobj_typed.simps tag_ok_def)
  moreover have "has_hole demo_meta" unfolding has_hole_def demo_meta_def by code_simp
  ultimately show ?thesis by (simp add: mounted_def demo_meta_def pfs_current_version_def)
qed

section \<open>Mount\<close>

text \<open>Claim C9: mounting a formatted volume. The allocation nodes that \<open>pfs_metaset_init_anode\<close>
  and \<open>pfs_init_anode\<close> build from the objects on the device, with the index of
  \<open>pfs_meta_bd_build_index\<close>, which never fails there, satisfy the invariant of the metadata layer:
  the free objects are exactly the unused ones, and the index lists exactly the free blocks that
  wait for their discard or are being discarded.\<close>

theorem mount_builds_state:
  assumes "mounted mss m" "mm_bdroot m BDS_READY = {}" "mm_bdroot m BDS_INP = {}"
  shows "case pfs_meta_bd_build_index m of
       None \<Rightarrow> False
     | Some m' \<Rightarrow> meta_inv crc (m'\<lparr>mm_inited := True\<rparr>) \<and> mm_mem m' = mm_mem m \<and> mm_anode m' = mm_anode m \<and>
         (\<forall>t\<in>mtypes. free_vals (mm_anode m t) = {v \<in> objs m t. \<exists>mo. mobj m t v = Some mo \<and> mo_used mo = 0}) \<and>
         mm_bdroot m' BDS_READY = {v. bd_in m BDS_READY v} \<and> mm_bdroot m' BDS_INP = {v. bd_in m BDS_INP v}"
proof -
  obtain m' where m': "pfs_meta_bd_build_index m = Some m'" "same_but_index m m'"
     "mm_bdroot m' BDS_READY = {v. bd_in m BDS_READY v}" "mm_bdroot m' BDS_INP = {v. bd_in m BDS_INP v}"
    using build_index_mounted [OF assms] by blast
  have inv: "meta_inv crc (m'\<lparr>mm_inited := b\<rparr>)" for b by (rule mount_ready [OF assms(1) m'(2-4)])
  have e: "mm_mem m' = mm_mem m" "mm_anode m' = mm_anode m" "mm_tx m' = None"
    using m'(2) assms(1) by (auto simp: same_but_index_def mounted_def)
  have "free_ok (m'\<lparr>mm_inited := True\<rparr>)" using inv by (simp add: meta_inv_def)
  then have "\<forall>t\<in>mtypes. free_vals (mm_anode m t) = {v \<in> objs m t. \<exists>mo. mobj m t v = Some mo \<and> mo_used mo = 0}"
    using cur_none [of "m'\<lparr>mm_inited := True\<rparr>"] e by (simp add: free_ok_def mobj_def place_def)
  then show ?thesis using m' e inv by simp
qed

theorem mount_builds_state_witness:
  "case pfs_meta_bd_build_index demo_meta of
       None \<Rightarrow> False
     | Some m' \<Rightarrow> meta_inv (env_crc vol_env) (m'\<lparr>mm_inited := True\<rparr>) \<and> mm_mem m' = demo_mem \<and>
         mm_bdroot m' BDS_READY = {v. bd_in demo_meta BDS_READY v}"
  using mount_builds_state [OF demo_mounted, of "env_crc vol_env"] by (auto simp: demo_meta_def split: option.splits)

section \<open>All or nothing\<close>

text \<open>A transaction on the volume that allocates an inode, and the log thread it meets.\<close>

definition demo_m0 :: "nat meta" where
  "demo_m0 = the (pfs_meta_bd_build_index demo_meta)\<lparr>mm_inited := True\<rparr>"

definition demo_m1 :: "nat meta" where
  "demo_m1 = projr (pfs_tx_begin True False demo_m0)"

definition demo_m2 :: "nat meta" where
  "demo_m2 = snd (the (new_op demo_m1))"

definition demo_m3 :: "nat meta" where
  "demo_m3 = snd (the (the (pfs_meta_alloc Min MT_INODE 0 demo_m2)))"

definition demo_m4 :: "nat meta" where
  "demo_m4 = the (done_op (env_crc vol_env) 0 None demo_m3)"

definition demo_pbd :: pbd where
  "demo_pbd = vol_pbd\<lparr>d_sect := demo_mem\<rparr>"

definition demo_link :: "nat log_link" where
  "demo_link = \<lparr>ll_conf = vol_conf, ll_thread = vol_thread\<lparr>th_mem := demo_mem\<rparr>, ll_rid = 1, ll_earlier = [], ll_arr = [],
     ll_world = vol_world\<lparr>w_pbd := demo_pbd\<rparr>\<rparr>"

text \<open>Claim C3: a transaction on the metadata happens or does not. It begins on a mounted file
  system, makes any sequence of the layer's steps and ends with a code; its end goes through the
  log thread, which may meet any device errors, with other hosts' polls and flushes in between.
  If the end returns 0, every object is in memory as the transaction saw it. If it returns
  anything else, memory, the numbers of the objects and the free objects of every type are those
  from before the transaction; an error of the caller is what is returned. The invariant holds
  again in both cases, and only the log thread can keep the call from returning.\<close>

theorem tx_end_all_or_nothing:
  assumes "meta_inv (env_crc (lc_env (ll_conf j))) m0" "mm_inited m0" "mm_tx m0 = None"
    and "pfs_tx_begin True tf m0 = Inr m1" "root_key_ok rk"
    and "(meta_step (env_crc (lc_env (ll_conf j))) rk)\<^sup>*\<^sup>* m1 m" "mm_tx m = Some tx"
    and "err = 0 \<Longrightarrow> all_done tx" "link_ok j (mm_mem m0)" "link_room j tx"
  shows "case pfs_tx_end (log_write_request j) err m of
       None \<Rightarrow> err = 0 \<and> log_write_request j (tx\<lparr>t_done := True\<rparr>) (mm_mem m0) = None
     | Some (rv, m', rpl, opcbs, txcbs) \<Rightarrow>
         meta_inv (env_crc (lc_env (ll_conf j))) m' \<and> mm_inited m' \<and> mm_tx m' = None \<and> rpl = [] \<and>
         (err \<noteq> 0 \<longrightarrow> rv = err) \<and>
         (if rv = 0 then published m m'
          else mm_mem m' = mm_mem m0 \<and>
            (\<forall>t\<in>mtypes. objs m' t = objs m0 t \<and> free_vals (mm_anode m' t) = free_vals (mm_anode m0 t)))"
proof -
  let ?crc = "env_crc (lc_env (ll_conf j))"
  note b = tx_begin_in [OF assms(1-4)]
  have s: "in_tx ?crc m" "frame m0 m"
    using meta_steps_inv [OF assms(6) b(1) assms(5)] frame_trans [OF b(2)] by auto
  have mem: "mm_mem m = mm_mem m0" using s(2) by (simp add: frame_def)
  have "meta_inv ?crc m" using s(1) by (simp add: in_tx_def)
  then have "txok ?crc m tx" using assms(7) by (rule meta_inv_txok)
  then have srv: "log_serves j (tx\<lparr>t_done := True\<rparr>) (mm_mem m)" if "err = 0" "t_ops tx \<noteq> []"
    using all_done_ready [of "lc_env (ll_conf j)" m tx True] assms(8) [OF that(1)] that(2) assms(9,10) mem
    by (simp add: log_serves_def link_room_def)
  have restored: "mm_mem m' = mm_mem m0 \<and>
      (\<forall>t\<in>mtypes. objs m' t = objs m0 t \<and> free_vals (mm_anode m' t) = free_vals (mm_anode m0 t))"
    if "meta_inv ?crc m'" "mm_tx m' = None" "frame m m'" for m'
  proof -
    have f: "frame m0 m'" using frame_trans s(2) that(3) by blast
    then show ?thesis
      using frame_objs [OF f] idle_free [OF assms(1,3) that(1,2) f] by (simp add: frame_def)
  qed
  show ?thesis
    using lw.tx_end_ok [OF s(1) assms(7,8) srv, of err] restored mem
    by (auto simp: ended_def split: option.splits)
qed

lemma demo_computes:
  "case new_op demo_m1 of None \<Rightarrow> False | Some (a, m) \<Rightarrow> a = 0"
  "case mm_tx demo_m2 of None \<Rightarrow> False | Some tx \<Rightarrow> (case tx_op tx 0 of None \<Rightarrow> False | Some tp \<Rightarrow> top_flags tp = 0)"
  "case pfs_meta_alloc Min MT_INODE 0 demo_m2 of Some (Some (d, m)) \<Rightarrow> d = 0 | _ \<Rightarrow> False"
  "case done_op (env_crc vol_env) 0 None demo_m3 of None \<Rightarrow> False | Some m \<Rightarrow> True"
  "case mm_tx demo_m4 of None \<Rightarrow> False | Some tx \<Rightarrow> all_done tx \<and> length (t_ops tx) = 1"
  by code_simp+

lemma demo_steps:
  "meta_inv (env_crc vol_env) demo_m0" "mm_inited demo_m0" "mm_tx demo_m0 = None" "mm_mem demo_m0 = demo_mem"
  "pfs_tx_begin True False demo_m0 = Inr demo_m1" "root_key_ok Min"
  "(meta_step (env_crc vol_env) Min)\<^sup>*\<^sup>* demo_m1 demo_m4"
  "\<exists>tx. mm_tx demo_m4 = Some tx \<and> all_done tx \<and> length (t_ops tx) = 1"
proof -
  obtain m' where m': "pfs_meta_bd_build_index demo_meta = Some m'" "same_but_index demo_meta m'"
     "mm_bdroot m' BDS_READY = {v. bd_in demo_meta BDS_READY v}" "mm_bdroot m' BDS_INP = {v. bd_in demo_meta BDS_INP v}"
    using build_index_mounted [OF demo_mounted] by (auto simp: demo_meta_def)
  show "meta_inv (env_crc vol_env) demo_m0" "mm_inited demo_m0" "mm_tx demo_m0 = None" "mm_mem demo_m0 = demo_mem"
    using mount_ready [OF demo_mounted m'(2-4)] m'(1,2)
    by (auto simp: demo_m0_def same_but_index_def demo_meta_def)
  show "pfs_tx_begin True False demo_m0 = Inr demo_m1" by (simp add: demo_m1_def pfs_tx_begin_def)
  show "root_key_ok Min" by (auto simp: root_key_ok_def intro: Min_in)
  have "new_op demo_m1 = Some (0, demo_m2)" using demo_computes(1) by (auto simp: demo_m2_def split: option.splits)
  then have 1: "meta_step (env_crc vol_env) Min demo_m1 demo_m2" by (rule step_new)
  have "fresh demo_m2 0" using demo_computes(2) unfolding fresh_def by (auto split: option.splits)
  moreover have "pfs_meta_alloc Min MT_INODE 0 demo_m2 = Some (Some (0, demo_m3))"
    using demo_computes(3) by (auto simp: demo_m3_def split: option.splits)
  ultimately have 2: "meta_step (env_crc vol_env) Min demo_m2 demo_m3" by (intro step_alloc) (auto simp: mtypes_def)
  have "done_op (env_crc vol_env) 0 None demo_m3 = Some demo_m4"
    using demo_computes(4) by (auto simp: demo_m4_def split: option.splits)
  then have "meta_step (env_crc vol_env) Min demo_m3 demo_m4" by (rule step_done)
  then show "(meta_step (env_crc vol_env) Min)\<^sup>*\<^sup>* demo_m1 demo_m4"
    using 1 2 by (meson converse_rtranclp_into_rtranclp rtranclp.rtrancl_refl)
  show "\<exists>tx. mm_tx demo_m4 = Some tx \<and> all_done tx \<and> length (t_ops tx) = 1"
    using demo_computes(5) by (auto split: option.splits)
qed

lemma demo_link_ok: "link_ok demo_link demo_mem" "length (t_ops tx) = 1 \<Longrightarrow> link_room demo_link tx"
proof -
  have "log_inv vol_env vol_log demo_pbd [] []"
    unfolding log_inv_def using vol_leader_ok vol_ring_ok vol_groups_ok
    by (auto simp: vol_log_def demo_pbd_def vol_pbd_def vol_mnt_def pfs_writable_def)
  then have "th_ok vol_conf demo_pbd [] [] (link_thread demo_link demo_mem)"
    by (simp add: th_ok_def link_thread_def demo_link_def vol_thread_def vol_conf_def committed_def vol_log_def demo_pbd_def)
  then have "idle vol_conf demo_pbd (link_thread demo_link demo_mem)"
    unfolding idle_def by (auto simp: link_thread_def demo_link_def vol_thread_def vol_log_def reqs_ok_def)
  then show "link_ok demo_link demo_mem"
    by (simp add: link_ok_def) (simp add: demo_link_def vol_world_def clean_def opts_ok_def vol_conf_def default_log_opts_def
        vol_thread_def others_ok_def)
  show "link_room demo_link tx" if "length (t_ops tx) = 1"
    using that by (simp add: link_room_def demo_link_def demo_pbd_def vol_pbd_def vol_thread_def vol_log_def vol_leader_def
        zero_leader_record_def)
qed

theorem tx_end_all_or_nothing_witness:
  "case pfs_tx_end (log_write_request demo_link) 0 demo_m4 of
       None \<Rightarrow> True
     | Some (rv, m', rpl, opcbs, txcbs) \<Rightarrow>
         meta_inv (env_crc vol_env) m' \<and> (if rv = 0 then published demo_m4 m' else mm_mem m' = demo_mem)"
proof -
  obtain tx where tx: "mm_tx demo_m4 = Some tx" "all_done tx" "length (t_ops tx) = 1" using demo_steps(8) by blast
  have c: "ll_conf demo_link = vol_conf" "lc_env vol_conf = vol_env" by (simp_all add: demo_link_def vol_conf_def)
  show ?thesis
    using tx_end_all_or_nothing [of demo_link demo_m0 False demo_m1 Min demo_m4 tx 0, unfolded c, OF demo_steps(1-3,5-7) tx(1,2)]
      demo_link_ok(1) demo_link_ok(2) [OF tx(3)] demo_steps(4)
    by (auto split: option.splits)
qed

end
