(* ===== verification/Spec2Isabelle.thy ===== *)
theory Spec2Isabelle
  imports Lease_Props Meta_Props
begin

text \<open>
  Verification of PolarFS, the user-space distributed file system of this repository.
\<close>

end
